(* ===== verification/Prelude.thy ===== *)
theory Prelude
  imports Main
begin

text \<open>
  What every component of the development shares: the exceptions of the program and the result
  type of fallible code, the few pieces of the Python standard library the models use
  (\<open>str.split\<close>, \<open>str.join\<close>, \<open>str.strip\<close>, \<open>str.upper\<close>, \<open>int(str)\<close>, indexing and slicing of lists),
  and the collections of facts the component proofs are driven by.  Exceptions carry the format
  string of their message without its arguments, because some handlers of the program look for a
  substring of the message.
\<close>

named_theorems py_str \<open>facts on the string functions\<close>
named_theorems res_simps \<open>rewrite rules for results\<close>

section \<open>Exceptions and results\<close>

datatype exn =
    ConfigurationError string
  | SubscriptionError string
  | DataError string
  | ApiError string
  | PipeError string
  | EmptyPipeError
  | PyValueError
  | PyTypeError
  | PyKeyError string
  | PyIndexError
  | PyAttributeError
  | PyAssertionError
  | PyZeroDivisionError
  | PyRecursionError
  | UndefinedTableError
  | UniqueViolationError
  | IntegrityError
  | NoResultFound
  | MultipleResultsFound
  | PostgresConnectionError
  | PyConnectionError
  | PyOSError
  | CancelledError
  | QueueFull
  | HTTPBadRequest string
  | HTTPNotFound string
  | HTTPForbidden
  | StatementError
  | ClickException string
  | ConfigParserError string
  | PyNameError
  | PyException string

type_synonym 'a res = "exn + 'a"

text \<open>\<open>except PipeError\<close> also catches its subclass \<open>EmptyPipeError\<close>.\<close>

fun is_pipe_error :: "exn \<Rightarrow> bool" where
  "is_pipe_error (PipeError _) = True"
| "is_pipe_error EmptyPipeError = True"
| "is_pipe_error _ = False"

text \<open>Sequencing of fallible code: an exception ends the computation.\<close>

fun bindE :: "'a res \<Rightarrow> ('a \<Rightarrow> 'b res) \<Rightarrow> 'b res" where
  "bindE (Inl e) f = Inl e"
| "bindE (Inr x) f = f x"

lemma bindE_Inr_iff [res_simps]:
  "bindE m f = Inr y \<longleftrightarrow> (\<exists>x. m = Inr x \<and> f x = Inr y)"
  by (cases m) auto

lemma bindE_Inl_iff [res_simps]:
  "bindE m f = Inl e \<longleftrightarrow> m = Inl e \<or> (\<exists>x. m = Inr x \<and> f x = Inl e)"
  by (cases m) auto

lemma bindE_assoc: "bindE (bindE m f) g = bindE m (\<lambda>x. bindE (f x) g)"
  by (cases m) auto

text \<open>A loop whose body may raise, over a list.\<close>

fun foldE :: "('a \<Rightarrow> 's \<Rightarrow> 's res) \<Rightarrow> 'a list \<Rightarrow> 's \<Rightarrow> 's res" where
  "foldE f [] s = Inr s"
| "foldE f (x # xs) s = bindE (f x s) (foldE f xs)"

fun mapE :: "('a \<Rightarrow> 'b res) \<Rightarrow> 'a list \<Rightarrow> 'b list res" where
  "mapE f [] = Inr []"
| "mapE f (x # xs) = bindE (f x) (\<lambda>y. bindE (mapE f xs) (\<lambda>ys. Inr (y # ys)))"

lemma foldE_append: "foldE f (xs @ ys) s = bindE (foldE f xs s) (foldE f ys)"
proof (induction xs arbitrary: s)
  case Nil
  then show ?case by simp
next
  case (Cons x xs)
  show ?case by (cases "f x s") (simp_all add: Cons.IH)
qed

lemma foldE_invariant:
  assumes "foldE f xs s = Inr t" and "P s"
    and "\<And>x s s'. x \<in> set xs \<Longrightarrow> P s \<Longrightarrow> f x s = Inr s' \<Longrightarrow> P s'"
  shows "P t"
  using assms
proof (induction xs arbitrary: s)
  case Nil
  then show ?case by simp
next
  case (Cons x xs)
  from Cons.prems(1) obtain s' where s': "f x s = Inr s'" "foldE f xs s' = Inr t"
    by (auto simp: res_simps)
  have "P s'" using Cons.prems(2,3) s'(1) by auto
  then show ?case using Cons.IH [OF s'(2)] Cons.prems(3) by auto
qed

lemma mapE_Inr_length: "mapE f xs = Inr ys \<Longrightarrow> length ys = length xs"
  by (induction xs arbitrary: ys) (auto simp: res_simps)

lemma mapE_Inr_map: "(\<And>x. x \<in> set xs \<Longrightarrow> f x = Inr (g x)) \<Longrightarrow> mapE f xs = Inr (map g xs)"
  by (induction xs) auto

text \<open>Sequencing of fallible code on a state that keeps its changes when an exception is raised.\<close>

type_synonym ('s, 'a) act = "'s \<Rightarrow> 'a res \<times> 's"

definition seqA :: "('s, 'a) act \<Rightarrow> ('a \<Rightarrow> ('s, 'b) act) \<Rightarrow> ('s, 'b) act" where
  "seqA f g s = (case f s of (Inl e, s') \<Rightarrow> (Inl e, s') | (Inr x, s') \<Rightarrow> g x s')"

definition pureA :: "'a \<Rightarrow> ('s, 'a) act" where
  "pureA x s = (Inr x, s)"

definition raiseA :: "exn \<Rightarrow> ('s, 'a) act" where
  "raiseA e s = (Inl e, s)"

definition modifyA :: "('s \<Rightarrow> 's) \<Rightarrow> ('s, unit) act" where
  "modifyA f s = (Inr (), f s)"

definition whenA :: "bool \<Rightarrow> ('s, unit) act \<Rightarrow> ('s, unit) act" where
  "whenA b f = (if b then f else pureA ())"

fun eachA :: "('a \<Rightarrow> ('s, unit) act) \<Rightarrow> 'a list \<Rightarrow> ('s, unit) act" where
  "eachA f [] = pureA ()"
| "eachA f (x # xs) = seqA (f x) (\<lambda>_. eachA f xs)"

fun mapA :: "('a \<Rightarrow> ('s, 'b) act) \<Rightarrow> 'a list \<Rightarrow> ('s, 'b list) act" where
  "mapA f [] = pureA []"
| "mapA f (x # xs) = seqA (f x) (\<lambda>y. seqA (mapA f xs) (\<lambda>ys. pureA (y # ys)))"

lemma act_simps [simp]:
  "seqA (pureA x) g = g x" "seqA (raiseA e) g = raiseA e" "whenA True f = f" "whenA False f = pureA ()"
  "pureA x s = (Inr x, s)" "raiseA e s = (Inl e, s)" "modifyA h s = (Inr (), h s)"
  by (simp_all add: seqA_def pureA_def raiseA_def modifyA_def whenA_def fun_eq_iff)

lemma seqA_Inr: "f s = (Inr x, s') \<Longrightarrow> seqA f g s = g x s'"
  by (simp add: seqA_def)

lemma seqA_Inl: "f s = (Inl e, s') \<Longrightarrow> seqA f g s = (Inl e, s')"
  by (simp add: seqA_def)

text \<open>A loop over objects that each change their state; an exception leaves the later ones alone.\<close>

fun each_sub :: "('s \<Rightarrow> unit res \<times> 's) \<Rightarrow> 's list \<Rightarrow> unit res \<times> 's list" where
  "each_sub f [] = (Inr (), [])"
| "each_sub f (x # xs) =
     (case f x of
        (Inl e, x') \<Rightarrow> (Inl e, x' # xs)
      | (Inr _, x') \<Rightarrow> (let (r, xs') = each_sub f xs in (r, x' # xs')))"

lemma each_sub_all:
  "(\<And>x. x \<in> set xs \<Longrightarrow> f x = (Inr (), g x)) \<Longrightarrow> each_sub f xs = (Inr (), map g xs)"
  by (induction xs) auto

section \<open>Strings\<close>

fun py_split :: "char \<Rightarrow> string \<Rightarrow> string list" where
  "py_split c [] = [[]]"
| "py_split c (x # xs) =
     (if x = c then [] # py_split c xs
      else (case py_split c xs of [] \<Rightarrow> [[x]] | w # ws \<Rightarrow> (x # w) # ws))"

fun py_join :: "string \<Rightarrow> string list \<Rightarrow> string" where
  "py_join sep [] = []"
| "py_join sep [w] = w"
| "py_join sep (w # v # ws) = w @ sep @ py_join sep (v # ws)"

lemma py_split_not_Nil [simp, py_str]: "py_split c s \<noteq> []"
  by (induction s) (auto split: list.splits)

lemma py_split_length [py_str]: "0 < length (py_split c s)"
  by simp

lemma py_join_Cons_char: "ws \<noteq> [] \<Longrightarrow> py_join sep ((x # w) # ws) = x # py_join sep (w # ws)"
  by (cases ws) auto

lemma py_join_split [simp, py_str]: "py_join [c] (py_split c s) = s"
proof (induction s)
  case Nil
  then show ?case by simp
next
  case (Cons x xs)
  obtain w ws where w: "py_split c xs = w # ws"
    by (metis py_split_not_Nil neq_Nil_conv)
  show ?case
  proof (cases ws)
    case Nil
    then show ?thesis using Cons w by auto
  next
    case (Cons a list)
    then show ?thesis using Cons.IH w by auto
  qed
qed

lemma py_split_no_sep [py_str]: "w \<in> set (py_split c s) \<Longrightarrow> c \<notin> set w"
proof (induction s arbitrary: w)
  case Nil
  then show ?case by simp
next
  case (Cons x xs)
  then show ?case by (cases "py_split c xs") (auto split: if_splits)
qed

lemma py_split_no_char [simp]: "c \<notin> set s \<Longrightarrow> py_split c s = [s]"
  by (induction s) auto

lemma py_split_append_sep: "c \<notin> set w \<Longrightarrow> py_split c (w @ c # s) = w # py_split c s"
  by (induction w) auto

lemma py_split_join [py_str]:
  "ws \<noteq> [] \<Longrightarrow> (\<And>w. w \<in> set ws \<Longrightarrow> c \<notin> set w) \<Longrightarrow> py_split c (py_join [c] ws) = ws"
proof (induction ws)
  case Nil
  then show ?case by simp
next
  case (Cons w ws)
  then show ?case by (cases ws) (simp_all add: py_split_append_sep)
qed

definition is_space :: "char \<Rightarrow> bool" where
  "is_space c = (c \<in> set [CHR '' '', CHR 0x09, CHR 0x0A, CHR 0x0B, CHR 0x0C, CHR 0x0D])"

definition py_strip :: "string \<Rightarrow> string" where
  "py_strip s = rev (dropWhile is_space (rev (dropWhile is_space s)))"

definition char_upper :: "char \<Rightarrow> char" where
  "char_upper c = (let n = (of_char c :: nat) in if 97 \<le> n \<and> n \<le> 122 then char_of (n - 32) else c)"

definition char_lower :: "char \<Rightarrow> char" where
  "char_lower c = (let n = (of_char c :: nat) in if 65 \<le> n \<and> n \<le> 90 then char_of (n + 32) else c)"

definition py_upper :: "string \<Rightarrow> string" where
  "py_upper s = map char_upper s"

definition py_lower :: "string \<Rightarrow> string" where
  "py_lower s = map char_lower s"

fun starts_with :: "string \<Rightarrow> string \<Rightarrow> bool" where
  "starts_with p [] = (p = [])"
| "starts_with [] (x # xs) = True"
| "starts_with (c # cs) (x # xs) = (c = x \<and> starts_with cs xs)"

lemma starts_with_iff: "starts_with p s \<longleftrightarrow> (\<exists>r. s = p @ r)"
  by (induction p s rule: starts_with.induct) auto

text \<open>\<open>p in s\<close> for strings and \<open>s.find(p)\<close> for bytes: does \<open>p\<close> occur in \<open>s\<close>?\<close>

fun occurs_in :: "'a list \<Rightarrow> 'a list \<Rightarrow> bool" where
  "occurs_in p [] = (p = [])"
| "occurs_in p (x # xs) = (take (length p) (x # xs) = p \<or> occurs_in p xs)"

lemma occurs_in_iff: "occurs_in p s \<longleftrightarrow> (\<exists>a b. s = a @ p @ b)"
proof (induction s)
  case Nil
  then show ?case by auto
next
  case (Cons x xs)
  have "take (length p) (x # xs) = p \<longleftrightarrow> (\<exists>b. x # xs = p @ b)"
    by (metis append_eq_conv_conj append_take_drop_id)
  moreover have "(\<exists>a b. x # xs = a @ p @ b) \<longleftrightarrow> (\<exists>b. x # xs = p @ b) \<or> (\<exists>a b. xs = a @ p @ b)"
    by (metis append_Cons append_Nil append_eq_Cons_conv list.inject)
  ultimately show ?case using Cons by simp
qed

definition is_digit :: "char \<Rightarrow> bool" where
  "is_digit c = (let n = (of_char c :: nat) in 48 \<le> n \<and> n \<le> 57)"

definition digit_val :: "char \<Rightarrow> nat" where
  "digit_val c = of_char c - 48"

definition digits_val :: "string \<Rightarrow> nat" where
  "digits_val s = foldl (\<lambda>n c. 10 * n + digit_val c) 0 s"

text \<open>
  \<open>int(s)\<close> on a string: surrounding white space, an optional sign, decimal digits in which single
  underscores may separate digits.  \<open>None\<close> is the \<open>ValueError\<close>.
\<close>

definition py_nat :: "string \<Rightarrow> nat option" where
  "py_nat s = (let ds = py_split (CHR ''_'') s
               in if list_all (\<lambda>d. d \<noteq> [] \<and> list_all is_digit d) ds
                  then Some (digits_val (concat ds)) else None)"

definition py_int :: "string \<Rightarrow> int option" where
  "py_int s =
     (case py_strip s of
        [] \<Rightarrow> None
      | c # cs \<Rightarrow>
          if c = CHR ''-'' then map_option (\<lambda>n. - int n) (py_nat cs)
          else if c = CHR ''+'' then map_option int (py_nat cs)
          else map_option int (py_nat (c # cs)))"

lemma py_int_examples:
  "py_int ''42'' = Some 42" "py_int '' -7 '' = Some (-7)" "py_int ''1_000'' = Some 1000"
  "py_int '''' = None" "py_int ''1x'' = None" "py_int ''_1'' = None"
  by code_simp+

text \<open>\<open>"%d" % n\<close> and \<open>str(n)\<close>: the decimal digits of an integer.\<close>

fun nat_str :: "nat \<Rightarrow> string" where
  "nat_str n = (if n < 10 then [char_of (48 + n)] else nat_str (n div 10) @ [char_of (48 + n mod 10)])"

declare nat_str.simps [simp del]

definition int_str :: "int \<Rightarrow> string" where
  "int_str i = (if i < 0 then CHR ''-'' # nat_str (nat (- i)) else nat_str (nat i))"

lemma digit_char: "d < 10 \<Longrightarrow> is_digit (char_of (48 + d)) \<and> digit_val (char_of (48 + d)) = d"
  by (simp add: is_digit_def digit_val_def Let_def)

lemma digits_val_snoc: "digits_val (s @ [c]) = 10 * digits_val s + digit_val c"
  by (simp add: digits_val_def)

lemma nat_str_digits: "list_all is_digit (nat_str n) \<and> nat_str n \<noteq> [] \<and> digits_val (nat_str n) = n"
proof (induction n rule: nat_str.induct)
  case (1 n)
  show ?case
  proof (cases "n < 10")
    case True
    then show ?thesis using digit_char [of n]
      by (simp add: nat_str.simps [of n] digits_val_def)
  next
    case False
    with 1 show ?thesis using digit_char [of "n mod 10"]
      by (simp add: nat_str.simps [of n] digits_val_snoc)
  qed
qed

lemma digit_not_special:
  assumes "is_digit c"
  shows "c \<noteq> CHR ''_''" "\<not> is_space c" "c \<noteq> CHR ''-''" "c \<noteq> CHR ''+''" "c \<noteq> CHR ''/''"
    "c \<noteq> CHR '':''" "c \<noteq> CHR ''[''" "c \<noteq> CHR '' ''"
  using assms by (auto simp: is_digit_def is_space_def Let_def)

lemma list_all_no_char: "list_all is_digit s \<Longrightarrow> CHR ''_'' \<notin> set s"
  by (auto simp: list_all_iff dest: digit_not_special)

lemma py_nat_str [py_str]: "py_nat (nat_str n) = Some n"
  using nat_str_digits [of n] list_all_no_char [of "nat_str n"] by (simp add: py_nat_def Let_def)

lemma py_strip_id:
  assumes "s \<noteq> []" "\<not> is_space (hd s)" "\<not> is_space (last s)"
  shows "py_strip s = s"
proof -
  have "dropWhile is_space s = s" using assms by (cases s) auto
  moreover have "dropWhile is_space (rev s) = rev s"
    using assms by (metis dropWhile_eq_self_iff hd_rev)
  ultimately show ?thesis by (simp add: py_strip_def)
qed

lemma py_int_str [py_str]: "py_int (int_str i) = Some i"
proof -
  have d: "list_all is_digit (nat_str n)" "nat_str n \<noteq> []" for n
    using nat_str_digits by auto
  have hl: "is_digit (hd (nat_str n))" "is_digit (last (nat_str n))" for n
    using d [of n] by (simp_all add: list_all_iff)
  have ns: "\<not> is_space (hd (nat_str n))" "\<not> is_space (last (nat_str n))"
    "hd (nat_str n) \<noteq> CHR ''-''" "hd (nat_str n) \<noteq> CHR ''+''" for n
    using hl [of n] digit_not_special by auto
  show ?thesis
  proof (cases "i < 0")
    case True
    have "py_strip (int_str i) = CHR ''-'' # nat_str (nat (- i))"
      using True d ns by (simp add: int_str_def py_strip_id is_space_def)
    then show ?thesis using True by (simp add: py_int_def py_nat_str)
  next
    case False
    have s: "py_strip (int_str i) = nat_str (nat i)"
      using False d ns by (simp add: int_str_def py_strip_id)
    obtain c cs where c: "nat_str (nat i) = c # cs" using d by (meson neq_Nil_conv)
    have "c \<noteq> CHR ''-''" "c \<noteq> CHR ''+''" using ns [of "nat i"] c by auto
    then show ?thesis using False s c py_nat_str [of "nat i"] by (simp add: py_int_def)
  qed
qed

section \<open>Lists and numbers\<close>

text \<open>\<open>xs[i]\<close> with a non-negative index.\<close>

definition py_get :: "'a list \<Rightarrow> nat \<Rightarrow> 'a res" where
  "py_get xs i = (if i < length xs then Inr (xs ! i) else Inl PyIndexError)"

lemma py_get_Inr_iff [res_simps]: "py_get xs i = Inr x \<longleftrightarrow> i < length xs \<and> xs ! i = x"
  by (auto simp: py_get_def)

text \<open>The slices \<open>xs[:n]\<close> and \<open>xs[n:]\<close>; a negative bound counts from the end.\<close>

definition slice_to :: "int \<Rightarrow> 'a list \<Rightarrow> 'a list" where
  "slice_to n xs = (if n < 0 then take (length xs - nat (- n)) xs else take (nat n) xs)"

definition slice_from :: "int \<Rightarrow> 'a list \<Rightarrow> 'a list" where
  "slice_from n xs = (if n < 0 then drop (length xs - nat (- n)) xs else drop (nat n) xs)"

lemma slice_append [simp]: "slice_to n xs @ slice_from n xs = xs"
  by (simp add: slice_to_def slice_from_def)

lemma foldl_filter_irrelevant:
  "(\<And>s x. x \<in> set xs \<Longrightarrow> \<not> P x \<Longrightarrow> f s x = s) \<Longrightarrow> foldl f s (filter P xs) = foldl f s xs"
  by (induction xs arbitrary: s) auto

text \<open>
  \<open>timestamps_are_monotonic\<close> of \<open>src/src/joule/utilities/misc.py\<close> on the times of a block and the last
  time before it; the differences are taken of integers without a bound.
\<close>

definition timestamps_are_monotonic :: "int list \<Rightarrow> int option \<Rightarrow> bool" where
  "timestamps_are_monotonic ts last_ts =
     (if ts = [] then True
      else if 1 < length ts \<and> \<not> list_all (\<lambda>(a, b). 0 < b - a) (zip ts (tl ts)) then False
      else (case last_ts of None \<Rightarrow> True | Some t \<Rightarrow> \<not> hd ts \<le> t))"

definition opt_list :: "'a option \<Rightarrow> 'a list" where
  "opt_list x = (case x of None \<Rightarrow> [] | Some a \<Rightarrow> [a])"

lemma adjacent_sorted:
  "sorted_wrt (<) (ts :: int list) \<longleftrightarrow> list_all (\<lambda>(a, b). 0 < b - a) (zip ts (tl ts))"
proof (induction ts)
  case (Cons r rs)
  show ?case
  proof (cases rs)
    case (Cons a list)
    then show ?thesis using Cons.IH by (auto simp: sorted_wrt2 simp del: sorted_wrt.simps(2))
  qed simp
qed simp

lemma monotonic_iff:
  "timestamps_are_monotonic ts last_ts \<longleftrightarrow> sorted_wrt (<) (opt_list last_ts @ ts)"
proof (cases ts)
  case Nil
  then show ?thesis by (simp add: timestamps_are_monotonic_def opt_list_def split: option.split)
next
  case (Cons r rs)
  have "1 < length ts \<and> \<not> list_all (\<lambda>(a, b). 0 < b - a) (zip ts (tl ts)) \<longleftrightarrow> \<not> sorted_wrt (<) ts"
    unfolding adjacent_sorted using Cons by (cases rs) auto
  then show ?thesis using Cons
    by (force simp: timestamps_are_monotonic_def opt_list_def sorted_wrt2 split: option.split)
qed

text \<open>In a list with increasing keys the elements behind position \<open>n - 1\<close> are those with a greater key.\<close>

lemma filter_greater_drop:
  fixes f :: "'a \<Rightarrow> 'b::linorder"
  assumes "sorted_wrt (<) (map f R)" "0 < n" "n \<le> length R"
  shows "filter (\<lambda>r. f (R ! (n - 1)) < f r) R = drop n R"
proof -
  let ?k = "f (R ! (n - 1))"
  have srt: "sorted (map f R)" using assms(1) strict_sorted_iff by blast
  have "filter (\<lambda>r. ?k < f r) (take n R) = []"
    unfolding filter_empty_conv
  proof
    fix x
    assume "x \<in> set (take n R)"
    then obtain i where i: "i < n" "x = R ! i" by (auto simp: in_set_conv_nth)
    then have "f (R ! i) \<le> ?k"
      using sorted_nth_mono [OF srt, of i "n - 1"] assms(2,3) by simp
    then show "\<not> ?k < f x" using i by simp
  qed
  moreover have "filter (\<lambda>r. ?k < f r) (drop n R) = drop n R"
    unfolding filter_id_conv
  proof
    fix x
    assume "x \<in> set (drop n R)"
    then obtain i where i: "i < length R - n" "x = R ! (n + i)"
      using assms(3) unfolding in_set_conv_nth by (metis length_drop nth_drop)
    then show "?k < f x"
      using sorted_wrt_nth_less [OF assms(1), of "n - 1" "n + i"] assms(2,3) by simp
  qed
  ultimately show ?thesis by (metis append_Nil append_take_drop_id filter_append)
qed

text \<open>The least and the greatest element of a list, as \<open>ORDER BY .. LIMIT 1\<close> selects them.\<close>

fun list_min :: "'a::linorder list \<Rightarrow> 'a option" where
  "list_min [] = None"
| "list_min (x # xs) = (case list_min xs of None \<Rightarrow> Some x | Some y \<Rightarrow> Some (min x y))"

fun list_max :: "'a::linorder list \<Rightarrow> 'a option" where
  "list_max [] = None"
| "list_max (x # xs) = (case list_max xs of None \<Rightarrow> Some x | Some y \<Rightarrow> Some (max x y))"

lemma list_max_None [simp]: "list_max xs = None \<longleftrightarrow> xs = []"
  by (cases xs) (auto split: option.splits)

lemma list_min_None [simp]: "list_min xs = None \<longleftrightarrow> xs = []"
  by (cases xs) (auto split: option.splits)

lemma list_max_Some_iff: "list_max xs = Some m \<longleftrightarrow> m \<in> set xs \<and> (\<forall>x \<in> set xs. x \<le> m)"
proof (induction xs arbitrary: m)
  case Nil
  then show ?case by simp
next
  case (Cons x xs)
  show ?case
  proof (cases "list_max xs")
    case None
    then show ?thesis by auto
  next
    case (Some y)
    then have y: "y \<in> set xs" "\<forall>z \<in> set xs. z \<le> y" using Cons by auto
    show ?thesis using Some y by (auto simp: max_def intro: order.trans antisym)
  qed
qed

lemma list_min_Some_iff: "list_min xs = Some m \<longleftrightarrow> m \<in> set xs \<and> (\<forall>x \<in> set xs. m \<le> x)"
proof (induction xs arbitrary: m)
  case Nil
  then show ?case by simp
next
  case (Cons x xs)
  show ?case
  proof (cases "list_min xs")
    case None
    then show ?thesis by auto
  next
    case (Some y)
    then have y: "y \<in> set xs" "\<forall>z \<in> set xs. y \<le> z" using Cons by auto
    show ?thesis using Some y by (auto simp: min_def intro: order.trans antisym)
  qed
qed

section \<open>Streams of rows and tokens\<close>

text \<open>The rows between the tokens.\<close>

fun between_tokens :: "'a option list \<Rightarrow> 'a option list list" where
  "between_tokens [] = [[]]"
| "between_tokens (None # xs) = [] # between_tokens xs"
| "between_tokens (Some x # xs) = (case between_tokens xs of [] \<Rightarrow> [[Some x]] | p # ps \<Rightarrow> (Some x # p) # ps)"

lemma pieces_not_Nil [simp]: "between_tokens xs \<noteq> []"
  by (induction xs rule: between_tokens.induct) (auto split: list.split)

lemma pieces_plain: "None \<notin> set xs \<Longrightarrow> between_tokens xs = [xs]"
proof (induction xs)
  case (Cons x xs)
  then show ?case by (cases x) auto
qed simp

lemma pieces_break: "None \<notin> set xs \<Longrightarrow> between_tokens (xs @ None # ys) = xs # between_tokens ys"
proof (induction xs)
  case (Cons x xs)
  then show ?case by (cases x) auto
qed simp

lemma pieces_plain_append:
  "None \<notin> set p \<Longrightarrow> between_tokens (p @ xs) = (p @ hd (between_tokens xs)) # tl (between_tokens xs)"
proof (induction p)
  case Nil
  then show ?case by (cases "between_tokens xs") simp_all
next
  case (Cons a p)
  then show ?case by (cases a) auto
qed

end
