(* ===== verification/Pipe_Layout.thy ===== *)
theory Pipe_Layout
  imports Prelude "HOL-Library.Word"
begin

unbundle bit_operations_syntax

text \<open>
  \<open>src/src/joule/models/pipes/pipe.py\<close>, the parts every pipe shares: the data type a layout string
  stands for (\<open>compute_dtype\<close>), the interval token (a row of zeros that marks a break in the data),
  the search for it in a block of bytes, and the checks a block of data passes before it is
  written.  A row of a structured array is the list of its bytes: eight for the timestamp, then the
  elements.  What numpy decides (which type names exist, how values are cast to bytes) is a
  parameter.
\<close>

type_synonym byte = "8 word"
type_synonym row = "byte list"

section \<open>Layouts\<close>

datatype kind = KInt | KUint | KFloat

record dtype =
  elem_kind :: kind
  elem_size :: nat
  elem_count :: nat

definition itemsize :: "dtype \<Rightarrow> nat" where
  "itemsize d = 8 + elem_size d * elem_count d"

text \<open>
  \<open>compute_dtype\<close>.  The parameter \<open>np_dtype\<close> is numpy's constructor for the structured type:
  it gets the kind and the size in the name of the element type and the number of elements.  An
  \<open>IndexError\<close> or \<open>ValueError\<close> becomes a \<open>ValueError\<close>; everything else numpy raises is passed on.
\<close>

definition layout_kind :: "string \<Rightarrow> (kind \<times> string) option" where
  "layout_kind ltype =
     (if starts_with ''int'' ltype then Some (KInt, drop 3 ltype)
      else if starts_with ''uint'' ltype then Some (KUint, drop 4 ltype)
      else if starts_with ''float'' ltype then Some (KFloat, drop 5 ltype)
      else None)"

definition compute_dtype :: "(kind \<Rightarrow> int \<Rightarrow> int \<Rightarrow> dtype res) \<Rightarrow> string \<Rightarrow> dtype res" where
  "compute_dtype np_dtype layout =
     (let parts = py_split (CHR ''_'') layout;
          attempt =
            bindE (py_get parts 0) (\<lambda>ltype.
            bindE (py_get parts 1) (\<lambda>cnt.
            case py_int cnt of None \<Rightarrow> Inl PyValueError
            | Some lcount \<Rightarrow>
              (case layout_kind ltype of None \<Rightarrow> Inl PyValueError
               | Some (k, bits) \<Rightarrow>
                  (case py_int bits of None \<Rightarrow> Inl PyValueError
                   | Some b \<Rightarrow> np_dtype k (b div 8) lcount))))
      in case attempt of
           Inl e \<Rightarrow> if e = PyIndexError \<or> e = PyValueError then Inl PyValueError else Inl e
         | Inr d \<Rightarrow> Inr d)"

text \<open>The documented behaviour of numpy for the element types the streams of the program use.\<close>

definition np_supports :: "(kind \<Rightarrow> int \<Rightarrow> int \<Rightarrow> dtype res) \<Rightarrow> bool" where
  "np_supports np \<longleftrightarrow>
     (\<forall>k s n. (k, s) \<in> {(KInt, 2), (KInt, 4), (KInt, 8), (KFloat, 4), (KFloat, 8)} \<and> 0 \<le> n \<longrightarrow>
        np k s n = Inr \<lparr>elem_kind = k, elem_size = nat s, elem_count = nat n\<rparr>)"

fun np_known :: "kind \<Rightarrow> int \<Rightarrow> bool" where
  "np_known KInt s = (s \<in> {1, 2, 4, 8})"
| "np_known KUint s = (s \<in> {1, 2, 4, 8})"
| "np_known KFloat s = (s \<in> {2, 4, 8})"

definition np_example :: "kind \<Rightarrow> int \<Rightarrow> int \<Rightarrow> dtype res" where
  "np_example k s n =
     (if \<not> np_known k s then Inl PyTypeError
      else if n < 0 then Inl PyValueError
      else Inr \<lparr>elem_kind = k, elem_size = nat s, elem_count = nat n\<rparr>)"

lemma np_example_supports: "np_supports np_example"
  by (auto simp: np_supports_def np_example_def)

lemma compute_dtype_no_index_error: "compute_dtype np layout \<noteq> Inl PyIndexError"
  by (auto simp: compute_dtype_def Let_def split: sum.splits)

lemma compute_dtype_parts:
  assumes "py_split (CHR ''_'') layout = [ltype, cnt]" "py_int cnt = Some n"
    "layout_kind ltype = Some (k, bits)" "py_int bits = Some b"
    "np k (b div 8) n = Inr d"
  shows "compute_dtype np layout = Inr d"
  using assms by (simp add: compute_dtype_def py_get_def Let_def)

section \<open>The interval token\<close>

definition zero_row :: "dtype \<Rightarrow> row" where
  "zero_row d = replicate (itemsize d) 0"

definition interval_token :: "(kind \<Rightarrow> int \<Rightarrow> int \<Rightarrow> dtype res) \<Rightarrow> string \<Rightarrow> row res" where
  "interval_token np layout =
     bindE (py_get (py_split (CHR ''_'') layout) 1) (\<lambda>cnt.
     case py_int cnt of None \<Rightarrow> Inl PyValueError
     | Some nelem \<Rightarrow>
       bindE (compute_dtype np layout) (\<lambda>d.
       if nelem < 0 then Inl PyValueError else Inr (zero_row d)))"

text \<open>\<open>np.frombuffer\<close>: the bytes cut into rows; the length must be a multiple of the row size.\<close>

function chunks :: "nat \<Rightarrow> 'a list \<Rightarrow> 'a list list" where
  "chunks n bs = (if n = 0 \<or> length bs < n then [] else take n bs # chunks n (drop n bs))"
  by pat_completeness auto
termination
  by (relation "measure (\<lambda>(n, bs). length bs)") auto

declare chunks.simps [simp del]

definition np_frombuffer :: "nat \<Rightarrow> byte list \<Rightarrow> row list res" where
  "np_frombuffer n raw = (if n = 0 \<or> length raw mod n \<noteq> 0 then Inl PyValueError else Inr (chunks n raw))"

text \<open>
  \<open>np.array_equal(row, token)\<close> compares numerically: the timestamp and every element equal zero.
  An integer is zero when all its bytes are; a float also when only its sign bit is set.
\<close>

definition elem_is_zero :: "kind \<Rightarrow> byte list \<Rightarrow> bool" where
  "elem_is_zero k bs =
     (case k of
        KFloat \<Rightarrow> list_all (\<lambda>b. b = 0) (butlast bs) \<and> (bs = [] \<or> last bs AND 0x7F = 0)
      | _ \<Rightarrow> list_all (\<lambda>b. b = 0) bs)"

definition row_equals_token :: "dtype \<Rightarrow> row \<Rightarrow> bool" where
  "row_equals_token d r =
     (list_all (\<lambda>b. b = 0) (take 8 r)
      \<and> list_all (elem_is_zero (elem_kind d)) (chunks (elem_size d) (drop 8 r)))"

fun first_token :: "dtype \<Rightarrow> nat \<Rightarrow> row list \<Rightarrow> nat option" where
  "first_token d i [] = None"
| "first_token d i (r # rs) = (if row_equals_token d r then Some i else first_token d (Suc i) rs)"

definition find_interval_token :: "dtype \<Rightarrow> byte list \<Rightarrow> (nat \<times> nat) option res" where
  "find_interval_token d raw =
     (let token_bytes = zero_row d
      in if \<not> occurs_in token_bytes raw then Inr None
         else bindE (np_frombuffer (itemsize d) raw) (\<lambda>data.
           case first_token d 0 data of
             Some i \<Rightarrow> Inr (Some (i * length token_bytes, (i + 1) * length token_bytes))
           | None \<Rightarrow> Inr None))"

lemma itemsize_pos [simp]: "0 < itemsize d" "itemsize d \<noteq> 0"
  by (simp_all add: itemsize_def)

lemma length_zero_row [simp]: "length (zero_row d) = itemsize d"
  by (simp add: zero_row_def)

lemma chunks_short: "length bs < n \<Longrightarrow> chunks n bs = []"
  by (subst chunks.simps) simp

lemma chunks_Nil [simp]: "chunks n [] = []"
  by (subst chunks.simps) auto

lemma chunks_append: "0 < n \<Longrightarrow> length r = n \<Longrightarrow> chunks n (r @ bs) = r # chunks n bs"
  by (simp add: chunks.simps [of n "r @ bs"])

lemma chunks_concat:
  "0 < n \<Longrightarrow> list_all (\<lambda>r. length r = n) rs \<Longrightarrow> chunks n (concat rs @ bs) = rs @ chunks n bs"
  by (induction rs) (auto simp: chunks_append)

lemma concat_length: "list_all (\<lambda>r. length r = n) rs \<Longrightarrow> length (concat rs) = length rs * n"
  by (induction rs) auto

lemma chunks_split:
  assumes "0 < n"
  shows "list_all (\<lambda>r. length r = n) (chunks n bs) \<and>
    (\<exists>rest. bs = concat (chunks n bs) @ rest \<and> length rest = length bs mod n)"
proof (induction n bs rule: chunks.induct)
  case (1 n bs)
  show ?case
  proof (cases "n = 0 \<or> length bs < n")
    case True
    then show ?thesis by (auto simp: chunks.simps [of n bs])
  next
    case False
    then obtain rest where rest: "list_all (\<lambda>r. length r = n) (chunks n (drop n bs))"
      "drop n bs = concat (chunks n (drop n bs)) @ rest" "length rest = length (drop n bs) mod n"
      using 1 by blast
    have "length bs mod n = length (drop n bs) mod n"
      using False by (simp add: le_mod_geq)
    moreover have "bs = take n bs @ concat (chunks n (drop n bs)) @ rest"
      using rest(2) by (metis append_take_drop_id)
    moreover have "concat (chunks n bs) @ rest = take n bs @ concat (chunks n (drop n bs)) @ rest"
      using False by (simp add: chunks.simps [of n bs])
    ultimately have "bs = concat (chunks n bs) @ rest \<and> length rest = length bs mod n"
      using rest(3) by simp
    then show ?thesis using False rest(1) by (auto simp: chunks.simps [of n bs])
  qed
qed

lemma chunks_append_mult:
  assumes "0 < n" "length as mod n = 0"
  shows "chunks n (as @ bs) = chunks n as @ chunks n bs"
proof -
  obtain rest where r: "list_all (\<lambda>r. length r = n) (chunks n as)"
    "as = concat (chunks n as) @ rest" "length rest = length as mod n"
    using chunks_split [OF assms(1), of as] by blast
  then have "as = concat (chunks n as)" using assms(2) by simp
  then show ?thesis using chunks_concat [OF assms(1) r(1), of bs] by simp
qed

lemma length_chunks: "0 < n \<Longrightarrow> length (chunks n bs) = length bs div n"
proof (induction n bs rule: chunks.induct)
  case (1 n bs)
  then show ?case
    by (cases "length bs < n") (auto simp: chunks.simps [of n bs] le_div_geq not_less)
qed

text \<open>Rows that are numerically zero are zero byte for byte, except for negative float zeros.\<close>

definition clean_row :: "dtype \<Rightarrow> row \<Rightarrow> bool" where
  "clean_row d r = (length r = itemsize d \<and> (row_equals_token d r \<longrightarrow> r = zero_row d))"

lemma list_all_take: "list_all P xs \<Longrightarrow> list_all P (take n xs)"
  by (auto simp: list_all_iff dest: in_set_takeD)

lemma list_all_drop: "list_all P xs \<Longrightarrow> list_all P (drop n xs)"
  by (auto simp: list_all_iff dest: in_set_dropD)

lemma chunks_all: "0 < n \<Longrightarrow> list_all P bs \<Longrightarrow> list_all (list_all P) (chunks n bs)"
proof (induction n bs rule: chunks.induct)
  case (1 n bs)
  then show ?case
    by (auto simp: chunks.simps [of n bs] list_all_take list_all_drop)
qed

lemma elem_zero_bytes: "list_all (\<lambda>b. b = 0) bs \<Longrightarrow> elem_is_zero k bs"
proof (cases "bs = []")
  case True
  then show ?thesis by (cases k) (simp_all add: elem_is_zero_def)
next
  case False
  assume a: "list_all (\<lambda>b. b = 0) bs"
  then have "last bs = 0" using False by (simp add: list_all_iff)
  then show ?thesis using a
    by (cases k) (auto simp: elem_is_zero_def list_all_iff dest: in_set_butlastD)
qed

lemma zero_row_token: "row_equals_token d (zero_row d)"
proof (cases "elem_size d = 0")
  case True
  then show ?thesis
    by (simp add: row_equals_token_def zero_row_def itemsize_def chunks.simps [of 0] list_all_iff)
next
  case False
  have "list_all (list_all (\<lambda>b. b = 0)) (chunks (elem_size d) (drop 8 (zero_row d)))"
    using False by (intro chunks_all) (auto simp: zero_row_def list_all_iff)
  then show ?thesis
    by (auto simp: row_equals_token_def zero_row_def list_all_iff elem_zero_bytes)
qed

lemma clean_token_iff: "clean_row d r \<Longrightarrow> row_equals_token d r \<longleftrightarrow> r = zero_row d"
  using zero_row_token by (auto simp: clean_row_def)

lemma first_token_None: "first_token d i rs = None \<longleftrightarrow> (\<forall>r \<in> set rs. \<not> row_equals_token d r)"
  by (induction rs arbitrary: i) auto

lemma first_token_Some:
  "first_token d i rs = Some k \<Longrightarrow>
     \<exists>as b cs. rs = as @ b # cs \<and> row_equals_token d b \<and> (\<forall>r \<in> set as. \<not> row_equals_token d r)
       \<and> k = i + length as"
proof (induction rs arbitrary: i)
  case Nil
  then show ?case by simp
next
  case (Cons r rs)
  show ?case
  proof (cases "row_equals_token d r")
    case True
    then have "r # rs = [] @ r # rs \<and> row_equals_token d r \<and> k = i + length ([] :: row list)"
      using Cons.prems by simp
    then show ?thesis by (metis empty_iff list.set(1))
  next
    case False
    then obtain as b cs where "rs = as @ b # cs" "row_equals_token d b"
      "\<forall>r \<in> set as. \<not> row_equals_token d r" "k = Suc i + length as"
      using Cons.IH [of "Suc i"] Cons.prems by auto
    then show ?thesis using False by (intro exI [of _ "r # as"]) auto
  qed
qed

text \<open>On whole rows the search finds exactly the first token.\<close>

lemma find_token_rows:
  assumes "list_all (clean_row d) rs"
  shows "find_interval_token d (concat rs) =
    Inr (if zero_row d \<in> set rs
         then (let i = length (takeWhile (\<lambda>r. r \<noteq> zero_row d) rs)
               in Some (i * itemsize d, (i + 1) * itemsize d)) else None)"
proof -
  have len: "list_all (\<lambda>r. length r = itemsize d) rs"
    using assms by (auto simp: clean_row_def list_all_iff)
  have chk: "np_frombuffer (itemsize d) (concat rs) = Inr rs"
    using chunks_concat [OF _ len, of "[]"] concat_length [OF len] by (simp add: np_frombuffer_def)
  show ?thesis
  proof (cases "zero_row d \<in> set rs")
    case True
    then obtain as cs where as: "rs = as @ zero_row d # cs" "zero_row d \<notin> set as"
      by (meson split_list_first)
    have occ: "occurs_in (zero_row d) (concat rs)"
      unfolding occurs_in_iff as by (intro exI [of _ "concat as"] exI [of _ "concat cs"]) simp
    have tw: "takeWhile (\<lambda>r. r \<noteq> zero_row d) rs = as"
    proof -
      have "\<And>x. x \<in> set as \<Longrightarrow> x \<noteq> zero_row d" using as(2) by blast
      then have "takeWhile (\<lambda>r. r \<noteq> zero_row d) (as @ zero_row d # cs)
          = as @ takeWhile (\<lambda>r. r \<noteq> zero_row d) (zero_row d # cs)"
        by (rule takeWhile_append2)
      then show ?thesis by (simp add: as(1))
    qed
    have cl: "list_all (clean_row d) as" using assms as by simp
    have "first_token d 0 (as @ zero_row d # cs) = Some (length as)"
    proof -
      have "first_token d i (as @ zero_row d # cs) = Some (i + length as)" for i
        using as(2) cl
        by (induction as arbitrary: i) (auto simp: zero_row_token clean_token_iff)
      then show ?thesis by simp
    qed
    then have ft: "first_token d 0 rs = Some (length as)" by (simp add: as(1))
    show ?thesis
      by (simp add: find_interval_token_def Let_def occ chk ft True tw)
  next
    case False
    have "first_token d 0 rs = None"
      using False assms by (auto simp: first_token_None list_all_iff clean_token_iff)
    then show ?thesis using False chk by (simp add: find_interval_token_def Let_def)
  qed
qed

section \<open>Arrays\<close>

text \<open>
  \<open>buffer[i:i+len(data)] = data\<close>: the slice ends with the array, and numpy refuses rows that do not
  fit it, except that a single row is broadcast to a slice of any length, also of length zero.
\<close>

definition slice_assign :: "'a list \<Rightarrow> nat \<Rightarrow> 'a list \<Rightarrow> 'a list res" where
  "slice_assign buf i data =
     (if data = [] then Inr buf
      else if i + length data \<le> length buf then Inr (take i buf @ data @ drop (i + length data) buf)
      else if length data = 1 then Inr buf
      else Inl PyValueError)"

lemma slice_assign_fits:
  "i + length data \<le> length buf \<Longrightarrow>
     slice_assign buf i data = Inr (take i buf @ data @ drop (i + length data) buf)"
  by (simp add: slice_assign_def)

section \<open>Data handed to a pipe\<close>

text \<open>
  What \<open>write\<close> may be given: not a numpy array, a structured one-dimensional array of rows, another
  one-dimensional array, a matrix with its number of columns, or an array of more dimensions with
  the lengths of its first two.
\<close>

datatype 'v pydata =
    NotArray
  | Structured dtype "row list"
  | Plain1D nat
  | Matrix nat "'v list list"
  | HigherDim nat nat

definition validate_data :: "'v pydata \<Rightarrow> bool res" where
  "validate_data data =
     (case data of
        NotArray \<Rightarrow> Inl (PipeError ''invalid data type must be a structured array or 2D matrix'')
      | Structured _ rs \<Rightarrow> Inr (rs \<noteq> [])
      | Plain1D n \<Rightarrow>
          if n = 0 then Inr False
          else Inl (PipeError ''invalid data type must be a structured array or 2D matrix'')
      | Matrix ncols rs \<Rightarrow> Inr (rs \<noteq> [] \<and> ncols \<noteq> 0)
      | HigherDim n m \<Rightarrow> Inr (n \<noteq> 0 \<and> m \<noteq> 0))"

text \<open>
  \<open>_apply_dtype\<close>.  A matrix is assigned column 0 to the timestamps and the others to the elements;
  numpy accepts the assignment when the number of the other columns is the number of elements, or
  is one (then it is broadcast to every element), and raises \<open>ValueError\<close> otherwise.  \<open>cast\<close> is
  numpy's conversion of one matrix row (timestamp, elements) to the bytes of a structured row.
\<close>

definition apply_dtype :: "(dtype \<Rightarrow> 'v \<Rightarrow> 'v list \<Rightarrow> row) \<Rightarrow> dtype \<Rightarrow> 'v pydata \<Rightarrow> row list res" where
  "apply_dtype cast d data =
     (case data of
        Structured d' rs \<Rightarrow>
          if d' \<noteq> d then Inl (PipeError ''wrong dtype for 1D (structured) array[%s] != req type [%s]'')
          else Inr rs
      | Plain1D n \<Rightarrow> Inl (PipeError ''wrong dtype for 1D (structured) array[%s] != req type [%s]'')
      | Matrix ncols rs \<Rightarrow>
          if ncols = 0 then Inl (PipeError ''wrong number of fields for this data type'')
          else if ncols - 1 = elem_count d then Inr (map (\<lambda>r. cast d (hd r) (tl r)) rs)
          else if ncols - 1 = 1
            then Inr (map (\<lambda>r. cast d (hd r) (replicate (elem_count d) (r ! 1))) rs)
          else Inl (PipeError ''wrong number of fields for this data type'')
      | HigherDim _ _ \<Rightarrow> Inl (PipeError ''wrong number of dimensions in array'')
      | NotArray \<Rightarrow> Inl PyAttributeError)"

definition wf_data :: "'v pydata \<Rightarrow> bool" where
  "wf_data data =
     (case data of
        Matrix ncols rs \<Rightarrow> list_all (\<lambda>r. length r = ncols) rs
      | Structured d rs \<Rightarrow> list_all (\<lambda>r. length r = itemsize d) rs
      | _ \<Rightarrow> True)"

lemma apply_dtype_rows:
  assumes "apply_dtype cast d data = Inr rs" "wf_data data"
    and "\<And>t es. length es = elem_count d \<Longrightarrow> length (cast d t es) = itemsize d"
  shows "list_all (\<lambda>r. length r = itemsize d) rs"
  using assms
  by (auto simp: apply_dtype_def wf_data_def list_all_iff split: pydata.splits if_splits)

text \<open>Sample values for concrete instances.\<close>

definition demo_dtype :: dtype where
  "demo_dtype = \<lparr>elem_kind = KFloat, elem_size = 8, elem_count = 1\<rparr>"

definition demo_row :: "byte \<Rightarrow> row" where
  "demo_row b = replicate 16 b"

section \<open>Properties\<close>

text \<open>
  \<open>find_interval_token\<close> is exact on whole rows: it reports the first row that is the token, with the
  positions of its first byte and of the byte after it, and nothing when no row is the token; a run of
  zero bytes that is not aligned to a row is never taken for a token.
\<close>

lemma find_interval_token_exact:
  assumes "list_all (clean_row d) rs"
  shows "find_interval_token d (concat rs) =
    Inr (if zero_row d \<in> set rs
         then (let i = length (takeWhile (\<lambda>r. r \<noteq> zero_row d) rs)
               in Some (i * itemsize d, (i + 1) * itemsize d)) else None)"
  using assms by (rule find_token_rows)

lemma find_interval_token_exact_witness:
  "find_interval_token demo_dtype (concat [demo_row 1, demo_row 0]) =
    Inr (if zero_row demo_dtype \<in> set [demo_row 1, demo_row 0]
         then (let i = length (takeWhile (\<lambda>r. r \<noteq> zero_row demo_dtype) [demo_row 1, demo_row 0])
               in Some (i * itemsize demo_dtype, (i + 1) * itemsize demo_dtype)) else None)"
proof (rule find_interval_token_exact)
  show "list_all (clean_row demo_dtype) [demo_row 1, demo_row 0]" by code_simp
qed

text \<open>
  A matrix with a single data column is accepted for a stream of any width: numpy copies the
  value into every element, so the wrong number of fields is not reported.
\<close>

lemma apply_dtype_broadcasts:
  "apply_dtype cast d (Matrix 2 [[t, v]]) = Inr [cast d t (replicate (elem_count d) v)]"
  by (cases "elem_count d = 1") (simp_all add: apply_dtype_def)

end
