(* ===== verification/Input_Pipe.thy ===== *)
theory Input_Pipe
  imports Pipe_Layout
begin

text \<open>
  \<open>src/src/joule/models/pipes/input_pipe.py\<close>: the reading end of a byte stream.  \<open>read\<close> waits for at
  least one row, glues the bytes left over from earlier reads to the new ones, stops at the first
  interval token and appends the rows to a buffer from which \<open>consume\<close> removes them.

  The stream reader of asyncio is a script: the list of the pieces of data as they arrive, where
  \<open>None\<close> is a half second without data (the time limit of \<open>wait_for\<close>) and the end of the list is the
  end of the stream.  \<open>reader.read n\<close> returns at most \<open>n\<close> of the bytes that have arrived; with a
  negative \<open>n\<close> it collects everything up to the end of the stream, and the time limit discards what
  it has collected.
\<close>

type_synonym reader = "byte list option list"

fun rd_until_eof :: "reader \<Rightarrow> byte list \<Rightarrow> byte list \<times> reader" where
  "rd_until_eof [] acc = (acc, [])"
| "rd_until_eof (None # cs) acc = ([], cs)"
| "rd_until_eof (Some c # cs) acc = rd_until_eof cs (acc @ c)"

fun rd_read :: "int \<Rightarrow> reader \<Rightarrow> byte list \<times> reader" where
  "rd_read n [] = ([], [])"
| "rd_read n (None # cs) = (if n = 0 then ([], None # cs) else ([], cs))"
| "rd_read n (Some c # cs) =
     (if n < 0 then rd_until_eof (Some c # cs) []
      else if length c \<le> nat n then (c, cs)
      else (take (nat n) c, Some (drop (nat n) c) # cs))"

definition at_eof :: "reader \<Rightarrow> bool" where
  "at_eof rd = (rd = [])"

definition rd_bytes :: "reader \<Rightarrow> byte list" where
  "rd_bytes rd = concat (map (\<lambda>c. case c of None \<Rightarrow> [] | Some bs \<Rightarrow> bs) rd)"

definition rd_size :: "reader \<Rightarrow> nat" where
  "rd_size rd = length rd + length (rd_bytes rd)"

record input_pipe =
  ip_dtype :: dtype
  ip_buffer_size :: nat
  ip_reader :: "reader option"
  ip_factory :: reader
  ip_reader_close :: bool
  ip_reader_closes :: nat
  ip_closed :: bool
  ip_byte_buffer :: "byte list"
  ip_unprocessed :: "byte list"
  ip_interval_break :: bool
  ip_reread :: bool
  ip_last_read :: bool
  ip_buffer :: "row list"
  last_index :: nat
  ip_close_cb :: bool
  ip_cb_runs :: nat

abbreviation rowbytes :: "input_pipe \<Rightarrow> nat" where
  "rowbytes p \<equiv> itemsize (ip_dtype p)"

text \<open>The valid part of the buffer, \<open>buffer[:last_index]\<close>.\<close>

abbreviation buffered :: "input_pipe \<Rightarrow> row list" where
  "buffered p \<equiv> take (last_index p) (ip_buffer p)"

text \<open>The constructor; \<open>rd\<close> is the reader it is given, \<open>fac\<close> what its factory would open.\<close>

definition input_pipe_init :: "dtype \<Rightarrow> nat \<Rightarrow> reader option \<Rightarrow> reader \<Rightarrow> bool \<Rightarrow> input_pipe" where
  "input_pipe_init d bsize rd fac cb =
     \<lparr>ip_dtype = d, ip_buffer_size = bsize, ip_reader = rd, ip_factory = fac, ip_reader_close = False,
      ip_reader_closes = 0, ip_closed = False, ip_byte_buffer = [], ip_unprocessed = [], ip_interval_break = False,
      ip_reread = False, ip_last_read = False,
      ip_buffer = replicate (2 * bsize) (zero_row d), last_index = 0, ip_close_cb = cb, ip_cb_runs = 0\<rparr>"

section \<open>Reading\<close>

definition max_rows :: "input_pipe \<Rightarrow> int" where
  "max_rows p = int (ip_buffer_size p) - int (last_index p + length (ip_unprocessed p) mod rowbytes p)"

text \<open>
  The loop that collects at least one row.  The result is \<open>None\<close> for the exception \<open>EmptyPipeError\<close>,
  otherwise the bytes and whether \<open>_last_read\<close> was set, always with what is left of the reader.
\<close>

lemma rd_until_eof_size: "rd_size (snd (rd_until_eof rd acc)) \<le> rd_size rd"
  by (induction rd acc rule: rd_until_eof.induct) (auto simp: rd_size_def rd_bytes_def)

lemma rd_read_size: "n \<noteq> 0 \<Longrightarrow> rd \<noteq> [] \<Longrightarrow> rd_size (snd (rd_read n rd)) < rd_size rd"
proof (induction n rd rule: rd_read.induct)
  case (3 n c cs)
  show ?case
  proof (cases "n < 0")
    case True
    have "rd_size (snd (rd_until_eof cs c)) \<le> rd_size cs" by (rule rd_until_eof_size)
    then show ?thesis using True by (auto simp: rd_size_def rd_bytes_def)
  next
    case False
    then show ?thesis using 3 by (auto simp: rd_size_def rd_bytes_def)
  qed
qed (auto simp: rd_size_def rd_bytes_def)

function read_loop :: "nat \<Rightarrow> int \<Rightarrow> bool \<Rightarrow> bool \<Rightarrow> byte list \<Rightarrow> reader
    \<Rightarrow> (byte list \<times> bool) option \<times> reader" where
  "read_loop rb mx unproc_empty no_rows raw rd =
     (if mx = 0 then (Some (raw, False), rd)
      else if at_eof rd then
        (if unproc_empty \<and> no_rows then (None, rd) else (Some (raw, unproc_empty), rd))
      else
        (let (new_data, rd') = rd_read (mx * int rb) rd; raw' = raw @ new_data
         in if rb = 0 \<or> rb \<le> length raw' then (Some (raw', False), rd')
            else read_loop rb mx unproc_empty no_rows raw' rd'))"
  by pat_completeness auto
termination
proof (relation "measure (\<lambda>(rb, mx, u, n, raw, rd). rd_size rd)", goal_cases)
  case 1
  then show ?case by simp
next
  case (2 rb mx u n raw rd x new_data rd' raw')
  then have "mx * int rb \<noteq> 0" "rd \<noteq> []" by (auto simp: at_eof_def)
  moreover have "rd' = snd (rd_read (mx * int rb) rd)" using 2 by (metis snd_conv)
  ultimately have "rd_size rd' < rd_size rd" by (simp add: rd_read_size)
  then show ?case by simp
qed

declare read_loop.simps [simp del]

text \<open>What the bytes and the two byte buffers become: \<open>(np_buffer, byte_buffer, unprocessed)\<close>.\<close>

definition split_bytes :: "nat \<Rightarrow> int \<Rightarrow> byte list \<Rightarrow> byte list \<Rightarrow> byte list
    \<Rightarrow> byte list \<times> byte list \<times> byte list" where
  "split_bytes rb mx byte_buffer unproc raw =
     (let extra_bytes = (length raw + length byte_buffer) mod rb;
          (np_buffer, byte_buffer') =
            (if 0 < extra_bytes
             then (byte_buffer @ slice_to (- int extra_bytes) raw, slice_from (- int extra_bytes) raw)
             else if byte_buffer \<noteq> [] then (byte_buffer @ raw, [])
             else (raw, []))
      in if unproc \<noteq> [] then
           (let u = unproc @ np_buffer; max_bytes = mx * int rb
            in if int (length u) \<le> max_bytes then (u, byte_buffer', [])
               else (slice_to max_bytes u, byte_buffer', slice_from max_bytes u))
         else (np_buffer, byte_buffer', unproc))"

text \<open>From \<open>find_interval_token\<close> to the end of \<open>read\<close>.\<close>

definition read_finish :: "input_pipe \<Rightarrow> byte list \<Rightarrow> row list res \<times> input_pipe" where
  "read_finish p np_buffer0 =
     (let p = p\<lparr>ip_interval_break := False\<rparr>
      in case find_interval_token (ip_dtype p) np_buffer0 of
           Inl e \<Rightarrow> (Inl e, p)
         | Inr loc \<Rightarrow>
             (let (np_buffer, p) =
                (case loc of
                   None \<Rightarrow> (np_buffer0, p)
                 | Some (a, b) \<Rightarrow>
                     (take a np_buffer0,
                      p\<lparr>ip_unprocessed := drop b np_buffer0 @ ip_unprocessed p, ip_interval_break := True\<rparr>))
              in case np_frombuffer (rowbytes p) np_buffer of
                   Inl e \<Rightarrow> (Inl e, p)
                 | Inr data \<Rightarrow>
                     (case slice_assign (ip_buffer p) (last_index p) data of
                        Inl e \<Rightarrow> (Inl e, p)
                      | Inr buf \<Rightarrow>
                          (let p = p\<lparr>ip_buffer := buf, last_index := last_index p + length data\<rparr>
                           in (Inr (buffered p), p)))))"

definition ip_read :: "input_pipe \<Rightarrow> row list res \<times> input_pipe" where
  "ip_read p =
     (if ip_reread p then (Inr (buffered p), p\<lparr>ip_reread := False\<rparr>)
      else
        (let p = (if ip_reader p = None
                  then p\<lparr>ip_reader := Some (ip_factory p), ip_reader_close := True\<rparr> else p)
         in if ip_closed p
            then (Inl (PipeError ''Cannot read from a closed pipe''),
                  if ip_reader_close p then p\<lparr>ip_reader_closes := Suc (ip_reader_closes p)\<rparr> else p)
            else if max_rows p = 0 then (Inr (buffered p), p)
            else
              (case read_loop (rowbytes p) (max_rows p) (ip_unprocessed p = []) (last_index p = 0) []
                      (case ip_reader p of Some rd \<Rightarrow> rd | None \<Rightarrow> []) of
                 (None, rd) \<Rightarrow> (Inl EmptyPipeError, p\<lparr>ip_reader := Some rd\<rparr>)
               | (Some (raw, lastr), rd) \<Rightarrow>
                   (let (np_buffer, bb, un) =
                          split_bytes (rowbytes p) (max_rows p) (ip_byte_buffer p) (ip_unprocessed p) raw
                    in read_finish
                         (p\<lparr>ip_reader := Some rd, ip_last_read := (ip_last_read p \<or> lastr),
                            ip_byte_buffer := bb, ip_unprocessed := un\<rparr>) np_buffer))))"

section \<open>The other operations\<close>

definition ip_consume :: "input_pipe \<Rightarrow> int \<Rightarrow> unit res \<times> input_pipe" where
  "ip_consume p num_rows =
     (if num_rows = 0 then (Inr (), p)
      else if num_rows < 0 then (Inl (PipeError ''consume called with negative offset: %d''), p)
      else if int (last_index p) < num_rows
        then (Inl (PipeError ''cannot consume %d rows: only %d available''), p)
      else (Inr (), p\<lparr>ip_buffer := rotate (nat num_rows) (ip_buffer p),
                      last_index := last_index p - nat num_rows\<rparr>))"

definition ip_consume_all :: "input_pipe \<Rightarrow> unit res \<times> input_pipe" where
  "ip_consume_all p = ip_consume p (int (last_index p))"

definition ip_reread_last :: "input_pipe \<Rightarrow> input_pipe" where
  "ip_reread_last p = p\<lparr>ip_reread := True\<rparr>"

definition ip_end_of_interval :: "input_pipe \<Rightarrow> bool" where
  "ip_end_of_interval p = ip_interval_break p"

text \<open>\<open>is_empty\<close> of the base class: it reads ahead and has the next read return the same rows.\<close>

definition ip_is_empty :: "input_pipe \<Rightarrow> bool res \<times> input_pipe" where
  "ip_is_empty p =
     (if ip_reread p then (Inr False, p)
      else (case ip_read p of
              (Inl e, p') \<Rightarrow> (if e = EmptyPipeError then Inr True else Inl e, p')
            | (Inr data, p') \<Rightarrow> (Inr False, ip_reread_last p')))"

definition ip_close :: "input_pipe \<Rightarrow> input_pipe" where
  "ip_close p =
     (let p = (if ip_reader_close p
               then p\<lparr>ip_reader_close := False, ip_reader_closes := Suc (ip_reader_closes p)\<rparr> else p)
      in if ip_closed p then p
         else (let p = p\<lparr>ip_closed := True\<rparr>
               in if ip_close_cb p then p\<lparr>ip_cb_runs := Suc (ip_cb_runs p), ip_close_cb := False\<rparr> else p))"

section \<open>Nothing is lost or reordered\<close>

lemma rd_bytes_simps [simp]:
  "rd_bytes [] = []" "rd_bytes (None # cs) = rd_bytes cs" "rd_bytes (Some c # cs) = c @ rd_bytes cs"
  by (simp_all add: rd_bytes_def)

lemma rd_read_bytes:
  "0 < n \<Longrightarrow> rd_read n rd = (c, rd') \<Longrightarrow> rd_bytes rd = c @ rd_bytes rd' \<and> int (length c) \<le> n"
  by (cases "(n, rd)" rule: rd_read.cases) (auto split: if_splits)

lemma read_loop_spec:
  assumes "0 < mx" "0 < rb" "length raw < rb"
  shows "case read_loop rb mx u n raw rd of
           (Some (raw', l), rd') \<Rightarrow>
             raw @ rd_bytes rd = raw' @ rd_bytes rd' \<and> (rb \<le> length raw' \<or> rd' = [] \<and> \<not> (u \<and> n))
             \<and> int (length raw') < (mx + 1) * int rb
         | (None, rd') \<Rightarrow> u \<and> n \<and> rd' = [] \<and> length (raw @ rd_bytes rd) < rb"
  using assms
proof (induction rb mx u n raw rd rule: read_loop.induct)
  case (1 rb mx u n raw rd)
  have "1 * int rb \<le> (mx + 1) * int rb" using 1 by (intro mult_right_mono) auto
  then have ge: "int (length raw) < (mx + 1) * int rb" using 1 by linarith
  show ?case
  proof (cases "rd = []")
    case True
    have "read_loop rb mx u n raw rd = (if u \<and> n then (None, rd) else (Some (raw, u), rd))"
      using 1 True by (subst read_loop.simps) (simp add: at_eof_def)
    then show ?thesis using 1 True ge by simp
  next
    case False
    obtain c rd1 where c: "rd_read (mx * int rb) rd = (c, rd1)" by fastforce
    have pos: "0 < mx * int rb" using 1 by simp
    have rd: "rd_bytes rd = c @ rd_bytes rd1" "int (length c) \<le> mx * int rb"
      using rd_read_bytes [OF pos c] by auto
    show ?thesis
    proof (cases "rb \<le> length (raw @ c)")
      case True
      then have "read_loop rb mx u n raw rd = (Some (raw @ c, False), rd1)"
        using 1 c False by (subst read_loop.simps) (simp add: at_eof_def)
      then show ?thesis using True rd 1 by (simp add: algebra_simps)
    next
      case less: False
      have "read_loop rb mx u n raw rd = read_loop rb mx u n (raw @ c) rd1"
        using 1 c False less by (subst read_loop.simps) (simp add: at_eof_def)
      moreover have "mx \<noteq> 0" "\<not> at_eof rd" "\<not> (rb = 0 \<or> rb \<le> length (raw @ c))" "length (raw @ c) < rb"
        using 1 False less by (auto simp: at_eof_def)
      ultimately show ?thesis
        using "1.IH" [OF _ _ c [symmetric] refl] 1 rd by (simp split: prod.splits option.splits)
    qed
  qed
qed

lemma split_bytes_spec:
  assumes "split_bytes rb mx bb un raw = (np, bb', un')"
    and "0 < rb" "0 < mx" "length bb < rb" "length un mod rb = 0"
    and "rb \<le> length raw \<or> (length raw + length bb) mod rb = 0"
  shows "np @ un' @ bb' = un @ bb @ raw" and "length np mod rb = 0" and "length un' mod rb = 0"
    and "length bb' < rb" and "length np \<le> max (nat mx * rb) (length bb + length raw)"
    and "np = [] \<Longrightarrow> length (un @ bb @ raw) < rb"
proof -
  define ex where "ex = (length raw + length bb) mod rb"
  define np0 where "np0 = (if 0 < ex then bb @ take (length raw - ex) raw else bb @ raw)"
  define bb0 where "bb0 = (if 0 < ex then drop (length raw - ex) raw else [])"
  have ex2: "ex < rb" using assms by (simp add: ex_def)
  have ex: "ex \<le> length raw" using assms(6) ex2 by (auto simp: ex_def)
  have app: "np0 @ bb0 = bb @ raw" by (simp add: np0_def bb0_def)
  have "length np0 = length raw + length bb - ex" using ex by (simp add: np0_def add.commute)
  then have np0: "length np0 mod rb = 0" by (simp add: ex_def minus_mod_eq_mult_div)
  have bb0: "length bb0 < rb" using ex ex2 assms by (simp add: bb0_def)
  have le: "length np0 \<le> length bb + length raw" by (simp add: np0_def)
  have mb: "nat (mx * int rb) = nat mx * rb" using assms by (simp add: nat_mult_distrib)
  have mp: "\<not> mx * int rb < 0" using assms(3) by (simp add: mult_less_0_iff)
  obtain w where w: "w = un @ np0" by simp
  have eq: "split_bytes rb mx bb un raw =
     (if un \<noteq> [] then (if int (length w) \<le> mx * int rb then (w, bb0, [])
        else (take (nat mx * rb) w, bb0, drop (nat mx * rb) w))
      else (np0, bb0, un))"
    using mp by (simp add: split_bytes_def np0_def bb0_def ex_def [symmetric] slice_to_def slice_from_def mb w)
  have wbb: "w @ bb0 = un @ bb @ raw" using app by (simp add: w)
  have wlen: "length w mod rb = 0" using np0 assms(5) by (simp add: w mod_add_eq [symmetric])
  have int_le: "int (length w) \<le> mx * int rb \<longleftrightarrow> length w \<le> nat mx * rb"
    using mb mp by linarith
  have dr: "take (nat mx * rb) w @ drop (nat mx * rb) w @ bb0 = un @ bb @ raw"
    by (metis append.assoc append_take_drop_id wbb)
  show "np @ un' @ bb' = un @ bb @ raw"
    using assms(1) wbb dr app by (auto simp: eq split: if_splits)
  have "(length w - nat mx * rb) mod rb = 0"
    using wlen by (simp add: mod_eq_0_iff_dvd dvd_diff_nat)
  then show "length un' mod rb = 0"
    using assms(1) assms(5) by (auto simp: eq split: if_splits)
  show "length np mod rb = 0"
    using assms(1) wlen np0 int_le by (auto simp: eq min_def split: if_splits)
  show "length bb' < rb" using assms(1) bb0 by (auto simp: eq split: if_splits)
  show "length np \<le> max (nat mx * rb) (length bb + length raw)"
    using assms(1) le int_le by (auto simp: eq split: if_splits)
  have "nat mx * rb \<noteq> 0" using assms(2,3) by simp
  then have "np = [] \<Longrightarrow> un = [] \<and> np0 = []"
    using assms(1) by (auto simp: eq w split: if_splits)
  then show "np = [] \<Longrightarrow> length (un @ bb @ raw) < rb"
    using app bb0 by (metis append_Nil)
qed

lemma takeWhile_split:
  "z \<in> set xs \<Longrightarrow> xs = takeWhile (\<lambda>r. r \<noteq> z) xs @ z # drop (Suc (length (takeWhile (\<lambda>r. r \<noteq> z) xs))) xs"
  by (induction xs) auto

lemma read_finish_rows:
  fixes p :: input_pipe
  defines "z \<equiv> zero_row (ip_dtype p)"
  assumes "list_all (clean_row (ip_dtype p)) xs" "last_index p + length xs \<le> length (ip_buffer p)"
  defines "as \<equiv> takeWhile (\<lambda>r. r \<noteq> z) xs"
  shows "read_finish p (concat xs) =
    (Inr (buffered p @ as),
     p\<lparr>ip_interval_break := z \<in> set xs,
       ip_unprocessed := (if z \<in> set xs then concat (drop (Suc (length as)) xs) @ ip_unprocessed p
                          else ip_unprocessed p),
       ip_buffer := buffered p @ as @ drop (last_index p + length as) (ip_buffer p),
       last_index := last_index p + length as\<rparr>)"
proof -
  have len: "list_all (\<lambda>r. length r = rowbytes p) xs"
    using assms(2) by (auto simp: clean_row_def list_all_iff)
  have las: "length as \<le> length xs" by (simp add: as_def length_takeWhile_le)
  have fit: "last_index p + length as \<le> length (ip_buffer p)" using assms(3) las by linarith
  have tk: "take (last_index p + length as) (buffered p @ as @ rest) = buffered p @ as" for rest
    using fit by simp
  have las': "list_all (\<lambda>r. length r = rowbytes p) as"
    using len by (auto simp: as_def list_all_iff dest: set_takeWhileD)
  have np: "np_frombuffer (rowbytes p) (concat as) = Inr as"
    using chunks_concat [OF _ las', of "[]"] concat_length [OF las'] by (simp add: np_frombuffer_def)
  show ?thesis
  proof (cases "z \<in> set xs")
    case True
    from takeWhile_split [OF this]
    have xs: "xs = as @ z # drop (Suc (length as)) xs" by (simp add: as_def)
    have zl: "length z = rowbytes p" by (simp add: z_def)
    have "concat xs = concat as @ z @ concat (drop (Suc (length as)) xs)"
      by (subst xs) simp
    then have "take (length as * rowbytes p) (concat xs) = concat as"
      "drop ((length as + 1) * rowbytes p) (concat xs) = concat (drop (Suc (length as)) xs)"
      using concat_length [OF las'] zl by simp_all
    then show ?thesis
      using find_token_rows [OF assms(2)] True fit np tk
      by (simp add: read_finish_def slice_assign_fits Let_def z_def [symmetric] as_def [symmetric])
  next
    case False
    then have "as = xs" by (auto simp: as_def takeWhile_eq_all_conv)
    then show ?thesis
      using find_token_rows [OF assms(2)] False fit np tk
      by (simp add: read_finish_def slice_assign_fits Let_def z_def [symmetric])
  qed
qed

lemma concat_prefix_rows:
  assumes "0 < n" "list_all (\<lambda>r. length r = n) rs" "a @ b = concat rs" "length a mod n = 0"
  shows "\<exists>xs ys. rs = xs @ ys \<and> a = concat xs \<and> b = concat ys"
proof (intro exI conjI)
  have "rs = chunks n (a @ b)" using chunks_concat [OF assms(1,2), of "[]"] assms(3) by simp
  then show "rs = chunks n a @ chunks n b" using chunks_append_mult [OF assms(1,4)] by simp
  obtain rest where "a = concat (chunks n a) @ rest" "length rest = length a mod n"
    using chunks_split [OF assms(1)] by blast
  then show a: "a = concat (chunks n a)" using assms(4) by simp
  have "a @ b = concat (chunks n a) @ concat (chunks n b)"
    using assms(3) \<open>rs = chunks n a @ chunks n b\<close> by simp
  then show "b = concat (chunks n b)" using a by (metis same_append_eq)
qed

text \<open>
  The bytes the pipe has not handed out yet, in the order in which it received them, and the state
  that every operation keeps.
\<close>

definition stream_of :: "input_pipe \<Rightarrow> byte list" where
  "stream_of p = ip_unprocessed p @ ip_byte_buffer p
     @ rd_bytes (case ip_reader p of Some rd \<Rightarrow> rd | None \<Rightarrow> ip_factory p)"

definition ip_ok :: "input_pipe \<Rightarrow> bool" where
  "ip_ok p = (length (ip_buffer p) = 2 * ip_buffer_size p \<and> last_index p \<le> 2 * ip_buffer_size p
     \<and> length (ip_byte_buffer p) < rowbytes p \<and> length (ip_unprocessed p) mod rowbytes p = 0)"

definition pending_rows :: "input_pipe \<Rightarrow> row list \<Rightarrow> bool" where
  "pending_rows p rs = (list_all (clean_row (ip_dtype p)) rs \<and> stream_of p = concat rs)"

definition read_spec :: "input_pipe \<Rightarrow> row list \<Rightarrow> row list res \<times> input_pipe \<Rightarrow> bool" where
  "read_spec p rs r =
     (case r of
        (Inl e, p') \<Rightarrow>
          e = EmptyPipeError \<and> last_index p = 0 \<and> length rs \<le> 1 \<and> (ip_byte_buffer p = [] \<longrightarrow> rs = [])
      | (Inr out, p') \<Rightarrow>
          \<exists>new rs'. out = buffered p @ new \<and> buffered p' = out \<and> zero_row (ip_dtype p) \<notin> set new
            \<and> rs = new @ (if ip_interval_break p' then [zero_row (ip_dtype p)] else []) @ rs'
            \<and> ip_ok p' \<and> pending_rows p' rs' \<and> last_index p' \<le> Suc (ip_buffer_size p)
            \<and> (rs \<noteq> [] \<longrightarrow> length rs' < length rs) \<and> (last_index p = 0 \<longrightarrow> rs \<noteq> [])
            \<and> ip_closed p' = ip_closed p \<and> ip_dtype p' = ip_dtype p \<and> ip_reread p' = ip_reread p
            \<and> ip_buffer_size p' = ip_buffer_size p)"

lemma clean_len: "list_all (clean_row d) rs \<Longrightarrow> list_all (\<lambda>r. length r = itemsize d) rs"
  by (auto simp: clean_row_def list_all_iff)

lemma read_step:
  fixes p :: input_pipe
  defines "rb \<equiv> rowbytes p" and "mx \<equiv> max_rows p"
  assumes ok: "ip_ok p" and room: "last_index p < ip_buffer_size p" and rows: "pending_rows p rs"
    and rd: "ip_reader p = Some rd"
    and loop: "read_loop rb mx (ip_unprocessed p = []) (last_index p = 0) [] rd = (Some (raw, l), rd')"
    and split: "split_bytes rb mx (ip_byte_buffer p) (ip_unprocessed p) raw = (np, bb, un)"
  shows "read_spec p rs (read_finish
    (p\<lparr>ip_reader := Some rd', ip_last_read := lr, ip_byte_buffer := bb, ip_unprocessed := un\<rparr>) np)"
proof -
  let ?z = "zero_row (ip_dtype p)"
  let ?p = "p\<lparr>ip_reader := Some rd', ip_last_read := lr, ip_byte_buffer := bb, ip_unprocessed := un\<rparr>"
  have rb: "0 < rb" by (simp add: rb_def)
  have mx: "mx = int (ip_buffer_size p - last_index p)" "0 < mx"
    using ok room by (simp_all add: mx_def max_rows_def ip_ok_def)
  have clean: "list_all (clean_row (ip_dtype p)) rs" and str: "stream_of p = concat rs"
    using rows by (simp_all add: pending_rows_def)
  note len = clean_len [OF clean, folded rb_def]
  have lp: "rd_bytes rd = raw @ rd_bytes rd'"
    "rb \<le> length raw \<or> rd' = [] \<and> \<not> (ip_unprocessed p = [] \<and> last_index p = 0)"
    "int (length raw) < (mx + 1) * int rb"
    using read_loop_spec [OF mx(2) rb, of "[]" "ip_unprocessed p = []" "last_index p = 0" rd] loop rb
    by auto
  have all: "ip_unprocessed p @ ip_byte_buffer p @ raw @ rd_bytes rd' = concat rs"
    using str rd lp(1) by (simp add: stream_of_def)
  have un0: "length (ip_unprocessed p) mod rb = 0" and bb0: "length (ip_byte_buffer p) < rb"
    using ok by (simp_all add: ip_ok_def rb_def)
  have tot: "length (concat rs) mod rb = 0" using concat_length [OF len] by simp
  have cond: "rb \<le> length raw \<or> (length raw + length (ip_byte_buffer p)) mod rb = 0"
  proof (cases "rd' = []")
    case True
    then have "length (ip_unprocessed p) + (length raw + length (ip_byte_buffer p)) = length (concat rs)"
      by (simp add: all [symmetric])
    then have "(length (ip_unprocessed p) + (length raw + length (ip_byte_buffer p))) mod rb = 0"
      using tot by simp
    then show ?thesis using un0 by (metis mod_add_left_eq add_0)
  qed (use lp in simp)
  note sb = split_bytes_spec [OF split rb mx(2) bb0 un0 cond]
  have app: "np @ un @ bb @ rd_bytes rd' = concat rs" using sb(1) all by (metis append.assoc)
  obtain xs ys where xy: "rs = xs @ ys" "np = concat xs" "un @ bb @ rd_bytes rd' = concat ys"
    using concat_prefix_rows [OF rb len app sb(2)] by (elim exE conjE)
  have lx: "length np = length xs * rb" using xy len concat_length [of rb xs] by simp
  obtain d where d: "d = ip_buffer_size p - last_index p" by simp
  have "int (length raw) < int ((d + 1) * rb)" using lp(3) mx(1) by (simp add: d [symmetric] distrib_right)
  then have "length raw < (d + 1) * rb" by linarith
  then have "length (ip_byte_buffer p) + length raw < Suc (Suc d) * rb" using bb0 by simp
  then have "length np < Suc (Suc d) * rb"
    using sb(5) mx(1) rb by (simp add: d [symmetric] max_def split: if_splits)
  then have "length xs < Suc (Suc d)" unfolding lx mult_less_cancel2 by simp
  then have fit: "last_index p + length xs \<le> Suc (ip_buffer_size p)" using room d by linarith
  define as where "as = takeWhile (\<lambda>r. r \<noteq> ?z) xs"
  have asz: "?z \<notin> set as" by (auto simp: as_def dest: set_takeWhileD)
  have las: "length as \<le> length xs" by (simp add: as_def length_takeWhile_le)
  define cs where "cs = drop (Suc (length as)) xs"
  have xs: "xs = as @ (if ?z \<in> set xs then ?z # cs else [])"
  proof (cases "?z \<in> set xs")
    case True
    then show ?thesis using takeWhile_split [OF True] by (simp add: as_def cs_def)
  next
    case False
    then have "as = xs" by (auto simp: as_def takeWhile_eq_all_conv)
    then show ?thesis using False by simp
  qed
  have cx: "list_all (clean_row (ip_dtype p)) xs" "list_all (clean_row (ip_dtype p)) ys"
    using clean xy(1) by simp_all
  have lb: "length (ip_buffer p) = 2 * ip_buffer_size p" using ok by (simp add: ip_ok_def)
  define rest where "rest = (if ?z \<in> set xs then cs @ ys else ys)"
  have "rs = as @ (if ?z \<in> set xs then [?z] else []) @ rest" using xy(1) xs by (auto simp: rest_def)
  moreover have "length rest < length rs" if "rs \<noteq> []"
  proof -
    have "xs \<noteq> []"
    proof
      assume "xs = []"
      then have n: "np = []" and "length (ip_unprocessed p @ ip_byte_buffer p @ raw) < rb"
        using xy(2) sb(6) by auto
      then have "rd' = []" using lp(2) by auto
      then have "length (concat rs) < rb"
        using all \<open>length (ip_unprocessed p @ ip_byte_buffer p @ raw) < rb\<close> by (metis append_Nil2 rd_bytes_simps(1))
      then show False using that len by (cases rs) auto
    qed
    then show ?thesis using xs xy(1) by (auto simp: rest_def)
  qed
  moreover have "rs \<noteq> []" if "last_index p = 0"
    using lp(2) that all rb by (cases rs) auto
  moreover have "concat (if ?z \<in> set xs then cs else []) @ un @ bb @ rd_bytes rd' = concat rest"
    using xy(3) by (simp add: rest_def)
  moreover have "list_all (clean_row (ip_dtype p)) rest"
    using cx by (auto simp: rest_def cs_def list_all_drop)
  moreover have "length (concat cs) mod rb = 0"
    using concat_length [OF clean_len [OF list_all_drop [OF cx(1)]]] by (simp add: cs_def rb_def)
  moreover have "last_index p + length as \<le> Suc (ip_buffer_size p)" using fit las by linarith
  moreover have "buffered p @ as = take (last_index p + length as)
      (buffered p @ as @ drop (last_index p + length as) (ip_buffer p))"
    using room lb by simp
  ultimately show ?thesis
    using read_finish_rows [of ?p xs] cx(1) fit room lb sb(3,4) asz
    apply (simp add: read_spec_def xy(2) as_def [symmetric] cs_def [symmetric] rb_def)
    apply (intro exI [of _ rest] conjI)
    apply (auto simp: ip_ok_def pending_rows_def stream_of_def rb_def mod_add_eq [symmetric])
    done
qed

lemma read_empty:
  assumes ok: "ip_ok p" and rows: "pending_rows p rs" and rd: "ip_reader p = Some rd"
    and mx: "0 < max_rows p"
    and loop: "read_loop (rowbytes p) (max_rows p) (ip_unprocessed p = []) (last_index p = 0) [] rd
                 = (None, rd')"
  shows "read_spec p rs (Inl EmptyPipeError, p')"
proof -
  have lp: "ip_unprocessed p = []" "last_index p = 0" "length (rd_bytes rd) < rowbytes p"
    using read_loop_spec [OF mx itemsize_pos(1), of "[]" "ip_dtype p" "ip_unprocessed p = []" "last_index p = 0" rd]
      loop by auto
  have str: "ip_byte_buffer p @ rd_bytes rd = concat rs"
    using rows rd lp(1) by (simp add: pending_rows_def stream_of_def)
  have "length (concat rs) < 2 * rowbytes p"
    using lp(3) ok by (simp add: str [symmetric] ip_ok_def)
  moreover have len: "length (concat rs) = length rs * rowbytes p"
    using rows by (simp add: pending_rows_def clean_len concat_length)
  ultimately have "length rs < 2" using mult_less_cancel2 by metis
  moreover have "rs = []" if "ip_byte_buffer p = []"
    using that str lp(3) len by (cases rs) auto
  ultimately show ?thesis using lp by (simp add: read_spec_def)
qed

lemma ip_read_read_spec:
  assumes ok: "ip_ok p" and room: "last_index p < ip_buffer_size p" and rows: "pending_rows p rs"
    and "\<not> ip_closed p" "\<not> ip_reread p"
  shows "read_spec p rs (ip_read p)"
proof -
  define rd where "rd = (case ip_reader p of Some rd \<Rightarrow> rd | None \<Rightarrow> ip_factory p)"
  define q where "q = (if ip_reader p = None
     then p\<lparr>ip_reader := Some (ip_factory p), ip_reader_close := True\<rparr> else p)"
  have q: "ip_ok q" "last_index q < ip_buffer_size q" "pending_rows q rs" "ip_reader q = Some rd"
    using ok room rows
    by (auto simp: q_def rd_def ip_ok_def pending_rows_def stream_of_def split: option.splits)
  have mx: "0 < max_rows q" using q by (simp add: max_rows_def ip_ok_def)
  have spec: "read_spec p rs r = read_spec q rs r" for r
    by (auto simp: read_spec_def q_def split: prod.splits sum.splits)
  have flags: "\<not> ip_closed q" using assms(4) by (simp add: q_def)
  obtain res rd' where loop: "read_loop (rowbytes q) (max_rows q) (ip_unprocessed q = [])
      (last_index q = 0) [] rd = (res, rd')" by fastforce
  show ?thesis
  proof (cases res)
    case None
    then have "ip_read p = (Inl EmptyPipeError, q\<lparr>ip_reader := Some rd'\<rparr>)"
      using assms(4,5) mx loop q(4) flags by (simp add: ip_read_def Let_def q_def [symmetric])
    then show ?thesis using read_empty [OF q(1,3,4) mx] loop None by (simp add: spec)
  next
    case (Some a)
    obtain raw l where a: "a = (raw, l)" by fastforce
    obtain np bb un where sb: "split_bytes (rowbytes q) (max_rows q) (ip_byte_buffer q)
        (ip_unprocessed q) raw = (np, bb, un)" by (metis prod_cases3)
    have "ip_read p = read_finish (q\<lparr>ip_reader := Some rd', ip_last_read := (ip_last_read q \<or> l),
        ip_byte_buffer := bb, ip_unprocessed := un\<rparr>) np"
      using assms(4,5) mx loop q(4) flags Some a sb by (simp add: ip_read_def Let_def q_def [symmetric])
    then show ?thesis
      using read_step [OF q(1,2,3,4) _ sb] loop Some a by (simp add: spec)
  qed
qed

lemma input_pipe_init_ok: "ip_ok (input_pipe_init d n rd fac cb)"
  by (simp add: ip_ok_def input_pipe_init_def)

text \<open>\<open>consume\<close> drops rows from the front of the valid ones.\<close>

lemma ip_consume_rows:
  assumes "ip_ok p" "n \<le> last_index p"
  shows "\<exists>p'. ip_consume p (int n) = (Inr (), p') \<and> buffered p' = drop n (buffered p) \<and> ip_ok p'
    \<and> stream_of p' = stream_of p \<and> last_index p' = last_index p - n \<and> ip_dtype p' = ip_dtype p
    \<and> ip_closed p' = ip_closed p \<and> ip_reread p' = ip_reread p \<and> ip_buffer_size p' = ip_buffer_size p
    \<and> ip_interval_break p' = ip_interval_break p"
proof (cases "n = 0")
  case True
  then show ?thesis using assms by (simp add: ip_consume_def)
next
  case False
  have n: "n \<le> length (ip_buffer p)" using assms by (simp add: ip_ok_def)
  have "take (last_index p - n) (rotate n (ip_buffer p)) = drop n (buffered p)"
  proof (cases "n = length (ip_buffer p)")
    case True
    then show ?thesis using assms by (simp add: ip_ok_def)
  next
    case False
    then have "rotate n (ip_buffer p) = drop n (ip_buffer p) @ take n (ip_buffer p)"
      using n by (simp add: rotate_drop_take)
    then show ?thesis using assms by (simp add: ip_ok_def drop_take)
  qed
  then show ?thesis using False assms
    by (auto simp: ip_consume_def ip_ok_def stream_of_def split: option.splits)
qed

section \<open>Properties\<close>

text \<open>
  C3.  \<open>InputPipe.read\<close> loses, repeats and reorders nothing.  Let the bytes that the pipe still holds or
  that are still to arrive be whole rows \<open>rs\<close>, however the connection cuts them into pieces, and let
  the buffer have room.  A read that returns gives the rows buffered before followed by new rows; the
  new rows, an interval token exactly when \<open>end_of_interval\<close> is set, and the rows that are still
  pending afterwards are \<open>rs\<close>; no token is ever among the rows; the state is well formed again, the
  buffer holds at most one row more than \<open>BUFFER_SIZE\<close>, and the number of pending rows decreased.
  The only exception is \<open>EmptyPipeError\<close>, when nothing is buffered and at most one row is pending, and
  none unless part of that row was already in \<open>byte_buffer\<close>.
\<close>

theorem input_pipe_read_rows:
  assumes "ip_ok p" "last_index p < ip_buffer_size p" "pending_rows p rs"
    and "\<not> ip_closed p" "\<not> ip_reread p"
  shows "read_spec p rs (ip_read p)"
  using assms by (rule ip_read_read_spec)

theorem input_pipe_read_rows_witness:
  "read_spec (input_pipe_init demo_dtype 4 (Some [Some (take 5 (demo_row 1)), None, Some (drop 5 (demo_row 1))]) [] False)
     [demo_row 1]
     (ip_read (input_pipe_init demo_dtype 4 (Some [Some (take 5 (demo_row 1)), None, Some (drop 5 (demo_row 1))]) [] False))"
proof (rule input_pipe_read_rows)
  show "pending_rows (input_pipe_init demo_dtype 4
      (Some [Some (take 5 (demo_row 1)), None, Some (drop 5 (demo_row 1))]) [] False) [demo_row 1]"
    by code_simp
qed (simp_all add: input_pipe_init_ok, simp_all add: input_pipe_init_def)

text \<open>
  The last row of a stream can be lost.  When a read leaves part of the last row in
  \<open>byte_buffer\<close> and the rest arrives right before the end of the stream, the loop of the next read
  collects less than a row, meets the end of the stream and raises \<open>EmptyPipeError\<close>: the row is never
  delivered although all of its bytes arrived.
\<close>

lemma input_pipe_loses_last_row:
  "(let p0 = input_pipe_init demo_dtype 4
           (Some [Some (demo_row 1 @ take 5 (demo_row 2)), Some (drop 5 (demo_row 2))]) [] False;
        (r1, p1) = ip_read p0; (_, p2) = ip_consume p1 1; (r2, p3) = ip_read p2
    in stream_of p0 = demo_row 1 @ demo_row 2 \<and> r1 = Inr [demo_row 1] \<and> r2 = Inl EmptyPipeError)"
  by code_simp

end
