(* ===== verification/Local_Pipe.thy ===== *)
theory Local_Pipe
  imports Pipe_Layout
begin

text \<open>
  \<open>src/src/joule/models/pipes/local_pipe.py\<close>: the pipe between coroutines of one process, a queue of
  blocks of rows in which \<open>None\<close> marks the end of an interval, and the buffer of rows that have been
  read but not consumed.

  A coroutine that has to wait gives the result \<open>None\<close> beside the state it waits in: a reader waits
  while the queue is empty and the pipe is open, a writer while the bounded queue is full.  What
  happens next is the subject of the transition system at the end.  Subscribers are values of a type
  \<open>'s\<close>, their operations parameters.  The cache array is the list of its filled rows, and the unset
  rows \<open>np.empty\<close> allocates are rows of zeros.
\<close>

record 's local_pipe =
  lp_dtype :: dtype
  lp_maxsize :: int
  lp_queue :: "row list option list"
  lp_queued_rows :: int
  lp_buffer :: "row list"
  lp_break :: bool
  lp_reread :: bool
  lp_last_read :: bool
  lp_failed :: bool
  lp_closed :: bool
  lp_subscribers :: "'s list"
  lp_caching :: bool
  lp_cache_size :: nat
  lp_cache :: "row list"
  lp_close_cb :: bool
  lp_cb_runs :: nat

type_synonym 's lp_call = "unit res option \<times> 's local_pipe"

definition local_pipe_init :: "dtype \<Rightarrow> bool \<Rightarrow> int \<Rightarrow> 's local_pipe" where
  "local_pipe_init d cb write_limit =
     \<lparr>lp_dtype = d, lp_maxsize = write_limit, lp_queue = [], lp_queued_rows = 0, lp_buffer = [],
      lp_break = False, lp_reread = False, lp_last_read = False, lp_failed = False, lp_closed = False,
      lp_subscribers = [], lp_caching = False, lp_cache_size = 0, lp_cache = [],
      lp_close_cb = cb, lp_cb_runs = 0\<rparr>"

definition lp_subscribe :: "'s local_pipe \<Rightarrow> 's \<Rightarrow> 's local_pipe" where
  "lp_subscribe p s = p\<lparr>lp_subscribers := lp_subscribers p @ [s]\<rparr>"

definition lp_fail :: "'s local_pipe \<Rightarrow> 's local_pipe" where
  "lp_fail p = p\<lparr>lp_failed := True\<rparr>"

definition lp_full :: "'s local_pipe \<Rightarrow> bool" where
  "lp_full p = (0 < lp_maxsize p \<and> lp_maxsize p \<le> int (length (lp_queue p)))"

section \<open>Writing\<close>

text \<open>\<open>queue.put\<close> and the accounting after it; then \<open>_write\<close>.\<close>

definition lp_enqueue :: "'s local_pipe \<Rightarrow> row list \<Rightarrow> 's lp_call" where
  "lp_enqueue p rows =
     (if lp_full p then (None, p)
      else (Some (Inr ()), p\<lparr>lp_queue := lp_queue p @ [Some rows],
                            lp_queued_rows := lp_queued_rows p + int (length rows)\<rparr>))"

definition lp_send :: "(row list \<Rightarrow> 's \<Rightarrow> unit res \<times> 's) \<Rightarrow> 's local_pipe \<Rightarrow> row list \<Rightarrow> 's lp_call" where
  "lp_send sw p rows =
     (let (r, subs) = each_sub (sw rows) (lp_subscribers p); p = p\<lparr>lp_subscribers := subs\<rparr>
      in case r of Inl e \<Rightarrow> (Some (Inl e), p) | Inr _ \<Rightarrow> lp_enqueue p rows)"

definition lp_flush_cache :: "(row list \<Rightarrow> 's \<Rightarrow> unit res \<times> 's) \<Rightarrow> 's local_pipe \<Rightarrow> 's lp_call" where
  "lp_flush_cache sw p =
     (if lp_closed p then (Some (Inl (PipeError ''Cannot write to a closed pipe'')), p)
      else if lp_cache p \<noteq> [] then
        (case lp_send sw p (lp_cache p) of
           (Some (Inr _), p) \<Rightarrow> (Some (Inr ()), p\<lparr>lp_cache := []\<rparr>)
         | (r, p) \<Rightarrow> (r, p))
      else (Some (Inr ()), p))"

definition lp_enable_cache :: "'s local_pipe \<Rightarrow> nat \<Rightarrow> 's local_pipe" where
  "lp_enable_cache p lines = p\<lparr>lp_caching := True, lp_cache_size := lines, lp_cache := []\<rparr>"

fun lp_cache_rows :: "(row list \<Rightarrow> 's \<Rightarrow> unit res \<times> 's) \<Rightarrow> row list \<Rightarrow> 's local_pipe \<Rightarrow> 's lp_call" where
  "lp_cache_rows sw [] p = (Some (Inr ()), p)"
| "lp_cache_rows sw (r # rs) p =
     (if lp_cache_size p \<le> length (lp_cache p) then (Some (Inl PyIndexError), p)
      else
        (let p = p\<lparr>lp_cache := lp_cache p @ [r]\<rparr>
         in if lp_cache_size p \<le> length (lp_cache p) then
              (case lp_flush_cache sw p of
                 (Some (Inr _), p) \<Rightarrow> lp_cache_rows sw rs p
               | (res, p) \<Rightarrow> (res, p))
            else lp_cache_rows sw rs p))"

definition lp_close :: "(row list \<Rightarrow> 's \<Rightarrow> unit res \<times> 's) \<Rightarrow> ('s \<Rightarrow> unit res \<times> 's)
    \<Rightarrow> 's local_pipe \<Rightarrow> 's lp_call" where
  "lp_close sw sc p =
     (if lp_closed p then (Some (Inr ()), p)
      else (case (if lp_caching p then lp_flush_cache sw p else (Some (Inr ()), p)) of
              (Some (Inr _), p) \<Rightarrow>
                (let (r, subs) = each_sub sc (lp_subscribers p); p = p\<lparr>lp_subscribers := subs\<rparr>
                 in case r of
                      Inl e \<Rightarrow> (Some (Inl e), p)
                    | Inr _ \<Rightarrow>
                        (let p = p\<lparr>lp_closed := True\<rparr>
                         in (Some (Inr ()),
                             if lp_close_cb p then p\<lparr>lp_cb_runs := Suc (lp_cb_runs p)\<rparr> else p)))
            | (res, p) \<Rightarrow> (res, p)))"

definition lp_close_nowait :: "'s local_pipe \<Rightarrow> unit res \<times> 's local_pipe" where
  "lp_close_nowait p =
     (if lp_subscribers p \<noteq> []
      then (Inl (PipeError ''cannot close_nowait subscribers, use async''), p)
      else if lp_close_cb p then (Inl (PipeError ''close_cb cannot be executed, use async''), p)
      else (Inr (), p\<lparr>lp_closed := True\<rparr>))"

definition lp_write :: "(row list \<Rightarrow> 's \<Rightarrow> unit res \<times> 's) \<Rightarrow> ('s \<Rightarrow> unit res \<times> 's)
    \<Rightarrow> (dtype \<Rightarrow> 'v \<Rightarrow> 'v list \<Rightarrow> row) \<Rightarrow> 's local_pipe \<Rightarrow> 'v pydata \<Rightarrow> 's lp_call" where
  "lp_write sw sc cast p data =
     (if lp_failed p then
        (case lp_close sw sc p of
           (Some (Inr _), p) \<Rightarrow> (Some (Inl (PipeError ''pipe failed'')), p)
         | (res, p) \<Rightarrow> (res, p))
      else if lp_closed p then (Some (Inl (PipeError ''Cannot write to a closed pipe'')), p)
      else (case validate_data data of
              Inl e \<Rightarrow> (Some (Inl e), p)
            | Inr False \<Rightarrow> (Some (Inr ()), p)
            | Inr True \<Rightarrow>
                (case apply_dtype cast (lp_dtype p) data of
                   Inl e \<Rightarrow> (Some (Inl e), p)
                 | Inr sarray \<Rightarrow>
                     if lp_caching p then lp_cache_rows sw sarray p else lp_send sw p sarray)))"

text \<open>\<open>write_nowait\<close>; \<open>swn\<close> is the subscriber's part, which raises for anything but a local pipe.\<close>

definition lp_write_nowait :: "(row list \<Rightarrow> 's \<Rightarrow> unit res \<times> 's) \<Rightarrow> (dtype \<Rightarrow> 'v \<Rightarrow> 'v list \<Rightarrow> row)
    \<Rightarrow> 's local_pipe \<Rightarrow> 'v pydata \<Rightarrow> unit res \<times> 's local_pipe" where
  "lp_write_nowait swn cast p data =
     (if lp_failed p then (Inl (PipeError ''pipe failed''), p)
      else if lp_closed p then (Inl (PipeError ''Cannot write to a closed pipe''), p)
      else (case validate_data data of
              Inl e \<Rightarrow> (Inl e, p)
            | Inr False \<Rightarrow> (Inr (), p)
            | Inr True \<Rightarrow>
                (case apply_dtype cast (lp_dtype p) data of
                   Inl e \<Rightarrow> (Inl e, p)
                 | Inr sarray \<Rightarrow>
                     (let (r, subs) = each_sub (swn sarray) (lp_subscribers p);
                          p = p\<lparr>lp_subscribers := subs\<rparr>
                      in case r of
                           Inl e \<Rightarrow> (Inl e, p)
                         | Inr _ \<Rightarrow>
                             if lp_full p then (Inl QueueFull, p)
                             else (Inr (), p\<lparr>lp_queue := lp_queue p @ [Some sarray],
                                   lp_queued_rows := lp_queued_rows p + int (length sarray)\<rparr>)))))"

definition lp_close_interval :: "(row list \<Rightarrow> 's \<Rightarrow> unit res \<times> 's) \<Rightarrow> ('s \<Rightarrow> unit res \<times> 's)
    \<Rightarrow> 's local_pipe \<Rightarrow> 's lp_call" where
  "lp_close_interval sw sci p =
     (if lp_failed p then (Some (Inl (PipeError ''pipe failed'')), p)
      else if lp_closed p then (Some (Inl (PipeError ''Cannot write to a closed pipe'')), p)
      else (case (if lp_caching p then lp_flush_cache sw p else (Some (Inr ()), p)) of
              (Some (Inr _), p) \<Rightarrow>
                if lp_full p then (None, p)
                else
                  (let p = p\<lparr>lp_queue := lp_queue p @ [None]\<rparr>;
                       (r, subs) = each_sub sci (lp_subscribers p)
                   in (Some r, p\<lparr>lp_subscribers := subs\<rparr>))
            | (res, p) \<Rightarrow> (res, p)))"

definition lp_close_interval_nowait :: "('s \<Rightarrow> unit res \<times> 's) \<Rightarrow> 's local_pipe
    \<Rightarrow> unit res \<times> 's local_pipe" where
  "lp_close_interval_nowait scin p =
     (if lp_failed p then (Inl (PipeError ''pipe failed''), p)
      else if lp_full p then (Inl QueueFull, p)
      else
        (let p = p\<lparr>lp_queue := lp_queue p @ [None]\<rparr>;
             (r, subs) = each_sub scin (lp_subscribers p)
         in (r, p\<lparr>lp_subscribers := subs\<rparr>)))"

definition lp_change_layout :: "dtype \<Rightarrow> 's local_pipe \<Rightarrow> 's local_pipe" where
  "lp_change_layout d p =
     (let p = p\<lparr>lp_dtype := d, lp_buffer := [], lp_queued_rows := 0\<rparr>
      in if lp_caching p then p\<lparr>lp_cache := []\<rparr> else p)"

section \<open>Reading\<close>

text \<open>The loop of \<open>_read\<close>: \<open>(outcome, queue, queued_rows, interval_break)\<close>.\<close>

fun lp_drain :: "row list option list \<Rightarrow> row list \<Rightarrow> nat \<Rightarrow> int
    \<Rightarrow> row list res \<times> row list option list \<times> int \<times> bool" where
  "lp_drain [] buf e qr = (Inr (take e buf), [], qr, False)"
| "lp_drain (None # q) buf e qr = (Inr (take e buf), q, qr, True)"
| "lp_drain (Some b # q) buf e qr =
     (case slice_assign buf e b of
        Inl x \<Rightarrow> (Inl x, q, qr, False)
      | Inr buf' \<Rightarrow> lp_drain q buf' (e + length b) (qr - int (length b)))"

definition lp_read_queue :: "'s local_pipe \<Rightarrow> row list res \<times> 's local_pipe" where
  "lp_read_queue p =
     (let e = length (lp_buffer p); n = lp_queued_rows p + int e
      in if n < 0 then (Inl PyValueError, p)
         else (case slice_assign (replicate (nat n) (zero_row (lp_dtype p))) 0 (lp_buffer p) of
                 Inl x \<Rightarrow> (Inl x, p)
               | Inr buf \<Rightarrow>
                   (case lp_drain (lp_queue p) buf e (lp_queued_rows p) of
                      (res, q, qr, brk) \<Rightarrow>
                        (let p = p\<lparr>lp_queue := q, lp_queued_rows := qr, lp_break := (lp_break p \<or> brk)\<rparr>
                         in case res of
                              Inl x \<Rightarrow> (Inl x, p)
                            | Inr rows \<Rightarrow> (Inr rows, p\<lparr>lp_buffer := rows\<rparr>)))))"

text \<open>The wait for a block, entered again after every time-out, and what follows it.\<close>

definition lp_poll :: "'s local_pipe \<Rightarrow> row list res option \<times> 's local_pipe" where
  "lp_poll p =
     (if lp_queue p = [] \<and> \<not> lp_closed p then (None, p)
      else
        (let p = (if lp_queue p = [] then p\<lparr>lp_last_read := True\<rparr> else p)
         in case lp_read_queue p of
              (Inl e, p) \<Rightarrow> (Some (Inl e), p)
            | (Inr data_block, p) \<Rightarrow>
                if data_block = [] \<and> lp_closed p then (Some (Inl EmptyPipeError), p)
                else (Some (Inr data_block), p)))"

definition lp_read :: "(row list \<Rightarrow> 's \<Rightarrow> unit res \<times> 's) \<Rightarrow> ('s \<Rightarrow> unit res \<times> 's)
    \<Rightarrow> 's local_pipe \<Rightarrow> row list res option \<times> 's local_pipe" where
  "lp_read sw sc p =
     (if lp_reread p then (Some (Inr (lp_buffer p)), p\<lparr>lp_reread := False\<rparr>)
      else if lp_failed p then
        (case lp_close sw sc p of
           (Some (Inr _), p) \<Rightarrow> (Some (Inl (PipeError ''pipe failed'')), p)
         | (Some (Inl e), p) \<Rightarrow> (Some (Inl e), p)
         | (None, p) \<Rightarrow> (None, p))
      else lp_poll (p\<lparr>lp_break := False\<rparr>))"

definition lp_read_nowait :: "'s local_pipe \<Rightarrow> row list res \<times> 's local_pipe" where
  "lp_read_nowait p =
     (if lp_failed p then (Inl (PipeError ''pipe failed''), p)
      else if lp_reread p then
        (if lp_buffer p = [] then (Inl (PipeError ''No data left to reread''), p\<lparr>lp_reread := False\<rparr>)
         else (Inr (lp_buffer p), p\<lparr>lp_reread := False\<rparr>))
      else if lp_queue p = [] \<and> lp_buffer p \<noteq> [] then (Inr (lp_buffer p), p)
      else if lp_queue p = [] \<and> lp_buffer p = [] \<and> lp_closed p then (Inl EmptyPipeError, p)
      else lp_read_queue p)"

definition lp_consume :: "'s local_pipe \<Rightarrow> int \<Rightarrow> unit res \<times> 's local_pipe" where
  "lp_consume p num_rows =
     (if num_rows = 0 then (Inr (), p)
      else if num_rows < 0 then (Inl (PipeError ''consume called with negative offset: %d''), p)
      else if int (length (lp_buffer p)) < num_rows
        then (Inl (PipeError ''cannot consume %d rows: only %d available''), p)
      else (Inr (), p\<lparr>lp_buffer := drop (nat num_rows) (lp_buffer p)\<rparr>))"

definition lp_consume_all :: "'s local_pipe \<Rightarrow> unit res \<times> 's local_pipe" where
  "lp_consume_all p = lp_consume p (int (length (lp_buffer p)))"

definition lp_end_of_interval :: "'s local_pipe \<Rightarrow> bool" where
  "lp_end_of_interval p = lp_break p"

definition lp_is_empty :: "(row list \<Rightarrow> 's \<Rightarrow> unit res \<times> 's) \<Rightarrow> ('s \<Rightarrow> unit res \<times> 's)
    \<Rightarrow> 's local_pipe \<Rightarrow> bool res option \<times> 's local_pipe" where
  "lp_is_empty sw sc p =
     (if lp_reread p then (Some (Inr False), p)
      else (case lp_read sw sc p of
              (None, p) \<Rightarrow> (None, p)
            | (Some (Inl e), p) \<Rightarrow> (Some (if e = EmptyPipeError then Inr True else Inl e), p)
            | (Some (Inr _), p) \<Rightarrow> (Some (Inr False), p\<lparr>lp_reread := True\<rparr>)))"

section \<open>A read delivers the queue in order, up to the first mark\<close>

definition queue_rows :: "row list option list \<Rightarrow> row list" where
  "queue_rows q = concat (map (case_option [] id) q)"

definition q_before :: "row list option list \<Rightarrow> row list" where
  "q_before q = concat (map the (takeWhile (\<lambda>b. b \<noteq> None) q))"

definition q_after :: "row list option list \<Rightarrow> row list option list" where
  "q_after q = tl (dropWhile (\<lambda>b. b \<noteq> None) q)"

lemma q_simps [simp]:
  "q_before [] = []" "q_before (None # q) = []" "q_before (Some b # q) = b @ q_before q"
  "q_after [] = []" "q_after (None # q) = q" "q_after (Some b # q) = q_after q"
  "queue_rows [] = []" "queue_rows (None # q) = queue_rows q" "queue_rows (Some b # q) = b @ queue_rows q"
  "queue_rows (q @ q') = queue_rows q @ queue_rows q'"
  by (simp_all add: q_before_def q_after_def queue_rows_def)

lemma q_split: "queue_rows q = q_before q @ queue_rows (q_after q)"
proof (induction q)
  case (Cons b q)
  then show ?case by (cases b) auto
qed simp

lemma q_after_length: "q \<noteq> [] \<Longrightarrow> length (q_after q) < length q"
proof (induction q)
  case (Cons b q)
  then show ?case by (cases b; cases "q = []") auto
qed simp

lemma lp_drain_ok:
  "e + length (queue_rows q) \<le> length buf \<Longrightarrow>
   lp_drain q buf e qr =
     (Inr (take e buf @ q_before q), q_after q, qr - int (length (q_before q)), None \<in> set q)"
proof (induction q buf e qr rule: lp_drain.induct)
  case (3 b q buf e qr)
  let ?buf = "take e buf @ b @ drop (e + length b) buf"
  have "slice_assign buf e b = Inr ?buf" using 3 by (auto simp: slice_assign_fits)
  then show ?case using 3 by simp
qed auto

definition lp_ok :: "'s local_pipe \<Rightarrow> bool" where
  "lp_ok p = (lp_queued_rows p = int (length (queue_rows (lp_queue p))))"

lemma lp_read_queue_ok:
  assumes "lp_ok p"
  shows "lp_read_queue p =
    (Inr (lp_buffer p @ q_before (lp_queue p)),
     p\<lparr>lp_queue := q_after (lp_queue p),
       lp_queued_rows := lp_queued_rows p - int (length (q_before (lp_queue p))),
       lp_break := (lp_break p \<or> None \<in> set (lp_queue p)),
       lp_buffer := lp_buffer p @ q_before (lp_queue p)\<rparr>)"
proof -
  let ?e = "length (lp_buffer p)" and ?n = "length (queue_rows (lp_queue p))"
  have n: "nat (lp_queued_rows p + int ?e) = ?n + ?e" "\<not> lp_queued_rows p + int ?e < 0"
    using assms by (simp_all add: lp_ok_def nat_add_distrib)
  have s: "slice_assign (replicate (?n + ?e) (zero_row (lp_dtype p))) 0 (lp_buffer p)
      = Inr (lp_buffer p @ replicate ?n (zero_row (lp_dtype p)))"
    by (auto simp: slice_assign_fits)
  show ?thesis by (simp add: lp_read_queue_def Let_def n s lp_drain_ok)
qed

lemma lp_ok_read: "lp_ok p \<Longrightarrow> lp_ok (snd (lp_read_queue p))"
  using q_split [of "lp_queue p"] by (simp add: lp_read_queue_ok) (simp add: lp_ok_def)

lemma lp_ok_init: "lp_ok (local_pipe_init d cb n)"
  by (simp add: lp_ok_def local_pipe_init_def)

lemma lp_enqueue_ok: "lp_ok p \<Longrightarrow> lp_ok (snd (lp_enqueue p rows))"
  by (simp add: lp_ok_def lp_enqueue_def)

lemma lp_send_keeps: "lp_ok p \<Longrightarrow> lp_ok (snd (lp_send sw p rows))"
  by (auto simp: lp_send_def lp_ok_def lp_enqueue_def Let_def split: prod.splits sum.splits)

lemma lp_flush_keeps: "lp_ok p \<Longrightarrow> lp_ok (snd (lp_flush_cache sw p))"
  using lp_send_keeps [of p sw "lp_cache p"]
  by (auto simp: lp_flush_cache_def lp_ok_def split: prod.splits option.splits sum.splits)

lemma lp_cache_rows_keeps: "lp_ok p \<Longrightarrow> lp_ok (snd (lp_cache_rows sw rows p))"
proof (induction rows arbitrary: p)
  case (Cons r rows)
  let ?p = "p\<lparr>lp_cache := lp_cache p @ [r]\<rparr>"
  obtain res q where f: "lp_flush_cache sw ?p = (res, q)" by fastforce
  have p: "lp_ok ?p" using Cons.prems by (simp add: lp_ok_def)
  then have q: "lp_ok q" using lp_flush_keeps [of ?p sw] f by simp
  show ?case using Cons.prems q Cons.IH [OF p] Cons.IH [OF q]
    by (simp add: Let_def f split: option.split sum.split)
qed simp

lemma lp_close_keeps: "lp_ok p \<Longrightarrow> lp_ok (snd (lp_close sw sc p))"
  using lp_flush_keeps [of p sw]
  by (auto simp: lp_close_def lp_ok_def Let_def split: prod.splits option.splits sum.splits)

section \<open>One writer and one reader\<close>

text \<open>
  The two coroutines share the pipe and hand over control only where the code waits.  The writer
  performs a list of operations and then closes the pipe; the reader consumes whatever a read returns
  until the pipe is empty.  A state is the pipe, what the writer has left, what the reader got (rows,
  and \<open>None\<close> where \<open>end_of_interval\<close> was set) and whether the reader is finished.
\<close>

datatype wop = Put "row list" | Break

record pipe_run =
  pr_pipe :: "unit local_pipe"
  pr_script :: "wop list"
  pr_got :: "row option list"
  pr_done :: bool

abbreviation no_sub :: "row list \<Rightarrow> unit \<Rightarrow> unit res \<times> unit" where
  "no_sub \<equiv> \<lambda>rows s. (Inr (), s)"

abbreviation no_cb :: "unit \<Rightarrow> unit res \<times> unit" where
  "no_cb \<equiv> \<lambda>s. (Inr (), s)"

definition put_rows :: "unit local_pipe \<Rightarrow> row list \<Rightarrow> unit lp_call" where
  "put_rows p rows = lp_write no_sub no_cb (\<lambda>d t es. []) p (Structured (lp_dtype p) rows :: unit pydata)"

inductive pipe_step :: "pipe_run \<Rightarrow> pipe_run \<Rightarrow> bool" where
  step_put: "put_rows p rows = (Some (Inr ()), p') \<Longrightarrow>
    pipe_step \<lparr>pr_pipe = p, pr_script = Put rows # ws, pr_got = g, pr_done = b\<rparr>
              \<lparr>pr_pipe = p', pr_script = ws, pr_got = g, pr_done = b\<rparr>"
| step_break: "lp_close_interval no_sub no_cb p = (Some (Inr ()), p') \<Longrightarrow>
    pipe_step \<lparr>pr_pipe = p, pr_script = Break # ws, pr_got = g, pr_done = b\<rparr>
              \<lparr>pr_pipe = p', pr_script = ws, pr_got = g, pr_done = b\<rparr>"
| step_close: "\<not> lp_closed p \<Longrightarrow> lp_close no_sub no_cb p = (Some (Inr ()), p') \<Longrightarrow>
    pipe_step \<lparr>pr_pipe = p, pr_script = [], pr_got = g, pr_done = b\<rparr>
              \<lparr>pr_pipe = p', pr_script = [], pr_got = g, pr_done = b\<rparr>"
| step_read: "lp_read no_sub no_cb p = (Some (Inr rows), p1) \<Longrightarrow>
    lp_consume p1 (int (length rows)) = (Inr (), p') \<Longrightarrow>
    pipe_step \<lparr>pr_pipe = p, pr_script = ws, pr_got = g, pr_done = False\<rparr>
              \<lparr>pr_pipe = p', pr_script = ws,
               pr_got = g @ map Some rows @ (if lp_end_of_interval p' then [None] else []), pr_done = False\<rparr>"
| step_eof: "lp_read no_sub no_cb p = (Some (Inl EmptyPipeError), p') \<Longrightarrow>
    pipe_step \<lparr>pr_pipe = p, pr_script = ws, pr_got = g, pr_done = False\<rparr>
              \<lparr>pr_pipe = p', pr_script = ws, pr_got = g, pr_done = True\<rparr>"

inductive_cases pipe_stepE: "pipe_step c c'"

definition queue_items :: "row list option list \<Rightarrow> row option list" where
  "queue_items q = concat (map (\<lambda>b. case b of None \<Rightarrow> [None] | Some rs \<Rightarrow> map Some rs) q)"

definition script_items :: "wop list \<Rightarrow> row option list" where
  "script_items ws = concat (map (\<lambda>w. case w of Break \<Rightarrow> [None] | Put rs \<Rightarrow> map Some rs) ws)"

lemma items_simps [simp]:
  "queue_items [] = []" "queue_items (None # q) = None # queue_items q"
  "queue_items (Some b # q) = map Some b @ queue_items q" "queue_items (q @ q') = queue_items q @ queue_items q'"
  "script_items [] = []" "script_items (Break # ws) = None # script_items ws"
  "script_items (Put rs # ws) = map Some rs @ script_items ws"
  by (simp_all add: queue_items_def script_items_def)

lemma queue_items_split:
  "queue_items q = map Some (q_before q) @ (if None \<in> set q then [None] else []) @ queue_items (q_after q)"
proof (induction q)
  case (Cons b q)
  then show ?case by (cases b) auto
qed simp

text \<open>A plain pipe: not failed, no cache, no subscribers, nothing left in the read buffer.\<close>

definition lp_plain :: "unit local_pipe \<Rightarrow> bool" where
  "lp_plain p = (lp_ok p \<and> \<not> lp_failed p \<and> \<not> lp_caching p \<and> lp_subscribers p = [] \<and> lp_buffer p = []
     \<and> \<not> lp_reread p)"

definition run_inv :: "row option list \<Rightarrow> pipe_run \<Rightarrow> bool" where
  "run_inv items c =
     (lp_plain (pr_pipe c)
      \<and> (\<exists>d. pr_got c @ d @ queue_items (lp_queue (pr_pipe c)) @ script_items (pr_script c) = items
            \<and> (d = [] \<or> pr_done c \<and> d = [None]))
      \<and> (lp_closed (pr_pipe c) \<longrightarrow> pr_script c = []) \<and> (pr_done c \<longrightarrow> lp_closed (pr_pipe c)))"

definition run_measure :: "pipe_run \<Rightarrow> nat" where
  "run_measure c = 2 * length (pr_script c) + length (lp_queue (pr_pipe c))
     + (if lp_closed (pr_pipe c) then 0 else 1) + (if pr_done c then 0 else 1)"

lemma put_rows_plain:
  assumes "lp_plain p" "\<not> lp_closed p"
  shows "put_rows p rows =
    (if rows = [] then (Some (Inr ()), p)
     else if lp_full p then (None, p\<lparr>lp_subscribers := []\<rparr>)
     else (Some (Inr ()), p\<lparr>lp_subscribers := [], lp_queue := lp_queue p @ [Some rows],
                           lp_queued_rows := lp_queued_rows p + int (length rows)\<rparr>))"
  using assms
  by (auto simp: put_rows_def lp_write_def lp_plain_def validate_data_def apply_dtype_def lp_send_def
      lp_enqueue_def lp_full_def Let_def)

lemma break_plain:
  assumes "lp_plain p" "\<not> lp_closed p"
  shows "lp_close_interval no_sub no_cb p =
    (if lp_full p then (None, p)
     else (Some (Inr ()), p\<lparr>lp_queue := lp_queue p @ [None], lp_subscribers := []\<rparr>))"
  using assms by (simp add: lp_close_interval_def lp_plain_def Let_def)

lemma close_plain:
  assumes "lp_plain p" "\<not> lp_closed p"
  shows "\<exists>p'. lp_close no_sub no_cb p = (Some (Inr ()), p') \<and> lp_plain p' \<and> lp_closed p'
    \<and> lp_queue p' = lp_queue p"
  using assms by (auto simp: lp_close_def lp_plain_def lp_ok_def Let_def)

lemma read_plain:
  assumes "lp_plain p"
  shows "lp_read no_sub no_cb p =
    (if lp_queue p = [] \<and> \<not> lp_closed p then (None, p\<lparr>lp_break := False\<rparr>)
     else
       (let p1 = p\<lparr>lp_last_read := (lp_last_read p \<or> lp_queue p = []),
                  lp_queue := q_after (lp_queue p),
                  lp_queued_rows := lp_queued_rows p - int (length (q_before (lp_queue p))),
                  lp_break := (None \<in> set (lp_queue p)), lp_buffer := q_before (lp_queue p)\<rparr>
        in if q_before (lp_queue p) = [] \<and> lp_closed p then (Some (Inl EmptyPipeError), p1)
           else (Some (Inr (q_before (lp_queue p))), p1)))"
proof -
  let ?p = "p\<lparr>lp_break := False\<rparr>"
  have ok: "lp_ok ?p" "lp_ok (?p\<lparr>lp_last_read := True\<rparr>)"
    using assms by (simp_all add: lp_plain_def lp_ok_def)
  have "lp_read no_sub no_cb p = lp_poll ?p" using assms by (simp add: lp_read_def lp_plain_def)
  then show ?thesis
    using assms lp_read_queue_ok [OF ok(1)] lp_read_queue_ok [OF ok(2)]
    by (auto simp: lp_poll_def Let_def lp_plain_def)
qed

lemma run_step_inv:
  assumes "pipe_step c c'" "run_inv items c"
  shows "run_inv items c' \<and> run_measure c' < run_measure c"
  using assms(1)
proof (cases rule: pipe_step.cases)
  case (step_put p rows p' ws g b)
  then have p: "lp_plain p" "\<not> lp_closed p" using assms(2) by (auto simp: run_inv_def)
  show ?thesis
    using step_put assms(2) put_rows_plain [OF p, of rows]
    by (auto simp: run_inv_def run_measure_def lp_plain_def lp_ok_def split: if_splits)
next
  case (step_break p p' ws g b)
  then have p: "lp_plain p" "\<not> lp_closed p" using assms(2) by (auto simp: run_inv_def)
  show ?thesis
    using step_break assms(2) break_plain [OF p]
    by (auto simp: run_inv_def run_measure_def lp_plain_def lp_ok_def split: if_splits)
next
  case (step_close p p' g b)
  then show ?thesis
    using assms(2) close_plain [of p] by (auto simp: run_inv_def run_measure_def)
next
  case (step_read p rows p1 p' ws g)
  have p: "lp_plain p" using step_read(1) assms(2) by (auto simp: run_inv_def)
  have q: "lp_queue p \<noteq> []" using step_read(3) read_plain [OF p] by (auto simp: Let_def split: if_splits)
  have items: "queue_items (lp_queue p) = map Some (q_before (lp_queue p))
      @ (if None \<in> set (lp_queue p) then [None] else []) @ queue_items (q_after (lp_queue p))"
    by (rule queue_items_split)
  have rows: "queue_rows (lp_queue p) = q_before (lp_queue p) @ queue_rows (q_after (lp_queue p))"
    by (rule q_split)
  define p2 where "p2 = p\<lparr>lp_last_read := (lp_last_read p \<or> lp_queue p = []), lp_queue := q_after (lp_queue p),
    lp_queued_rows := lp_queued_rows p - int (length (q_before (lp_queue p))),
    lp_break := (None \<in> set (lp_queue p)), lp_buffer := q_before (lp_queue p)\<rparr>"
  have r: "rows = q_before (lp_queue p)" "p1 = p2"
    using step_read(3) read_plain [OF p] q by (auto simp: Let_def p2_def split: if_splits)
  have "p' = p2\<lparr>lp_buffer := []\<rparr>"
    using step_read(4) r by (auto simp: lp_consume_def p2_def split: if_splits)
  then have "lp_plain p'" "lp_closed p' = lp_closed p" "lp_queue p' = q_after (lp_queue p)"
    "lp_break p' = (None \<in> set (lp_queue p))"
    using p rows by (simp_all add: p2_def lp_plain_def lp_ok_def)
  then show ?thesis
    using step_read(1,2) r(1) assms(2) items q_after_length [OF q]
    by (auto simp: run_inv_def run_measure_def lp_end_of_interval_def)
next
  case (step_eof p p' ws g)
  have p: "lp_plain p" using step_eof(1) assms(2) by (auto simp: run_inv_def)
  have e: "q_before (lp_queue p) = []" "lp_closed p"
    and p': "p' = p\<lparr>lp_last_read := (lp_last_read p \<or> lp_queue p = []), lp_queue := q_after (lp_queue p),
    lp_queued_rows := lp_queued_rows p - int (length (q_before (lp_queue p))),
    lp_break := (None \<in> set (lp_queue p)), lp_buffer := q_before (lp_queue p)\<rparr>"
    using step_eof(3) read_plain [OF p] by (auto simp: Let_def split: if_splits)
  have "lp_plain p'" "lp_closed p'" "lp_queue p' = q_after (lp_queue p)"
    using p e q_split [of "lp_queue p"] by (simp_all add: p' lp_plain_def lp_ok_def)
  moreover have "length (q_after (lp_queue p)) \<le> length (lp_queue p)"
    using q_after_length [of "lp_queue p"] by (cases "lp_queue p = []") auto
  ultimately show ?thesis
    using step_eof(1,2) e assms(2) queue_items_split [of "lp_queue p"]
    by (auto simp: run_inv_def run_measure_def)
qed

definition run_init :: "dtype \<Rightarrow> int \<Rightarrow> wop list \<Rightarrow> pipe_run" where
  "run_init d limit ws =
     \<lparr>pr_pipe = local_pipe_init d False limit, pr_script = ws, pr_got = [], pr_done = False\<rparr>"

lemma run_init_inv: "run_inv (script_items ws) (run_init d limit ws)"
  by (simp add: run_inv_def run_init_def lp_plain_def lp_ok_init local_pipe_init_def lp_ok_def)

lemma run_reachable_inv:
  assumes "pipe_step\<^sup>*\<^sup>* (run_init d limit ws) c"
  shows "run_inv (script_items ws) c"
  using assms
proof (induction rule: rtranclp_induct)
  case base
  show ?case by (rule run_init_inv)
next
  case (step y z)
  then show ?case using run_step_inv by blast
qed

text \<open>In a state that satisfies the invariant some coroutine can go on until the reader is done.\<close>

lemma run_progress:
  assumes inv: "run_inv items c" and "\<not> pr_done c"
  shows "\<exists>c'. pipe_step c c'"
proof -
  obtain p ws g where c: "c = \<lparr>pr_pipe = p, pr_script = ws, pr_got = g, pr_done = False\<rparr>"
    using assms(2) by (cases c) auto
  have p: "lp_plain p" and ws: "lp_closed p \<Longrightarrow> ws = []" using inv by (simp_all add: run_inv_def c)
  show ?thesis
  proof (cases "lp_queue p = [] \<and> \<not> lp_closed p")
    case True
    then have nf: "\<not> lp_full p" "\<not> lp_closed p" by (simp_all add: lp_full_def)
    show ?thesis
    proof (cases ws)
      case Nil
      then show ?thesis using close_plain [OF p nf(2)] step_close [OF nf(2)] c by blast
    next
      case (Cons w ws')
      show ?thesis
      proof (cases w)
        case (Put rows)
        have "\<exists>p'. put_rows p rows = (Some (Inr ()), p')" using put_rows_plain [OF p nf(2)] nf(1) by simp
        then show ?thesis using step_put [of p rows _ ws' g False] Put Cons c by blast
      next
        case Break
        have "\<exists>p'. lp_close_interval no_sub no_cb p = (Some (Inr ()), p')"
          using break_plain [OF p nf(2)] nf(1) by simp
        then show ?thesis using step_break [of p _ ws' g False] Break Cons c by blast
      qed
    qed
  next
    case False
    note rd = read_plain [OF p]
    show ?thesis
    proof (cases "q_before (lp_queue p) = [] \<and> lp_closed p")
      case True
      then have "\<exists>p'. lp_read no_sub no_cb p = (Some (Inl EmptyPipeError), p')"
        using rd False by (auto simp: Let_def)
      then show ?thesis using step_eof [of p _ ws g] c by blast
    next
      case nf: False
      then obtain p1 where p1: "lp_read no_sub no_cb p = (Some (Inr (q_before (lp_queue p))), p1)"
        "lp_buffer p1 = q_before (lp_queue p)"
        using rd False by (auto simp: Let_def)
      then have "\<exists>p'. lp_consume p1 (int (length (q_before (lp_queue p)))) = (Inr (), p')"
        by (simp add: lp_consume_def)
      then show ?thesis using step_read [OF p1(1)] c by blast
    qed
  qed
qed

lemma run_wf: "wf {(c', c). pipe_step c c' \<and> run_inv items c}"
  by (rule wf_subset [OF wf_measure [of run_measure]]) (auto dest: run_step_inv)

section \<open>Properties\<close>

text \<open>
  C17.  Nothing is reordered, repeated or invented: in every state two coroutines can reach, whatever
  the limit of the queue, what the reader got is followed by the queue and the rest of the writer's
  list, and together they are what the writer set out to write; only after the reader has finished
  can one interval mark be missing between them.
\<close>

theorem local_pipe_fifo:
  assumes "pipe_step\<^sup>*\<^sup>* (run_init d limit ws) c"
  shows "\<exists>lost. pr_got c @ lost @ queue_items (lp_queue (pr_pipe c)) @ script_items (pr_script c)
      = script_items ws \<and> (lost = [] \<or> pr_done c \<and> lost = [None])"
  using run_reachable_inv [OF assms] by (simp add: run_inv_def)

theorem local_pipe_fifo_witness:
  "\<exists>lost. pr_got (run_init demo_dtype 1 [Break]) @ lost
      @ queue_items (lp_queue (pr_pipe (run_init demo_dtype 1 [Break]))) @ script_items (pr_script (run_init demo_dtype 1 [Break]))
      = script_items [Break] \<and> (lost = [] \<or> pr_done (run_init demo_dtype 1 [Break]) \<and> lost = [None])"
  by (rule local_pipe_fifo [of demo_dtype 1 "[Break]"]) simp

text \<open>
  C18.  The two coroutines never block each other for ever, also when the queue is bounded: from every
  reachable state the reader's end is reachable, and every run from there is finite.
\<close>

theorem local_pipe_finishes:
  assumes "pipe_step\<^sup>*\<^sup>* (run_init d limit ws) c"
  shows "(\<exists>c'. pipe_step\<^sup>*\<^sup>* c c' \<and> pr_done c') \<and> {c'. pipe_step c c'} \<subseteq> {c'. run_measure c' < run_measure c}"
proof
  have "run_inv (script_items ws) c \<Longrightarrow> \<exists>c'. pipe_step\<^sup>*\<^sup>* c c' \<and> pr_done c'"
  proof (induction c rule: measure_induct_rule [of run_measure])
    case (less c)
    show ?case
    proof (cases "pr_done c")
      case False
      then obtain c1 where c1: "pipe_step c c1" using run_progress [OF less.prems] by blast
      then obtain c' where "pipe_step\<^sup>*\<^sup>* c1 c'" "pr_done c'"
        using less run_step_inv by blast
      then show ?thesis using c1 by (meson converse_rtranclp_into_rtranclp)
    qed blast
  qed
  then show "\<exists>c'. pipe_step\<^sup>*\<^sup>* c c' \<and> pr_done c'" using run_reachable_inv [OF assms] by blast
  show "{c'. pipe_step c c'} \<subseteq> {c'. run_measure c' < run_measure c}"
    using run_reachable_inv [OF assms] run_step_inv by blast
qed

theorem local_pipe_finishes_witness:
  "(\<exists>c'. pipe_step\<^sup>*\<^sup>* (run_init demo_dtype 1 [Put [[]], Break]) c' \<and> pr_done c')
    \<and> {c'. pipe_step (run_init demo_dtype 1 [Put [[]], Break]) c'}
        \<subseteq> {c'. run_measure c' < run_measure (run_init demo_dtype 1 [Put [[]], Break])}"
  by (rule local_pipe_finishes [of demo_dtype 1 "[Put [[]], Break]"]) simp

text \<open>
  Rows can be lost when the pipe is closed.  The writer writes a block, the reader takes it, and
  the writer closes the interval, writes a second block and closes the pipe: the reader takes the mark,
  finds no rows in front of it and a closed pipe, and raises \<open>EmptyPipeError\<close> with the second block
  still in the queue.
\<close>

lemma lost_run:
  fixes d :: dtype and r1 r2 :: row
  defines "p0 \<equiv> local_pipe_init d False 0 :: unit local_pipe"
  shows "pipe_step\<^sup>*\<^sup>* (run_init d 0 [Put [r1], Break, Put [r2]])
    \<lparr>pr_pipe = p0\<lparr>lp_queue := [Some [r2]], lp_queued_rows := 1, lp_break := True, lp_closed := True\<rparr>,
     pr_script = [], pr_got = [Some r1], pr_done = True\<rparr>"
proof -
  note defs = p0_def local_pipe_init_def put_rows_def lp_write_def validate_data_def apply_dtype_def
    lp_send_def lp_enqueue_def lp_full_def lp_close_interval_def lp_close_def lp_read_def lp_poll_def
    lp_read_queue_def slice_assign_def lp_consume_def lp_end_of_interval_def Let_def
  let ?s = "\<lambda>p ws g b. \<lparr>pr_pipe = p, pr_script = ws, pr_got = g, pr_done = b\<rparr>"
  let ?p1 = "p0\<lparr>lp_queue := [Some [r1]], lp_queued_rows := 1\<rparr>"
  let ?p3 = "p0\<lparr>lp_queue := [None]\<rparr>"
  let ?p4 = "p0\<lparr>lp_queue := [None, Some [r2]], lp_queued_rows := 1\<rparr>"
  have "pipe_step (?s p0 [Put [r1], Break, Put [r2]] [] False) (?s ?p1 [Break, Put [r2]] [] False)"
    by (rule step_put) (simp add: defs)
  moreover have "pipe_step (?s ?p1 [Break, Put [r2]] [] False) (?s p0 [Break, Put [r2]] [Some r1] False)"
    using step_read [of ?p1 "[r1]" "p0\<lparr>lp_buffer := [r1]\<rparr>" p0 "[Break, Put [r2]]" "[]"]
    by (simp add: defs)
  moreover have "pipe_step (?s p0 [Break, Put [r2]] [Some r1] False) (?s ?p3 [Put [r2]] [Some r1] False)"
    by (rule step_break) (simp add: defs)
  moreover have "pipe_step (?s ?p3 [Put [r2]] [Some r1] False) (?s ?p4 [] [Some r1] False)"
    by (rule step_put) (simp add: defs)
  moreover have "pipe_step (?s ?p4 [] [Some r1] False) (?s (?p4\<lparr>lp_closed := True\<rparr>) [] [Some r1] False)"
    by (rule step_close) (simp_all add: defs)
  moreover have "pipe_step (?s (?p4\<lparr>lp_closed := True\<rparr>) [] [Some r1] False)
      (?s (p0\<lparr>lp_queue := [Some [r2]], lp_queued_rows := 1, lp_break := True, lp_closed := True\<rparr>) []
        [Some r1] True)"
    by (rule step_eof) (simp add: defs)
  ultimately show ?thesis by (simp add: run_init_def p0_def)
qed

lemma local_pipe_loses_after_break:
  "\<exists>c. pipe_step\<^sup>*\<^sup>* (run_init d 0 [Put [r1], Break, Put [r2]]) c \<and> pr_done c
     \<and> pr_got c = [Some r1] \<and> queue_rows (lp_queue (pr_pipe c)) = [r2]"
  using lost_run [of d r1 r2] by (intro exI conjI) (assumption, simp_all)

end
