(* ===== verification/Output_Pipe.thy ===== *)
theory Output_Pipe
  imports Pipe_Layout
begin

text \<open>
  \<open>src/src/joule/models/pipes/output_pipe.py\<close>: the writing end of a byte stream.  The writer is the
  list of the bytes it has been given (\<open>op_wire\<close>) and whether it is open.  Subscribers are values of
  a type \<open>'s\<close> whose \<open>write\<close> and \<open>close\<close> are parameters.  The cache array is the list of its filled rows,
  so \<open>_cache_index\<close> is the length of that list, with the size of the array beside it.
\<close>

record 's output_pipe =
  op_dtype :: dtype
  op_writer :: bool
  op_wire :: "byte list"
  op_closed :: bool
  op_subscribers :: "'s list"
  op_caching :: bool
  op_cache_size :: nat
  op_cache :: "row list"
  op_close_cb :: bool
  op_cb_runs :: nat

text \<open>The constructor; \<open>w\<close> says whether it is given a writer or has to open one on demand.\<close>

definition output_pipe_init :: "dtype \<Rightarrow> bool \<Rightarrow> bool \<Rightarrow> 's output_pipe" where
  "output_pipe_init d w cb =
     \<lparr>op_dtype = d, op_writer = w, op_wire = [], op_closed = False, op_subscribers = [],
      op_caching = False, op_cache_size = 0, op_cache = [], op_close_cb = cb, op_cb_runs = 0\<rparr>"

definition op_subscribe :: "'s output_pipe \<Rightarrow> 's \<Rightarrow> 's output_pipe" where
  "op_subscribe p s = p\<lparr>op_subscribers := op_subscribers p @ [s]\<rparr>"

definition op_send :: "(row list \<Rightarrow> 's \<Rightarrow> unit res \<times> 's) \<Rightarrow> 's output_pipe \<Rightarrow> row list
    \<Rightarrow> unit res \<times> 's output_pipe" where
  "op_send sw p rows =
     (let (r, subs) = each_sub (sw rows) (op_subscribers p);
          p = p\<lparr>op_writer := True, op_subscribers := subs\<rparr>
      in case r of
           Inl e \<Rightarrow> (Inl e, p)
         | Inr _ \<Rightarrow> (Inr (), p\<lparr>op_wire := op_wire p @ concat rows\<rparr>))"

definition op_flush_cache :: "(row list \<Rightarrow> 's \<Rightarrow> unit res \<times> 's) \<Rightarrow> 's output_pipe
    \<Rightarrow> unit res \<times> 's output_pipe" where
  "op_flush_cache sw p =
     (if op_closed p then (Inl (PipeError ''Pipe is closed''), p)
      else if op_cache p \<noteq> [] then
        (case op_send sw p (op_cache p) of
           (Inl e, p) \<Rightarrow> (Inl e, p)
         | (Inr _, p) \<Rightarrow> (Inr (), p\<lparr>op_cache := []\<rparr>))
      else (Inr (), p))"

definition op_enable_cache :: "'s output_pipe \<Rightarrow> nat \<Rightarrow> 's output_pipe" where
  "op_enable_cache p lines = p\<lparr>op_caching := True, op_cache_size := lines, op_cache := []\<rparr>"

text \<open>The loop of \<open>write\<close> over the rows when the cache is on.\<close>

fun op_cache_rows :: "(row list \<Rightarrow> 's \<Rightarrow> unit res \<times> 's) \<Rightarrow> row list \<Rightarrow> 's output_pipe
    \<Rightarrow> unit res \<times> 's output_pipe" where
  "op_cache_rows sw [] p = (Inr (), p)"
| "op_cache_rows sw (r # rs) p =
     (if op_cache_size p \<le> length (op_cache p) then (Inl PyIndexError, p)
      else
        (let p = p\<lparr>op_cache := op_cache p @ [r]\<rparr>
         in if op_cache_size p \<le> length (op_cache p) then
              (case op_flush_cache sw p of
                 (Inl e, p) \<Rightarrow> (Inl e, p)
               | (Inr _, p) \<Rightarrow> op_cache_rows sw rs p)
            else op_cache_rows sw rs p))"

definition op_write :: "(row list \<Rightarrow> 's \<Rightarrow> unit res \<times> 's) \<Rightarrow> (dtype \<Rightarrow> 'v \<Rightarrow> 'v list \<Rightarrow> row)
    \<Rightarrow> 's output_pipe \<Rightarrow> 'v pydata \<Rightarrow> unit res \<times> 's output_pipe" where
  "op_write sw cast p data =
     (if op_closed p then (Inl (PipeError ''Cannot write to a closed pipe''), p)
      else (case validate_data data of
              Inl e \<Rightarrow> (Inl e, p)
            | Inr False \<Rightarrow> (Inr (), p)
            | Inr True \<Rightarrow>
                (case apply_dtype cast (op_dtype p) data of
                   Inl e \<Rightarrow> (Inl e, p)
                 | Inr sdata \<Rightarrow>
                     if op_caching p then op_cache_rows sw sdata p else op_send sw p sdata)))"

definition op_close_interval :: "(row list \<Rightarrow> 's \<Rightarrow> unit res \<times> 's) \<Rightarrow> 's output_pipe
    \<Rightarrow> unit res \<times> 's output_pipe" where
  "op_close_interval sw p =
     (if op_closed p then (Inl (PipeError ''Pipe is closed''), p)
      else if \<not> op_writer p then (Inr (), p)
      else (case (if op_caching p then op_flush_cache sw p else (Inr (), p)) of
              (Inl e, p) \<Rightarrow> (Inl e, p)
            | (Inr _, p) \<Rightarrow> (Inr (), p\<lparr>op_wire := op_wire p @ zero_row (op_dtype p)\<rparr>)))"

definition op_close_interval_nowait :: "'s output_pipe \<Rightarrow> unit res \<times> 's output_pipe" where
  "op_close_interval_nowait p =
     (if op_closed p then (Inl (PipeError ''Pipe is closed''), p)
      else if \<not> op_writer p then (Inr (), p)
      else (Inr (), p\<lparr>op_cache := [], op_wire := op_wire p @ zero_row (op_dtype p)\<rparr>))"

definition op_close :: "(row list \<Rightarrow> 's \<Rightarrow> unit res \<times> 's) \<Rightarrow> ('s \<Rightarrow> unit res \<times> 's)
    \<Rightarrow> 's output_pipe \<Rightarrow> unit res \<times> 's output_pipe" where
  "op_close sw sc p =
     (if op_closed p then (Inr (), p)
      else (case (if op_caching p then op_flush_cache sw p else (Inr (), p)) of
              (Inl e, p) \<Rightarrow> (Inl e, p)
            | (Inr _, p) \<Rightarrow>
                (let p = (if op_close_cb p then p\<lparr>op_cb_runs := Suc (op_cb_runs p)\<rparr> else p);
                     p = p\<lparr>op_writer := False\<rparr>;
                     (r, subs) = each_sub sc (op_subscribers p);
                     p = p\<lparr>op_subscribers := subs\<rparr>
                 in case r of Inl e \<Rightarrow> (Inl e, p) | Inr _ \<Rightarrow> (Inr (), p\<lparr>op_closed := True\<rparr>))))"

section \<open>The stream a pipe has accepted\<close>

text \<open>What has been sent followed by what waits in the cache.\<close>

definition op_stream :: "'s output_pipe \<Rightarrow> byte list" where
  "op_stream p = op_wire p @ concat (op_cache p)"

text \<open>
  An open pipe without subscribers whose cache, when it is on, has a free slot, and which holds no
  cached rows when it is off.
\<close>

definition op_ok :: "'s output_pipe \<Rightarrow> bool" where
  "op_ok p = (\<not> op_closed p \<and> op_subscribers p = []
     \<and> (if op_caching p then length (op_cache p) < op_cache_size p else op_cache p = []))"

lemma op_send_ok:
  "op_subscribers p = [] \<Longrightarrow>
     op_send sw p rows = (Inr (), p\<lparr>op_writer := True, op_wire := op_wire p @ concat rows\<rparr>)"
  by (simp add: op_send_def)

lemma op_cache_rows_ok:
  assumes "op_ok p" "op_caching p"
  shows "\<exists>p'. op_cache_rows sw rows p = (Inr (), p') \<and> op_ok p' \<and> op_caching p'
    \<and> op_stream p' = op_stream p @ concat rows \<and> op_dtype p' = op_dtype p"
  using assms
proof (induction rows arbitrary: p)
  case Nil
  then show ?case by simp
next
  case (Cons r rows)
  let ?p = "p\<lparr>op_cache := op_cache p @ [r]\<rparr>"
  let ?q = "p\<lparr>op_writer := True, op_wire := op_wire p @ concat (op_cache p) @ r, op_cache := []\<rparr>"
  have open_p: "\<not> op_closed p" "op_subscribers p = []" "length (op_cache p) < op_cache_size p"
    using Cons.prems by (auto simp: op_ok_def)
  show ?case
  proof (cases "op_cache_size p \<le> Suc (length (op_cache p))")
    case True
    have "op_flush_cache sw ?p = (Inr (), ?q)"
      using open_p by (simp add: op_flush_cache_def op_send_ok)
    moreover have "op_ok ?q" "op_caching ?q" using Cons.prems open_p by (simp_all add: op_ok_def)
    ultimately show ?thesis
      using Cons.IH [of ?q] True open_p by (auto simp: op_stream_def)
  next
    case False
    then have "op_ok ?p" "op_caching ?p" using Cons.prems by (simp_all add: op_ok_def)
    then show ?thesis using Cons.IH [of ?p] False open_p by (auto simp: op_stream_def)
  qed
qed

lemma op_write_ok:
  assumes "op_ok p" "validate_data data = Inr b"
    and "b \<Longrightarrow> apply_dtype cast (op_dtype p) data = Inr rows" "\<not> b \<Longrightarrow> rows = []"
  shows "\<exists>p'. op_write sw cast p data = (Inr (), p') \<and> op_ok p'
    \<and> op_stream p' = op_stream p @ concat rows \<and> op_dtype p' = op_dtype p
    \<and> op_caching p' = op_caching p"
proof (cases b)
  case False
  then show ?thesis using assms by (simp add: op_write_def op_ok_def)
next
  case True
  show ?thesis
  proof (cases "op_caching p")
    case caching: True
    then show ?thesis
      using True assms op_cache_rows_ok [OF assms(1) caching, of sw rows]
      by (auto simp: op_write_def op_ok_def)
  next
    case False
    then show ?thesis
      using True assms by (simp add: op_write_def op_ok_def op_send_ok op_stream_def)
  qed
qed

lemma op_close_interval_ok:
  assumes "op_ok p" "op_writer p"
  shows "\<exists>p'. op_close_interval sw p = (Inr (), p') \<and> op_ok p' \<and> op_cache p' = []
    \<and> op_wire p' = op_stream p @ zero_row (op_dtype p) \<and> op_dtype p' = op_dtype p
    \<and> op_caching p' = op_caching p \<and> op_writer p'"
  using assms
  by (auto simp: op_close_interval_def op_flush_cache_def op_ok_def op_send_ok op_stream_def)

section \<open>Properties\<close>



text \<open>
  \<open>OutputPipe.close_interval\<close> before the writer exists returns without sending the rows that wait
  in the cache and without marking the break: rows written before and after it reach the other end as
  one interval.
\<close>

lemma output_pipe_break_lost:
  "let p0 = op_enable_cache (output_pipe_init d False False :: unit output_pipe) 2;
       sw = (\<lambda>r s. (Inr (), s)); cast = (\<lambda>d t es. []);
       (_, p1) = op_write sw cast p0 (Structured d [r1] :: nat pydata);
       (res, p2) = op_close_interval sw p1;
       (_, p3) = op_write sw cast p2 (Structured d [r2] :: nat pydata)
   in res = Inr () \<and> p2 = p1 \<and> op_wire p3 = r1 @ r2"
  by (simp add: op_enable_cache_def output_pipe_init_def op_write_def validate_data_def apply_dtype_def
      op_close_interval_def op_flush_cache_def op_send_def Let_def)

end
