(* ===== verification/Data_Transfer.thy ===== *)
theory Data_Transfer
  imports Input_Pipe Local_Pipe Output_Pipe
begin

text \<open>
  The loops of \<open>src/src/joule/api/data.py\<close> that move blocks of rows from one pipe to another or onto
  the connection: \<open>_historic_reader\<close>, which fills the pipe handed to the user from the server's
  response, and \<open>_data_sender\<close>, which turns the user's pipe into the body of a request, with the
  checks of \<open>utilities/misc.py\<close> on every block.  Both are written against the interface of a pipe: the
  locale \<open>row_source\<close> is what a reader relies on, \<open>row_sink\<close> what a writer relies on.  A result \<open>None\<close>
  of an operation means that the coroutine waits; the loops take fuel.
\<close>

section \<open>The code\<close>

text \<open>\<open>"closed pipe" in str(e)\<close> for a \<open>PipeError\<close>.\<close>

fun closed_pipe_error :: "exn \<Rightarrow> bool" where
  "closed_pipe_error (PipeError m) = occurs_in ''closed pipe'' m"
| "closed_pipe_error _ = False"

text \<open>Handing one block over: \<open>write\<close>, then \<open>close_interval\<close> if the block ended an interval.\<close>

definition hand_over :: "('s \<Rightarrow> row list \<Rightarrow> unit res option \<times> 's) \<Rightarrow> ('s \<Rightarrow> unit res option \<times> 's)
    \<Rightarrow> row list \<Rightarrow> bool \<Rightarrow> 's \<Rightarrow> unit res option \<times> 's" where
  "hand_over wr brk data break_flag out =
     (case wr out data of
        (Some (Inr _), out) \<Rightarrow> if break_flag then brk out else (Some (Inr ()), out)
      | (r, out) \<Rightarrow> (r, out))"

fun historic_loop :: "nat \<Rightarrow> ('p \<Rightarrow> bool res option \<times> 'p) \<Rightarrow> ('p \<Rightarrow> row list res option \<times> 'p)
    \<Rightarrow> ('p \<Rightarrow> int \<Rightarrow> unit res \<times> 'p) \<Rightarrow> ('p \<Rightarrow> bool)
    \<Rightarrow> ('s \<Rightarrow> row list \<Rightarrow> unit res option \<times> 's) \<Rightarrow> ('s \<Rightarrow> unit res option \<times> 's)
    \<Rightarrow> 'p \<Rightarrow> 's \<Rightarrow> (unit res \<times> 'p \<times> 's) option" where
  "historic_loop 0 is_empty rd consume eoi wr brk p out = None"
| "historic_loop (Suc n) is_empty rd consume eoi wr brk p out =
     (case is_empty p of
        (None, p) \<Rightarrow> None
      | (Some (Inl e), p) \<Rightarrow> Some (Inl e, p, out)
      | (Some (Inr True), p) \<Rightarrow> Some (Inr (), p, out)
      | (Some (Inr False), p) \<Rightarrow>
          (case rd p of
             (None, p) \<Rightarrow> None
           | (Some (Inl e), p) \<Rightarrow> Some (Inl e, p, out)
           | (Some (Inr data), p) \<Rightarrow>
               (case consume p (int (length data)) of
                  (Inl e, p) \<Rightarrow> Some (Inl e, p, out)
                | (Inr _, p) \<Rightarrow>
                    (case hand_over wr brk data (eoi p) out of
                       (None, out) \<Rightarrow> None
                     | (Some (Inl e), out) \<Rightarrow>
                         Some (if closed_pipe_error e then Inr () else Inl e, p, out)
                     | (Some (Inr _), out) \<Rightarrow>
                         historic_loop n is_empty rd consume eoi wr brk p out))))"

text \<open>The timestamp of a row: its first eight bytes, little endian, signed.\<close>

definition row_ts :: "row \<Rightarrow> int" where
  "row_ts r = sint (word_rcat (rev (take 8 r)) :: 64 word)"

text \<open>
  \<open>np.isnan\<close> of an element: the exponent bits are all one and the fraction is not zero.  Integers, and
  the timestamp among them, are never NaN.
\<close>

definition elem_is_nan :: "kind \<Rightarrow> nat \<Rightarrow> byte list \<Rightarrow> bool" where
  "elem_is_nan k sz b =
     (k = KFloat \<and>
      (if sz = 8 then b ! 7 AND 0x7F = 0x7F \<and> b ! 6 AND 0xF0 = 0xF0
           \<and> (b ! 6 AND 0x0F \<noteq> 0 \<or> \<not> list_all (\<lambda>x. x = 0) (take 6 b))
       else if sz = 4 then b ! 3 AND 0x7F = 0x7F \<and> b ! 2 AND 0x80 = 0x80
           \<and> (b ! 2 AND 0x7F \<noteq> 0 \<or> \<not> list_all (\<lambda>x. x = 0) (take 2 b))
       else b ! 1 AND 0x7C = 0x7C \<and> (b ! 1 AND 0x03 \<noteq> 0 \<or> b ! 0 \<noteq> 0)))"

definition validate_values :: "dtype \<Rightarrow> row list \<Rightarrow> bool" where
  "validate_values d data =
     list_all (\<lambda>r. list_all (\<lambda>e. \<not> elem_is_nan (elem_kind d) (elem_size d) e)
                    (chunks (elem_size d) (drop 8 r))) data"

text \<open>The generator \<open>_data_sender\<close>: the chunks it yields, or the exception that ends the request.\<close>

fun data_sender :: "nat \<Rightarrow> ('p \<Rightarrow> bool res option \<times> 'p) \<Rightarrow> ('p \<Rightarrow> row list res option \<times> 'p)
    \<Rightarrow> ('p \<Rightarrow> int \<Rightarrow> unit res \<times> 'p) \<Rightarrow> ('p \<Rightarrow> bool) \<Rightarrow> dtype
    \<Rightarrow> int option \<Rightarrow> byte list list \<Rightarrow> 'p \<Rightarrow> (unit res \<times> byte list list) option" where
  "data_sender 0 is_empty rd consume eoi d last_ts out p = None"
| "data_sender (Suc n) is_empty rd consume eoi d last_ts out p =
     (case is_empty p of
        (None, p) \<Rightarrow> None
      | (Some (Inl e), p) \<Rightarrow> Some (Inl e, out)
      | (Some (Inr True), p) \<Rightarrow> Some (Inr (), out @ [zero_row d])
      | (Some (Inr False), p) \<Rightarrow>
          (case rd p of
             (None, p) \<Rightarrow> None
           | (Some (Inl e), p) \<Rightarrow> Some (Inl e, out)
           | (Some (Inr data), p) \<Rightarrow>
               if \<not> timestamps_are_monotonic (map row_ts data) last_ts
               then Some (Inl (ApiError ''timestamps are not monotonic''), out)
               else if \<not> validate_values d data
               then Some (Inl (ApiError ''invalid values (NaN or Inf)''), out)
               else
                 (let out = (if data \<noteq> [] then out @ [concat data] else out);
                      last_ts = (if data \<noteq> [] then Some (row_ts (last data)) else last_ts);
                      out = (if eoi p then out @ [zero_row d] else out)
                  in case consume p (int (length data)) of
                       (Inl e, p) \<Rightarrow> Some (Inl e, out)
                     | (Inr _, p) \<Rightarrow> data_sender n is_empty rd consume eoi d last_ts out p)))"

section \<open>The interfaces\<close>

text \<open>
  A source holds a list of items, rows and interval marks.  One turn of a reader's loop, which asks
  whether the pipe is empty, reads and consumes all it got, either finds the end of the pipe or
  removes some rows and at most one mark from the front.  \<open>missed\<close> says what may still be in the source
  when it reports its end.
\<close>

locale row_source =
  fixes is_empty :: "'p \<Rightarrow> bool res option \<times> 'p"
    and rd :: "'p \<Rightarrow> row list res option \<times> 'p"
    and consume :: "'p \<Rightarrow> int \<Rightarrow> unit res \<times> 'p"
    and eoi :: "'p \<Rightarrow> bool"
    and holds :: "'p \<Rightarrow> row option list \<Rightarrow> bool"
    and missed :: "row option list \<Rightarrow> bool"
  assumes turn: "holds p items \<Longrightarrow>
     (\<exists>p'. is_empty p = (Some (Inr True), p') \<and> missed items)
   \<or> (\<exists>p1 p2 p3 rows rest. is_empty p = (Some (Inr False), p1) \<and> rd p1 = (Some (Inr rows), p2)
        \<and> consume p2 (int (length rows)) = (Inr (), p3) \<and> eoi p3 = eoi p2
        \<and> items = map Some rows @ (if eoi p2 then [None] else []) @ rest
        \<and> holds p3 rest \<and> length rest < length items)"

text \<open>
  A sink accepts every block and every mark and keeps them in order, each item as \<open>enc\<close> stores it.
\<close>

locale row_sink =
  fixes wr :: "'s \<Rightarrow> row list \<Rightarrow> unit res option \<times> 's"
    and brk :: "'s \<Rightarrow> unit res option \<times> 's"
    and accepted :: "'s \<Rightarrow> 'b list"
    and enc :: "row option \<Rightarrow> 'b list"
    and good :: "'s \<Rightarrow> bool"
  assumes write_law: "good s \<Longrightarrow>
      \<exists>s'. wr s rows = (Some (Inr ()), s') \<and> good s'
        \<and> accepted s' = accepted s @ concat (map (\<lambda>r. enc (Some r)) rows)"
    and break_law: "good s \<Longrightarrow>
      \<exists>s'. brk s = (Some (Inr ()), s') \<and> good s' \<and> accepted s' = accepted s @ enc None"

locale transfer = row_source is_empty rd consume eoi holds missed + row_sink wr brk accepted enc good
  for is_empty :: "'p \<Rightarrow> bool res option \<times> 'p" and rd consume eoi holds missed
    and wr :: "'s \<Rightarrow> row list \<Rightarrow> unit res option \<times> 's" and brk and accepted :: "'s \<Rightarrow> 'b list" and enc good
begin

definition stored :: "row option list \<Rightarrow> 'b list" where
  "stored items = concat (map enc items)"

lemma hand_over_ok:
  "good s \<Longrightarrow> \<exists>s'. hand_over wr brk rows b s = (Some (Inr ()), s') \<and> good s'
     \<and> accepted s' = accepted s @ stored (map Some rows @ (if b then [None] else []))"
  using write_law [of s rows] break_law by (fastforce simp: hand_over_def stored_def comp_def)

lemma loop_copies:
  assumes "holds p items" "good s" "length items < n"
  shows "\<exists>p' s' lost. historic_loop n is_empty rd consume eoi wr brk p s = Some (Inr (), p', s') \<and> good s'
     \<and> (\<exists>taken. items = taken @ lost \<and> accepted s' = accepted s @ stored taken) \<and> missed lost"
  using assms
proof (induction n arbitrary: p s items)
  case 0
  then show ?case by simp
next
  case (Suc n)
  from turn [OF Suc.prems(1)] show ?case
  proof (elim disjE exE conjE)
    fix p'
    assume "is_empty p = (Some (Inr True), p')" "missed items"
    then show ?thesis using Suc.prems(2) by (intro exI [of _ p'] exI [of _ s] exI [of _ items]) (auto simp: stored_def)
  next
    fix p1 p2 p3 rows rest
    assume t: "is_empty p = (Some (Inr False), p1)" "rd p1 = (Some (Inr rows), p2)"
      "consume p2 (int (length rows)) = (Inr (), p3)" "eoi p3 = eoi p2"
      and items: "items = map Some rows @ (if eoi p2 then [None] else []) @ rest"
      and rest: "holds p3 rest" "length rest < length items"
    obtain s1 where s1: "hand_over wr brk rows (eoi p3) s = (Some (Inr ()), s1)" "good s1"
      "accepted s1 = accepted s @ stored (map Some rows @ (if eoi p3 then [None] else []))"
      using hand_over_ok [OF Suc.prems(2)] by blast
    obtain p' s' lost taken where ih:
      "historic_loop n is_empty rd consume eoi wr brk p3 s1 = Some (Inr (), p', s')" "good s'" "missed lost"
      "rest = taken @ lost" "accepted s' = accepted s1 @ stored taken"
      using Suc.IH [OF rest(1) s1(2)] rest(2) Suc.prems(3) by fastforce
    then show ?thesis
      using t s1 items
      by (intro exI [of _ p'] exI [of _ s'] exI [of _ lost]) (auto simp: stored_def)
  qed
qed

end

section \<open>The local pipe and the byte pipes as sources and sinks\<close>

definition lp_holds :: "unit local_pipe \<Rightarrow> row option list \<Rightarrow> bool" where
  "lp_holds p items = (lp_plain p \<and> lp_closed p \<and> queue_items (lp_queue p) = items)"

definition lp_missed :: "row option list \<Rightarrow> bool" where
  "lp_missed items = (items = [] \<or> hd items = None)"

lemma lp_is_empty_closed:
  assumes "lp_plain p" "lp_closed p"
  shows "lp_is_empty no_sub no_cb p =
     (let p1 = p\<lparr>lp_last_read := (lp_last_read p \<or> lp_queue p = []),
                lp_queue := q_after (lp_queue p),
                lp_queued_rows := lp_queued_rows p - int (length (q_before (lp_queue p))),
                lp_break := (None \<in> set (lp_queue p)), lp_buffer := q_before (lp_queue p)\<rparr>
      in if q_before (lp_queue p) = [] then (Some (Inr True), p1)
         else (Some (Inr False), p1\<lparr>lp_reread := True\<rparr>))"
  using assms read_plain [OF assms(1)] by (simp add: lp_is_empty_def Let_def lp_plain_def)

lemma q_before_Nil: "q_before q = [] \<Longrightarrow> lp_missed (queue_items q)"
proof (induction q)
  case (Cons b q)
  then show ?case by (cases b) (auto simp: lp_missed_def)
qed (simp add: lp_missed_def)

interpretation local_source: row_source "lp_is_empty no_sub no_cb" "lp_read no_sub no_cb" lp_consume
  lp_end_of_interval lp_holds lp_missed
proof
  fix p items
  assume h: "lp_holds p items"
  then have p: "lp_plain p" "lp_closed p" and items: "items = queue_items (lp_queue p)"
    by (auto simp: lp_holds_def)
  define p1 where "p1 = p\<lparr>lp_last_read := (lp_last_read p \<or> lp_queue p = []),
     lp_queue := q_after (lp_queue p),
     lp_queued_rows := lp_queued_rows p - int (length (q_before (lp_queue p))),
     lp_break := (None \<in> set (lp_queue p)), lp_buffer := q_before (lp_queue p)\<rparr>"
  note e = lp_is_empty_closed [OF p, folded p1_def]
  show "(\<exists>p'. lp_is_empty no_sub no_cb p = (Some (Inr True), p') \<and> lp_missed items)
    \<or> (\<exists>p1 p2 p3 rows rest. lp_is_empty no_sub no_cb p = (Some (Inr False), p1)
        \<and> lp_read no_sub no_cb p1 = (Some (Inr rows), p2)
        \<and> lp_consume p2 (int (length rows)) = (Inr (), p3) \<and> lp_end_of_interval p3 = lp_end_of_interval p2
        \<and> items = map Some rows @ (if lp_end_of_interval p2 then [None] else []) @ rest
        \<and> lp_holds p3 rest \<and> length rest < length items)"
  proof (cases "q_before (lp_queue p) = []")
    case True
    then show ?thesis using e items q_before_Nil by (simp add: Let_def)
  next
    case False
    let ?rows = "q_before (lp_queue p)" and ?rest = "queue_items (q_after (lp_queue p))"
    have "lp_read no_sub no_cb (p1\<lparr>lp_reread := True\<rparr>) = (Some (Inr ?rows), p1\<lparr>lp_reread := False\<rparr>)"
      by (simp add: lp_read_def p1_def)
    moreover have "lp_consume (p1\<lparr>lp_reread := False\<rparr>) (int (length ?rows))
        = (Inr (), p1\<lparr>lp_reread := False, lp_buffer := []\<rparr>)"
      using False by (simp add: lp_consume_def p1_def)
    moreover have "items = map Some ?rows @ (if None \<in> set (lp_queue p) then [None] else []) @ ?rest"
      unfolding items by (rule queue_items_split)
    moreover have "lp_holds (p1\<lparr>lp_reread := False, lp_buffer := []\<rparr>) ?rest"
      using p q_split [of "lp_queue p"] by (simp add: lp_holds_def lp_plain_def lp_ok_def p1_def)
    ultimately show ?thesis
      using e False
      by (intro disjI2 exI [of _ "p1\<lparr>lp_reread := True\<rparr>"] exI [of _ "p1\<lparr>lp_reread := False\<rparr>"]
          exI [of _ "p1\<lparr>lp_reread := False, lp_buffer := []\<rparr>"] exI [of _ ?rows] exI [of _ ?rest])
        (simp add: Let_def lp_end_of_interval_def p1_def)
  qed
qed

text \<open>A local pipe without a limit takes everything.\<close>

definition lp_unbounded :: "unit local_pipe \<Rightarrow> bool" where
  "lp_unbounded p = (lp_plain p \<and> \<not> lp_closed p \<and> lp_maxsize p \<le> 0)"

interpretation local_sink: row_sink put_rows "lp_close_interval no_sub no_cb"
  "\<lambda>p. queue_items (lp_queue p)" "\<lambda>i. [i]" lp_unbounded
proof
  fix p rows
  assume "lp_unbounded p"
  then have p: "lp_plain p" "\<not> lp_closed p" "\<not> lp_full p" "lp_maxsize p \<le> 0"
    by (auto simp: lp_unbounded_def lp_full_def)
  show "\<exists>p'. put_rows p rows = (Some (Inr ()), p') \<and> lp_unbounded p'
      \<and> queue_items (lp_queue p') = queue_items (lp_queue p) @ concat (map (\<lambda>r. [Some r]) rows)"
    using put_rows_plain [OF p(1,2), of rows] p by (simp add: lp_unbounded_def lp_plain_def lp_ok_def)
  show "\<exists>p'. lp_close_interval no_sub no_cb p = (Some (Inr ()), p') \<and> lp_unbounded p'
      \<and> queue_items (lp_queue p') = queue_items (lp_queue p) @ [None]"
    using break_plain [OF p(1,2)] p by (simp add: lp_unbounded_def lp_plain_def lp_ok_def)
qed

text \<open>An open \<open>OutputPipe\<close> whose writer exists; an item is a row, or the token for a mark.\<close>

definition op_put :: "unit output_pipe \<Rightarrow> row list \<Rightarrow> unit res option \<times> unit output_pipe" where
  "op_put p rows =
     map_prod Some id (op_write no_sub (\<lambda>d t es. []) p (Structured (op_dtype p) rows :: unit pydata))"

definition op_break :: "unit output_pipe \<Rightarrow> unit res option \<times> unit output_pipe" where
  "op_break p = map_prod Some id (op_close_interval no_sub p)"

definition row_items :: "dtype \<Rightarrow> row list \<Rightarrow> row option list" where
  "row_items d rs = map (\<lambda>r. if r = zero_row d then None else Some r) rs"

definition item_row :: "dtype \<Rightarrow> row option \<Rightarrow> row" where
  "item_row d i = (case i of None \<Rightarrow> zero_row d | Some r \<Rightarrow> r)"

definition op_open :: "dtype \<Rightarrow> unit output_pipe \<Rightarrow> bool" where
  "op_open d p = (op_ok p \<and> op_writer p \<and> op_dtype p = d \<and> \<not> op_caching p)"

interpretation output_sink: row_sink op_put op_break op_wire "item_row d" "op_open d"
proof
  fix p rows
  assume p: "op_open d p"
  then have c: "op_cache p = []" "op_dtype p = d" "op_ok p" "op_writer p" "\<not> op_caching p"
    by (auto simp: op_open_def op_ok_def)
  have "op_put p rows = (Some (Inr ()), if rows = [] then p else p\<lparr>op_wire := op_wire p @ concat rows\<rparr>)"
    using c by (cases p) (auto simp: op_put_def op_write_def validate_data_def apply_dtype_def op_ok_def op_send_def)
  then show "\<exists>p'. op_put p rows = (Some (Inr ()), p') \<and> op_open d p'
      \<and> op_wire p' = op_wire p @ concat (map (\<lambda>r. item_row d (Some r)) rows)"
    using c by (auto simp: op_open_def op_ok_def item_row_def)
  show "\<exists>p'. op_break p = (Some (Inr ()), p') \<and> op_open d p' \<and> op_wire p' = op_wire p @ item_row d None"
    using c op_close_interval_ok [of p no_sub]
    by (auto simp: op_break_def op_open_def op_stream_def item_row_def)
qed

definition ip_source :: "input_pipe \<Rightarrow> row option list \<Rightarrow> bool" where
  "ip_source p items = (ip_ok p \<and> last_index p = 0 \<and> 0 < ip_buffer_size p \<and> \<not> ip_closed p \<and> \<not> ip_reread p
     \<and> (\<exists>rs. pending_rows p rs \<and> items = row_items (ip_dtype p) rs))"

definition ip_missed :: "row option list \<Rightarrow> bool" where
  "ip_missed items = (length items \<le> 1)"

abbreviation ip_empty_call :: "input_pipe \<Rightarrow> bool res option \<times> input_pipe" where
  "ip_empty_call p \<equiv> map_prod Some id (ip_is_empty p)"

abbreviation ip_read_call :: "input_pipe \<Rightarrow> row list res option \<times> input_pipe" where
  "ip_read_call p \<equiv> map_prod Some id (ip_read p)"

lemma row_items_append: "row_items d (xs @ ys) = row_items d xs @ row_items d ys"
  by (simp add: row_items_def)

lemma row_items_rows: "zero_row d \<notin> set xs \<Longrightarrow> row_items d xs = map Some xs"
  by (auto simp: row_items_def)

lemma ip_source_read:
  assumes "ip_source p items"
  shows "(\<exists>p'. ip_read p = (Inl EmptyPipeError, p') \<and> ip_missed items)
   \<or> (\<exists>p' p3 rows rest. ip_read p = (Inr rows, p') \<and> buffered p' = rows \<and> ip_closed p' = ip_closed p \<and> \<not> ip_reread p'
        \<and> ip_consume p' (int (length rows)) = (Inr (), p3) \<and> ip_end_of_interval p3 = ip_end_of_interval p'
        \<and> items = map Some rows @ (if ip_end_of_interval p' then [None] else []) @ rest
        \<and> ip_source p3 rest \<and> length rest < length items)"
proof -
  obtain rs where p: "ip_ok p" "last_index p = 0" "last_index p < ip_buffer_size p" "\<not> ip_closed p"
    "\<not> ip_reread p" and rs: "pending_rows p rs" and items: "items = row_items (ip_dtype p) rs"
    using assms by (auto simp: ip_source_def)
  note spec = ip_read_read_spec [OF p(1,3) rs p(4,5)]
  obtain r p' where rd: "ip_read p = (r, p')" by fastforce
  show ?thesis
  proof (cases r)
    case (Inl e)
    then show ?thesis using spec rd items by (auto simp: read_spec_def ip_missed_def row_items_def)
  next
    case (Inr out)
    let ?z = "zero_row (ip_dtype p)"
    obtain rs' where out: "buffered p' = out" "?z \<notin> set out"
      "rs = out @ (if ip_interval_break p' then [?z] else []) @ rs'" "ip_ok p'" "pending_rows p' rs'"
      "rs \<noteq> [] \<longrightarrow> length rs' < length rs" "rs \<noteq> []" "ip_closed p' = ip_closed p"
      "ip_dtype p' = ip_dtype p" "ip_reread p' = ip_reread p" "ip_buffer_size p' = ip_buffer_size p"
      "last_index p' \<le> Suc (ip_buffer_size p)"
      using spec rd Inr p(2) by (auto simp: read_spec_def)
    have len: "length out = last_index p'" using out(1,4) by (auto simp: ip_ok_def)
    obtain p3 where p3: "ip_consume p' (int (length out)) = (Inr (), p3)" "buffered p3 = drop (length out) out"
      "ip_ok p3" "stream_of p3 = stream_of p'" "last_index p3 = 0" "ip_dtype p3 = ip_dtype p"
      "ip_closed p3 = ip_closed p" "ip_reread p3 = ip_reread p" "ip_buffer_size p3 = ip_buffer_size p"
      "ip_interval_break p3 = ip_interval_break p'"
      using ip_consume_rows [OF out(4), of "length out"] len out by auto
    have "ip_source p3 (row_items (ip_dtype p) rs')"
      using p p3 out(5,9) by (auto simp: ip_source_def pending_rows_def)
    moreover have "items = map Some out @ (if ip_interval_break p' then [None] else [])
        @ row_items (ip_dtype p) rs'"
      using items out(2,3) by (simp add: row_items_append row_items_rows) (simp add: row_items_def)
    moreover have "length (row_items (ip_dtype p) rs') < length items"
      using out(6,7) items by (simp add: row_items_def)
    ultimately show ?thesis
      using p(5) p3 rd Inr out(1,8,10)
      by (intro disjI2 exI [of _ p'] exI [of _ p3] exI [of _ out] exI [of _ "row_items (ip_dtype p) rs'"])
        (simp add: ip_end_of_interval_def)
  qed
qed

interpretation input_source: row_source ip_empty_call ip_read_call ip_consume ip_end_of_interval
  ip_source ip_missed
proof
  fix p items
  assume src: "ip_source p items"
  then have r: "\<not> ip_reread p" "\<not> ip_closed p" by (simp_all add: ip_source_def)
  from ip_source_read [OF src]
  show "(\<exists>p'. ip_empty_call p = (Some (Inr True), p') \<and> ip_missed items)
   \<or> (\<exists>p1 p2 p3 rows rest. ip_empty_call p = (Some (Inr False), p1) \<and> ip_read_call p1 = (Some (Inr rows), p2)
        \<and> ip_consume p2 (int (length rows)) = (Inr (), p3) \<and> ip_end_of_interval p3 = ip_end_of_interval p2
        \<and> items = map Some rows @ (if ip_end_of_interval p2 then [None] else []) @ rest
        \<and> ip_source p3 rest \<and> length rest < length items)"
  proof (elim disjE exE conjE)
    fix p'
    assume "ip_read p = (Inl EmptyPipeError, p')" "ip_missed items"
    then show ?thesis using r by (auto simp: ip_is_empty_def)
  next
    fix p' p3 rows rest
    assume rd: "ip_read p = (Inr rows, p')" "buffered p' = rows" "ip_closed p' = ip_closed p" "\<not> ip_reread p'"
      and t: "ip_consume p' (int (length rows)) = (Inr (), p3)" "ip_end_of_interval p3 = ip_end_of_interval p'"
        "items = map Some rows @ (if ip_end_of_interval p' then [None] else []) @ rest"
        "ip_source p3 rest" "length rest < length items"
    have "ip_empty_call p = (Some (Inr False), p'\<lparr>ip_reread := True\<rparr>)"
      using rd r by (simp add: ip_is_empty_def ip_reread_last_def)
    moreover have "ip_read_call (p'\<lparr>ip_reread := True\<rparr>) = (Some (Inr rows), p')"
      using rd r by (simp add: ip_read_def)
    ultimately show ?thesis using t
      by (intro disjI2 exI [of _ "p'\<lparr>ip_reread := True\<rparr>"] exI [of _ p'] exI [of _ p3] exI [of _ rows] exI [of _ rest]) simp
  qed
qed

lemma item_rows [simp]:
  "concat (map (item_row d) (map Some rs)) = concat rs" "concat (map (item_row d \<circ> Some) rs) = concat rs"
  "item_row d None = zero_row d"
  by (induction rs) (simp_all add: item_row_def)

section \<open>The sender\<close>

definition rows_of :: "row option list \<Rightarrow> row list" where
  "rows_of items = concat (map (\<lambda>i. case i of None \<Rightarrow> [] | Some r \<Rightarrow> [r]) items)"

lemma rows_of_simps [simp]:
  "rows_of [] = []" "rows_of (xs @ ys) = rows_of xs @ rows_of ys" "rows_of (map Some rs) = rs"
  "rows_of (None # xs) = rows_of xs"
  by (induction rs) (simp_all add: rows_of_def)

text \<open>Rows behind others are in order when they are behind the last of them.\<close>

lemma sorted_chain:
  assumes "sorted_wrt (<) (opt_list last_ts @ map row_ts rows)"
  shows "sorted_wrt (<) (opt_list last_ts @ map row_ts (rows @ xs))
    \<longleftrightarrow> sorted_wrt (<) (opt_list (if rows \<noteq> [] then Some (row_ts (last rows)) else last_ts) @ map row_ts xs)"
proof (cases rows rule: rev_cases)
  case (snoc ys y)
  then show ?thesis using assms
    by (auto simp: sorted_wrt_append opt_list_def split: option.splits intro: less_trans)
qed simp

context row_source
begin

lemma sender_result:
  assumes "holds p items" "length items < n"
  shows "\<exists>res out' taken lost. data_sender n is_empty rd consume eoi d last_ts out p = Some (res, out')
     \<and> items = taken @ lost
     \<and> concat out' = concat out @ concat (map (item_row d) taken) @ (if res = Inr () then zero_row d else [])
     \<and> sorted_wrt (<) (opt_list last_ts @ map row_ts (rows_of taken)) \<and> validate_values d (rows_of taken)
     \<and> (res = Inr () \<longrightarrow> missed lost)
     \<and> (res \<noteq> Inr () \<longrightarrow> \<not> sorted_wrt (<) (opt_list last_ts @ map row_ts (rows_of items))
                          \<or> \<not> validate_values d (rows_of items))"
  using assms
proof (induction n arbitrary: p items last_ts out)
  case 0
  then show ?case by simp
next
  case (Suc n)
  have v [simp]: "validate_values d []" "validate_values d (xs @ ys) \<longleftrightarrow> validate_values d xs \<and> validate_values d ys"
    for xs ys by (simp_all add: validate_values_def)
  have one: "sorted_wrt (<) (opt_list last_ts)" by (simp add: opt_list_def split: option.split)
  from turn [OF Suc.prems(1)] show ?case
  proof (elim disjE exE conjE)
    fix p'
    assume "is_empty p = (Some (Inr True), p')" "missed items"
    then show ?thesis using one
      by (intro exI [of _ "Inr ()"] exI [of _ "out @ [zero_row d]"] exI [of _ "[]"] exI [of _ items]) simp
  next
    fix p1 p2 p3 rows rest
    assume t: "is_empty p = (Some (Inr False), p1)" "rd p1 = (Some (Inr rows), p2)"
      "consume p2 (int (length rows)) = (Inr (), p3)" "eoi p3 = eoi p2"
      and items: "items = map Some rows @ (if eoi p2 then [None] else []) @ rest"
      and rest: "holds p3 rest" "length rest < length items"
    have ritems: "rows_of items = rows @ rows_of rest" using items by simp
    show ?thesis
    proof (cases "timestamps_are_monotonic (map row_ts rows) last_ts \<and> validate_values d rows")
      case False
      then have "\<exists>e. data_sender (Suc n) is_empty rd consume eoi d last_ts out p = Some (Inl e, out)"
        using t by auto
      then obtain e where e: "data_sender (Suc n) is_empty rd consume eoi d last_ts out p = Some (Inl e, out)"
        by blast
      have "\<not> sorted_wrt (<) (opt_list last_ts @ map row_ts (rows_of items)) \<or> \<not> validate_values d (rows_of items)"
        using False by (auto simp: monotonic_iff ritems sorted_wrt_append)
      then show ?thesis using e one
        by (intro exI [of _ "Inl e"] exI [of _ out] exI [of _ "[]"] exI [of _ items]) simp
    next
      case True
      let ?out = "(if rows \<noteq> [] then out @ [concat rows] else out) @ (if eoi p2 then [zero_row d] else [])"
      let ?last = "if rows \<noteq> [] then Some (row_ts (last rows)) else last_ts"
      let ?block = "map Some rows @ (if eoi p2 then [None] else [])"
      have step: "data_sender (Suc n) is_empty rd consume eoi d last_ts out p
          = data_sender n is_empty rd consume eoi d ?last ?out p3"
        using t True by (auto simp: Let_def)
      have srt: "sorted_wrt (<) (opt_list last_ts @ map row_ts rows)" using True by (simp add: monotonic_iff)
      note chain = sorted_chain [OF srt]
      obtain res out' taken lost where ih:
        "data_sender n is_empty rd consume eoi d ?last ?out p3 = Some (res, out')" "rest = taken @ lost"
        "concat out' = concat ?out @ concat (map (item_row d) taken) @ (if res = Inr () then zero_row d else [])"
        "sorted_wrt (<) (opt_list ?last @ map row_ts (rows_of taken))" "validate_values d (rows_of taken)"
        "res = Inr () \<longrightarrow> missed lost"
        "res \<noteq> Inr () \<longrightarrow> \<not> sorted_wrt (<) (opt_list ?last @ map row_ts (rows_of rest))
                          \<or> \<not> validate_values d (rows_of rest)"
        using Suc.IH [OF rest(1), of ?last ?out] rest(2) Suc.prems(2) by fastforce
      have out: "concat ?out = concat out @ concat (map (item_row d) ?block)" by simp
      show ?thesis
      proof (rule exI [of _ res], rule exI [of _ out'], rule exI [of _ "?block @ taken"],
          rule exI [of _ lost], intro conjI)
        show "data_sender (Suc n) is_empty rd consume eoi d last_ts out p = Some (res, out')"
          using step ih(1) by simp
        show "items = (?block @ taken) @ lost" using items ih(2) by simp
        show "concat out' = concat out @ concat (map (item_row d) (?block @ taken))
            @ (if res = Inr () then zero_row d else [])"
          unfolding ih(3) out by simp
        have "rows_of (?block @ taken) = rows @ rows_of taken" by simp
        then show "sorted_wrt (<) (opt_list last_ts @ map row_ts (rows_of (?block @ taken)))"
          "validate_values d (rows_of (?block @ taken))"
          using ih(4,5) True chain by simp_all
        show "res = Inr () \<longrightarrow> missed lost" by (rule ih(6))
        show "res \<noteq> Inr () \<longrightarrow> \<not> sorted_wrt (<) (opt_list last_ts @ map row_ts (rows_of items))
            \<or> \<not> validate_values d (rows_of items)"
          using ih(7) chain [of "rows_of rest"] by (simp add: ritems)
      qed
    qed
  qed
qed

end

section \<open>Properties\<close>

interpretation input_to_local: transfer ip_empty_call ip_read_call ip_consume ip_end_of_interval ip_source
  ip_missed put_rows "lp_close_interval no_sub no_cb" "\<lambda>p. queue_items (lp_queue p)" "\<lambda>i. [i]" lp_unbounded
  by unfold_locales

lemma ip_source_init:
  assumes "0 < bs" "list_all (clean_row d) rs" "rd_bytes rd = concat rs"
  shows "ip_source (input_pipe_init d bs (Some rd) [] cb) (row_items d rs)"
  using assms
  by (auto simp: ip_source_def input_pipe_init_ok pending_rows_def stream_of_def)
    (auto simp: input_pipe_init_def)

lemma stored_id: "input_to_local.stored items = items"
  unfolding input_to_local.stored_def by (induction items) auto

text \<open>
  What \<open>_historic_reader\<close> puts into the user's pipe is what the server sent: for rows \<open>rs\<close> whose
  bytes arrive in pieces of any size, the loop ends normally (fuel above the number of rows is
  enough), and the queue of the pipe is extended by the rows in order with a mark in place of each
  token; at most the last item is missing.
\<close>

lemma historic_reader_delivers:
  assumes "0 < bs" "list_all (clean_row d) rs" "rd_bytes rd = concat rs" "lp_unbounded out" "length rs < n"
  shows "\<exists>p' out' taken lost.
    historic_loop n ip_empty_call ip_read_call ip_consume ip_end_of_interval put_rows
        (lp_close_interval no_sub no_cb) (input_pipe_init d bs (Some rd) [] cb) out = Some (Inr (), p', out')
    \<and> row_items d rs = taken @ lost \<and> length lost \<le> 1
    \<and> queue_items (lp_queue out') = queue_items (lp_queue out) @ taken"
proof -
  have "length (row_items d rs) < n" using assms(5) by (simp add: row_items_def)
  from input_to_local.loop_copies [OF ip_source_init [OF assms(1-3)] assms(4) this, of cb]
  show ?thesis unfolding stored_id ip_missed_def by blast
qed

lemma historic_reader_delivers_witness:
  "let rd = [Some (take 5 (demo_row 1)), None, Some (drop 5 (demo_row 1) @ demo_row 0)];
       rs = [demo_row 1, demo_row 0]; out = local_pipe_init demo_dtype False 0
   in \<exists>p' out' taken lost.
    historic_loop 3 ip_empty_call ip_read_call ip_consume ip_end_of_interval put_rows
        (lp_close_interval no_sub no_cb) (input_pipe_init demo_dtype 4 (Some rd) [] False) out = Some (Inr (), p', out')
    \<and> row_items demo_dtype rs = taken @ lost \<and> length lost \<le> 1
    \<and> queue_items (lp_queue out') = queue_items (lp_queue out) @ taken"
  unfolding Let_def
proof (rule historic_reader_delivers)
  show "list_all (clean_row demo_dtype) [demo_row 1, demo_row 0]" by code_simp
  show "rd_bytes [Some (take 5 (demo_row 1)), None, Some (drop 5 (demo_row 1) @ demo_row 0)]
      = concat [demo_row 1, demo_row 0]" by code_simp
qed (simp_all add: lp_unbounded_def lp_plain_def lp_ok_def local_pipe_init_def)

text \<open>
  \<open>_data_sender\<close> on a closed local pipe that holds the items: it ends with enough fuel; what it
  yields is the rows in order with a token for every mark, and one token at the very end.  When it ends
  normally the timestamps it sent increase strictly and no value is NaN, and it sent all items up to the
  end the pipe reported; it fails only if some timestamp does not increase or some value is NaN.
\<close>

lemma data_sender_sends:
  assumes "lp_holds p items" "length items < n"
  shows "\<exists>res chunks taken lost.
    data_sender n (lp_is_empty no_sub no_cb) (lp_read no_sub no_cb) lp_consume lp_end_of_interval d None [] p
      = Some (res, chunks)
    \<and> items = taken @ lost
    \<and> concat chunks = concat (map (item_row d) taken) @ (if res = Inr () then zero_row d else [])
    \<and> sorted_wrt (<) (map row_ts (rows_of taken)) \<and> validate_values d (rows_of taken)
    \<and> (res = Inr () \<longrightarrow> lp_missed lost)
    \<and> (res \<noteq> Inr () \<longrightarrow> \<not> sorted_wrt (<) (map row_ts (rows_of items)) \<or> \<not> validate_values d (rows_of items))"
  using local_source.sender_result [OF assms, of d None "[]"] by (simp add: opt_list_def)

lemma data_sender_sends_witness:
  "let p = (local_pipe_init demo_dtype False 0)\<lparr>lp_queue := [Some [demo_row 1], None], lp_queued_rows := 1,
              lp_closed := True\<rparr>;
       items = [Some (demo_row 1), None]
   in \<exists>res chunks taken lost.
    data_sender 3 (lp_is_empty no_sub no_cb) (lp_read no_sub no_cb) lp_consume lp_end_of_interval demo_dtype
      None [] p = Some (res, chunks)
    \<and> items = taken @ lost
    \<and> concat chunks = concat (map (item_row demo_dtype) taken) @ (if res = Inr () then zero_row demo_dtype else [])
    \<and> sorted_wrt (<) (map row_ts (rows_of taken)) \<and> validate_values demo_dtype (rows_of taken)
    \<and> (res = Inr () \<longrightarrow> lp_missed lost)
    \<and> (res \<noteq> Inr () \<longrightarrow> \<not> sorted_wrt (<) (map row_ts (rows_of items))
                        \<or> \<not> validate_values demo_dtype (rows_of items))"
  unfolding Let_def
  by (rule data_sender_sends)
    (simp_all add: lp_holds_def lp_plain_def lp_ok_def local_pipe_init_def)



text \<open>
  The check whose error message speaks of NaN and Inf accepts infinite values: a row whose only
  element is the floating point number plus infinity passes \<open>validate_values\<close>, and a NaN does not.
\<close>

lemma validate_values_accepts_inf:
  "validate_values demo_dtype [[1,0,0,0,0,0,0,0, 0,0,0,0,0,0,0xF0,0x7F]]
   \<and> \<not> validate_values demo_dtype [[1,0,0,0,0,0,0,0, 0,0,0,0,0,0,0xF8,0x7F]]"
  by code_simp

end
