(* ===== verification/Pgcopy.thy ===== *)
theory Pgcopy
  imports Pipe_Layout
begin

text \<open>
  \<open>data_to_bytes\<close> and \<open>bytes_to_data\<close> of \<open>src/src/joule/models/data_store/psql_helpers.py\<close>: the binary
  COPY format of PostgreSQL.  A row of the stream is little endian; in the file every number is big
  endian and preceded by its length, and times count from the year 2000.  The arithmetic on times
  wraps at 64 bits.
\<close>

section \<open>Numbers as bytes\<close>

fun le_nat :: "byte list \<Rightarrow> nat" where
  "le_nat [] = 0"
| "le_nat (b # bs) = unat b + 256 * le_nat bs"

fun nat_le :: "nat \<Rightarrow> nat \<Rightarrow> byte list" where
  "nat_le 0 k = []"
| "nat_le (Suc n) k = word_of_nat (k mod 256) # nat_le n (k div 256)"

definition nat_be :: "nat \<Rightarrow> nat \<Rightarrow> byte list" where
  "nat_be n k = rev (nat_le n k)"

lemma length_nat_le [simp]: "length (nat_le n k) = n"
  by (induction n arbitrary: k) auto

lemma length_nat_be [simp]: "length (nat_be n k) = n"
  by (simp add: nat_be_def)

lemma nat_le_le_nat: "nat_le (length bs) (le_nat bs) = bs"
proof (induction bs)
  case (Cons b bs)
  have "unat b < 256" using unsigned_less [of b] by simp
  then show ?case using Cons by (simp add: unat_word_ariths)
qed simp

lemma le_nat_nat_le: "le_nat (nat_le n k) = k mod 256 ^ n"
proof (induction n arbitrary: k)
  case (Suc n)
  have "unat (word_of_nat (k mod 256) :: byte) = k mod 256" by (simp add: unat_of_nat)
  then show ?case using Suc by (simp add: mod_mult2_eq add.commute)
qed simp

lemma le_nat_bound: "le_nat bs < 256 ^ length bs"
proof (induction bs)
  case (Cons b bs)
  have "unat b < 256" using unsigned_less [of b] by simp
  then show ?case using Cons by simp
qed simp

section \<open>The format\<close>

definition postgres_ts_offset :: nat where
  "postgres_ts_offset = 946684800000000"

definition pg_header :: "byte list" where
  "pg_header = [80, 71, 67, 79, 80, 89, 10, 255, 13, 10, 0, 0, 0, 0, 0, 0, 0, 0, 0]"

definition pg_footer :: "byte list" where
  "pg_footer = [255, 255]"

definition pg_elem :: "nat \<Rightarrow> byte list \<Rightarrow> byte list" where
  "pg_elem sz e = nat_be 4 sz @ rev e"

definition pg_row :: "dtype \<Rightarrow> row \<Rightarrow> byte list" where
  "pg_row d r =
     nat_be 2 (elem_count d + 1) @ nat_be 4 8
     @ nat_be 8 ((le_nat (take 8 r) + (2 ^ 64 - postgres_ts_offset)) mod 2 ^ 64)
     @ concat (map (pg_elem (elem_size d)) (chunks (elem_size d) (drop 8 r)))"

definition data_to_bytes :: "dtype \<Rightarrow> row list \<Rightarrow> byte list" where
  "data_to_bytes d rows = pg_header @ concat (map (pg_row d) rows) @ pg_footer"

definition pg_row_size :: "dtype \<Rightarrow> nat" where
  "pg_row_size d = 14 + elem_count d * (4 + elem_size d)"

definition pg_unrow :: "dtype \<Rightarrow> byte list \<Rightarrow> row" where
  "pg_unrow d t =
     nat_le 8 ((le_nat (rev (take 8 (drop 6 t))) + postgres_ts_offset) mod 2 ^ 64)
     @ concat (map (\<lambda>e. rev (drop 4 e)) (chunks (4 + elem_size d) (drop 14 t)))"

definition bytes_to_data :: "dtype \<Rightarrow> byte list \<Rightarrow> row list res" where
  "bytes_to_data d buffer =
     (let nbytes = length buffer; size = pg_row_size d in
      if take (length pg_header) buffer \<noteq> pg_header then Inl (DataError ''bad pgcopy header'')
      else if (int nbytes - 21) mod int size \<noteq> 0 then Inl (DataError ''invalid number of data bytes'')
      else
        (let data = take (nbytes - 21) (drop (length pg_header) buffer);
             rx_footer = drop (nbytes - 21) (drop (length pg_header) buffer)
         in if pg_footer \<noteq> rx_footer then Inl (DataError ''ERROR: invalid footer'')
            else Inr (map (pg_unrow d) (chunks size data))))"

section \<open>The round trip\<close>

lemma chunks_exact:
  assumes "0 < n" "length bs = k * n"
  shows "list_all (\<lambda>r. length r = n) (chunks n bs)" "concat (chunks n bs) = bs" "length (chunks n bs) = k"
  using chunks_split [OF assms(1), of bs] length_chunks [OF assms(1), of bs] assms by auto

lemma pg_elems_length:
  "list_all (\<lambda>e. length e = sz) es \<Longrightarrow> length (concat (map (pg_elem sz) es)) = length es * (4 + sz)"
  by (induction es) (auto simp: pg_elem_def)

lemma pg_elems_chunks:
  "list_all (\<lambda>e. length e = sz) es \<Longrightarrow> chunks (4 + sz) (concat (map (pg_elem sz) es)) = map (pg_elem sz) es"
proof (induction es)
  case (Cons e es)
  then show ?case using chunks_append [of "4 + sz" "pg_elem sz e"] by (simp add: pg_elem_def)
qed simp

lemma row_elems:
  assumes "length r = itemsize d" "0 < elem_size d"
  shows "list_all (\<lambda>e. length e = elem_size d) (chunks (elem_size d) (drop 8 r))"
    "concat (chunks (elem_size d) (drop 8 r)) = drop 8 r"
    "length (chunks (elem_size d) (drop 8 r)) = elem_count d"
  using chunks_exact [OF assms(2), of "drop 8 r" "elem_count d"] assms(1) by (simp_all add: itemsize_def)

lemma length_pg_row:
  assumes "length r = itemsize d" "0 < elem_size d"
  shows "length (pg_row d r) = pg_row_size d"
  using pg_elems_length [OF row_elems(1) [OF assms]] row_elems(3) [OF assms]
  by (simp add: pg_row_def pg_row_size_def)

lemma time_wraps: "((x + (2 ^ 64 - postgres_ts_offset)) mod 2 ^ 64 + postgres_ts_offset) mod 2 ^ 64 = x mod 2 ^ 64"
proof -
  have "((x + (2 ^ 64 - postgres_ts_offset)) mod 2 ^ 64 + postgres_ts_offset) mod 2 ^ 64
      = (x + (2 ^ 64 - postgres_ts_offset) + postgres_ts_offset) mod 2 ^ 64"
    by (rule mod_add_left_eq)
  also have "x + (2 ^ 64 - postgres_ts_offset) + postgres_ts_offset = x + 2 ^ 64"
    by (simp add: postgres_ts_offset_def)
  finally show ?thesis by simp
qed

lemma pg_unrow_row:
  assumes "length r = itemsize d" "0 < elem_size d"
  shows "pg_unrow d (pg_row d r) = r"
proof -
  let ?es = "chunks (elem_size d) (drop 8 r)"
  have l8: "length (take 8 r) = 8" using assms(1) by (simp add: itemsize_def)
  have "nat_le 8 (le_nat (take 8 r) mod 2 ^ 64) = take 8 r"
    using nat_le_le_nat [of "take 8 r"] le_nat_bound [of "take 8 r"] l8 by simp
  moreover have "take 8 (drop 6 (pg_row d r))
      = nat_be 8 ((le_nat (take 8 r) + (2 ^ 64 - postgres_ts_offset)) mod 2 ^ 64)"
    by (simp add: pg_row_def)
  moreover have "le_nat (rev (nat_be 8 y)) = y mod 2 ^ 64" for y
    using le_nat_nat_le [of 8 y] by (simp add: nat_be_def)
  moreover have "drop 14 (pg_row d r) = concat (map (pg_elem (elem_size d)) ?es)"
    by (simp add: pg_row_def)
  moreover have "concat (map (\<lambda>e. rev (drop 4 e)) (map (pg_elem (elem_size d)) ?es)) = drop 8 r"
    using row_elems(2) [OF assms] by (simp add: pg_elem_def comp_def)
  ultimately show ?thesis
    using pg_elems_chunks [OF row_elems(1) [OF assms]] time_wraps [of "le_nat (take 8 r)"]
    by (simp add: pg_unrow_def)
qed

section \<open>Properties\<close>

text \<open>
  C15.  What \<open>data_to_bytes\<close> writes for COPY is read back by \<open>bytes_to_data\<close> as the same rows: for any
  number of rows of the stream's size, whatever their times (the shift to the year 2000 wraps and
  wraps back) and elements.
\<close>

theorem pgcopy_round_trip:
  assumes "0 < elem_size d" "\<forall>r \<in> set rows. length r = itemsize d"
  shows "bytes_to_data d (data_to_bytes d rows) = Inr rows"
proof -
  have rl: "list_all (\<lambda>t. length t = pg_row_size d) (map (pg_row d) rows)"
    using assms length_pg_row by (auto simp: list_all_iff)
  have pos: "0 < pg_row_size d" by (simp add: pg_row_size_def)
  have len: "length (concat (map (pg_row d) rows)) = length rows * pg_row_size d"
    using concat_length [OF rl] by simp
  have nb: "length (data_to_bytes d rows) = length rows * pg_row_size d + 21"
    by (simp only: data_to_bytes_def length_append len) (simp add: pg_header_def pg_footer_def)
  have hd: "take (length pg_header) (data_to_bytes d rows) = pg_header"
    "drop (length pg_header) (data_to_bytes d rows) = concat (map (pg_row d) rows) @ pg_footer"
    by (simp_all add: data_to_bytes_def)
  have "map (pg_unrow d) (map (pg_row d) rows) = rows"
    using assms pg_unrow_row by (auto intro!: map_idI)
  then show ?thesis
    using chunks_concat [OF pos rl, of "[]"] len
    by (simp add: bytes_to_data_def hd nb Let_def)
qed

theorem pgcopy_round_trip_witness:
  "bytes_to_data demo_dtype (data_to_bytes demo_dtype [demo_row 1, demo_row 200]) = Inr [demo_row 1, demo_row 200]"
  by (rule pgcopy_round_trip) (simp_all add: demo_dtype_def demo_row_def itemsize_def)

end
