(* ===== verification/Intervals.thy ===== *)
theory Intervals
  imports Prelude
begin

text \<open>
  \<open>src/src/joule/utilities/interval_tools.py\<close>: difference and intersection of lists of time
  intervals, used by the copy and merge commands, by the modules that compute which data is still
  missing and by the data store when it consolidates gaps.  An interval is the pair of its bounds
  in microseconds and stands for the half open range between them.

  The two entry points share \<open>interval_math_helper\<close>, which walks over the starts and ends of both
  lists in time order and asks a Boolean operator whether to include the current range; the locale
  \<open>interval_op\<close> states what that operator must satisfy and proves the helper correct once.
\<close>

type_synonym interval = "int \<times> int"

section \<open>The code\<close>

text \<open>\<open>decorate\<close>: the starts and ends of the intervals in order, tagged.\<close>

fun decorate :: "nat \<Rightarrow> nat \<Rightarrow> interval list \<Rightarrow> (int \<times> nat \<times> interval) list" where
  "decorate key_start key_end [] = []"
| "decorate key_start key_end (i # is) =
     (fst i, key_start, i) # (snd i, key_end, i) # decorate key_start key_end is"

text \<open>
  \<open>imerge\<close> for two iterators: the heap holds the current head of each, and the smaller tuple is
  yielded.  The tags of the two inputs differ, so two heads are never equal.
\<close>

definition head_le :: "int \<times> nat \<times> interval \<Rightarrow> int \<times> nat \<times> interval \<Rightarrow> bool" where
  "head_le x y = (fst x < fst y \<or> (fst x = fst y \<and> fst (snd x) \<le> fst (snd y)))"

fun imerge :: "(int \<times> nat \<times> interval) list \<Rightarrow> (int \<times> nat \<times> interval) list
    \<Rightarrow> (int \<times> nat \<times> interval) list" where
  "imerge [] ys = ys"
| "imerge xs [] = xs"
| "imerge (x # xs) (y # ys) =
     (if head_le x y then x # imerge xs (y # ys) else y # imerge (x # xs) ys)"

record sweep =
  in_src :: bool
  in_dest :: bool
  out_start :: "int option"
  result :: "interval list"

definition sweep_flags :: "nat \<Rightarrow> sweep \<Rightarrow> sweep" where
  "sweep_flags k s =
     (if k = 0 then s\<lparr>in_src := True\<rparr>
      else if k = 1 then s\<lparr>in_dest := True\<rparr>
      else if k = 2 then s\<lparr>in_src := False\<rparr>
      else if k = 3 then s\<lparr>in_dest := False\<rparr> else s)"

definition sweep_step :: "(bool \<Rightarrow> bool \<Rightarrow> bool) \<Rightarrow> sweep \<Rightarrow> int \<times> nat \<times> interval \<Rightarrow> sweep" where
  "sweep_step op s0 e =
     (let ts = fst e; s = sweep_flags (fst (snd e)) s0; incl = op (in_src s) (in_dest s)
      in if incl \<and> out_start s = None then s\<lparr>out_start := Some ts\<rparr>
         else if \<not> incl then
           (case out_start s of
              None \<Rightarrow> s
            | Some a \<Rightarrow>
                (if a \<noteq> ts then s\<lparr>result := result s @ [(a, ts)], out_start := None\<rparr>
                 else s\<lparr>out_start := None\<rparr>))
         else s)"

definition interval_math_helper ::
    "interval list \<Rightarrow> interval list \<Rightarrow> (bool \<Rightarrow> bool \<Rightarrow> bool) \<Rightarrow> interval list" where
  "interval_math_helper src dest op =
     result (foldl (sweep_step op) \<lparr>in_src = False, in_dest = False, out_start = None, result = []\<rparr>
       (imerge (decorate 0 2 src) (decorate 1 3 dest)))"

definition interval_difference :: "interval list \<Rightarrow> interval list \<Rightarrow> interval list" where
  "interval_difference src dest = interval_math_helper src dest (\<lambda>s d. s \<and> \<not> d)"

definition interval_intersection :: "interval list \<Rightarrow> interval list \<Rightarrow> interval list" where
  "interval_intersection src dest = interval_math_helper src dest (\<lambda>s d. s \<and> d)"

lemma interval_difference_examples:
  "interval_difference [(0, 10)] [(2, 4), (6, 20)] = [(0, 2), (4, 6)]"
  "interval_intersection [(0, 10), (12, 15)] [(5, 13)] = [(5, 10), (12, 13)]"
  by code_simp+

section \<open>What the intervals mean\<close>

definition covered :: "int \<Rightarrow> interval list \<Rightarrow> bool" where
  "covered t is = (\<exists>i \<in> set is. fst i \<le> t \<and> t < snd i)"

text \<open>Lists as the data store produces them: in time order, no two overlap.\<close>

fun ordered_intervals :: "interval list \<Rightarrow> bool" where
  "ordered_intervals [] = True"
| "ordered_intervals (i # is) =
     (fst i \<le> snd i \<and> (\<forall>j \<in> set is. snd i \<le> fst j) \<and> ordered_intervals is)"

definition proper_intervals :: "interval list \<Rightarrow> bool" where
  "proper_intervals is = (ordered_intervals is \<and> (\<forall>i \<in> set is. fst i < snd i))"

lemma covered_simps [simp]:
  "\<not> covered t []" "covered t (i # is) = (fst i \<le> t \<and> t < snd i \<or> covered t is)"
  "covered t (is @ js) = (covered t is \<or> covered t js)"
  by (auto simp: covered_def)

lemma ordered_intervals_append:
  "ordered_intervals (xs @ ys) \<longleftrightarrow>
     ordered_intervals xs \<and> ordered_intervals ys \<and> (\<forall>i \<in> set xs. \<forall>j \<in> set ys. snd i \<le> fst j)"
  by (induction xs) auto

section \<open>The event list\<close>

definition flag_step :: "nat \<Rightarrow> nat \<Rightarrow> bool \<Rightarrow> int \<times> nat \<times> interval \<Rightarrow> bool" where
  "flag_step on off b e = (if fst (snd e) = on then True else if fst (snd e) = off then False else b)"

abbreviation until :: "int \<Rightarrow> (int \<times> nat \<times> interval) list \<Rightarrow> (int \<times> nat \<times> interval) list" where
  "until t es \<equiv> filter (\<lambda>e. fst e \<le> t) es"

lemma decorate_keys: "e \<in> set (decorate a b is) \<Longrightarrow> fst (snd e) = a \<or> fst (snd e) = b"
  by (induction "is") auto

lemma decorate_times: "e \<in> set (decorate a b is) \<Longrightarrow> \<exists>i \<in> set is. fst e = fst i \<or> fst e = snd i"
  by (induction "is") auto

lemma ordered_bounds:
  "ordered_intervals (i # is) \<Longrightarrow> j \<in> set is \<Longrightarrow> snd i \<le> fst j \<and> snd i \<le> snd j"
  by (induction "is") force+

lemma decorate_sorted: "ordered_intervals is \<Longrightarrow> sorted (map fst (decorate a b is))"
proof (induction "is")
  case Nil
  then show ?case by simp
next
  case (Cons i "is")
  have "\<And>e. e \<in> set (decorate a b is) \<Longrightarrow> snd i \<le> fst e"
    using ordered_bounds [OF Cons.prems] by (metis decorate_times)
  then show ?case using Cons by force
qed

lemma until_later: "(\<And>e. e \<in> set es \<Longrightarrow> t < fst e) \<Longrightarrow> until t es = []"
  by (induction es) force+

lemma decorate_flag:
  assumes "ordered_intervals is" and "on \<noteq> off"
  shows "foldl (flag_step on off) False (until t (decorate on off is)) = covered t is"
  using assms(1)
proof (induction "is")
  case Nil
  then show ?case by simp
next
  case (Cons i "is")
  have later: "\<And>j. j \<in> set is \<Longrightarrow> snd i \<le> fst j \<and> snd i \<le> snd j"
    using ordered_bounds [OF Cons.prems] by blast
  show ?case
  proof (cases "t < snd i")
    case True
    have none: "until t (decorate on off is) = []"
    proof (rule until_later)
      fix e
      assume "e \<in> set (decorate on off is)"
      then obtain j where "j \<in> set is" "fst e = fst j \<or> fst e = snd j"
        using decorate_times by blast
      with later [of j] True show "t < fst e" by auto
    qed
    have "\<not> covered t is" using later True by (force simp: covered_def)
    then show ?thesis using True none by (simp add: flag_step_def)
  next
    case False
    then show ?thesis using Cons assms(2) by (simp add: flag_step_def)
  qed
qed

lemma imerge_set: "set (imerge xs ys) = set xs \<union> set ys"
  by (induction xs ys rule: imerge.induct) auto

lemma imerge_sorted:
  "sorted (map fst xs) \<Longrightarrow> sorted (map fst ys) \<Longrightarrow> sorted (map fst (imerge xs ys))"
proof (induction xs ys rule: imerge.induct)
  case (3 x xs y ys)
  then show ?case by (cases "head_le x y") (force simp: imerge_set head_le_def)+
qed auto

lemma imerge_filter_left:
  assumes "\<And>x. x \<in> set xs \<Longrightarrow> P x" and "\<And>y. y \<in> set ys \<Longrightarrow> \<not> P y"
  shows "filter P (imerge xs ys) = xs"
  using assms
proof (induction xs ys rule: imerge.induct)
  case (1 ys)
  then show ?case by (induction ys) auto
qed auto

lemma imerge_filter_right:
  assumes "\<And>x. x \<in> set xs \<Longrightarrow> \<not> P x" and "\<And>y. y \<in> set ys \<Longrightarrow> P y"
  shows "filter P (imerge xs ys) = ys"
  using assms
proof (induction xs ys rule: imerge.induct)
  case (2 x xs)
  then show ?case by (induction xs) auto
qed auto

text \<open>The flags of the sweep at time \<open>t\<close> say whether \<open>t\<close> is in the source and the destination.\<close>

lemma filter_swap_until: "until t (filter P es) = filter P (until t es)"
  by (induction es) auto

lemma merged_flag:
  assumes "ordered_intervals src" "ordered_intervals dest"
  shows "foldl (flag_step 0 2) False (until t (imerge (decorate 0 2 src) (decorate 1 3 dest)))
           = covered t src"
    and "foldl (flag_step 1 3) False (until t (imerge (decorate 0 2 src) (decorate 1 3 dest)))
           = covered t dest"
proof -
  let ?es = "imerge (decorate 0 2 src) (decorate 1 3 dest)"
  let ?P = "\<lambda>e::int \<times> nat \<times> interval. fst (snd e) \<in> {0, 2}"
  let ?Q = "\<lambda>e::int \<times> nat \<times> interval. fst (snd e) \<in> {1, 3}"
  have p: "filter ?P ?es = decorate 0 2 src"
    by (rule imerge_filter_left) (auto dest: decorate_keys)
  have q: "filter ?Q ?es = decorate 1 3 dest"
    by (rule imerge_filter_right) (auto dest: decorate_keys)
  have "foldl (flag_step 0 2) False (until t ?es) = foldl (flag_step 0 2) False (filter ?P (until t ?es))"
    by (rule foldl_filter_irrelevant [symmetric]) (auto simp: flag_step_def)
  also have "filter ?P (until t ?es) = until t (decorate 0 2 src)"
    by (simp only: filter_swap_until [symmetric] p)
  also have "foldl (flag_step 0 2) False (until t (decorate 0 2 src)) = covered t src"
    by (rule decorate_flag [OF assms(1)]) simp
  finally show "foldl (flag_step 0 2) False (until t ?es) = covered t src" .
  have "foldl (flag_step 1 3) False (until t ?es) = foldl (flag_step 1 3) False (filter ?Q (until t ?es))"
    by (rule foldl_filter_irrelevant [symmetric]) (auto simp: flag_step_def)
  also have "filter ?Q (until t ?es) = until t (decorate 1 3 dest)"
    by (simp only: filter_swap_until [symmetric] q)
  also have "foldl (flag_step 1 3) False (until t (decorate 1 3 dest)) = covered t dest"
    by (rule decorate_flag [OF assms(2)]) simp
  finally show "foldl (flag_step 1 3) False (until t ?es) = covered t dest" .
qed

section \<open>The sweep, once for every operator\<close>

locale interval_op =
  fixes op :: "bool \<Rightarrow> bool \<Rightarrow> bool"
  assumes outside: "\<not> op False False"
begin

text \<open>
  Between two events the sweep has an interval open exactly when the operator holds of the flags,
  and every bound it has written so far lies before the events that are left.
\<close>

definition sweep_ok :: "sweep \<Rightarrow> (int \<times> nat \<times> interval) list \<Rightarrow> bool" where
  "sweep_ok s es =
     ((out_start s \<noteq> None) = op (in_src s) (in_dest s)
      \<and> (\<forall>a \<in> set_option (out_start s). \<forall>e \<in> set es. a \<le> fst e))"

lemma sweep_step_flags:
  "in_src (sweep_step op s e) = flag_step 0 2 (in_src s) e"
  "in_dest (sweep_step op s e) = flag_step 1 3 (in_dest s) e"
  by (auto simp: sweep_step_def sweep_flags_def flag_step_def Let_def split: option.splits)

lemma sweep_step_out:
  "out_start (sweep_step op s e) =
     (if op (flag_step 0 2 (in_src s) e) (flag_step 1 3 (in_dest s) e)
      then (if out_start s = None then Some (fst e) else out_start s) else None)"
  by (auto simp: sweep_step_def sweep_flags_def flag_step_def Let_def split: option.splits)

lemma sweep_step_result:
  "result (sweep_step op s e) =
     (if \<not> op (flag_step 0 2 (in_src s) e) (flag_step 1 3 (in_dest s) e)
      then (case out_start s of None \<Rightarrow> result s
            | Some a \<Rightarrow> if a \<noteq> fst e then result s @ [(a, fst e)] else result s)
      else result s)"
  by (auto simp: sweep_step_def sweep_flags_def flag_step_def Let_def split: option.splits)

lemma sweep_step_ok:
  "sweep_ok s (e # es) \<Longrightarrow> sorted (map fst (e # es)) \<Longrightarrow> sweep_ok (sweep_step op s e) es"
  by (auto simp: sweep_ok_def sweep_step_out sweep_step_flags split: if_splits)

definition flags_at :: "int \<Rightarrow> sweep \<Rightarrow> (int \<times> nat \<times> interval) list \<Rightarrow> bool" where
  "flags_at t s es =
     op (foldl (flag_step 0 2) (in_src s) (until t es)) (foldl (flag_step 1 3) (in_dest s) (until t es))"

lemma sweep_covered:
  assumes "sorted (map fst es)" and "sweep_ok s es"
    and "\<not> op (foldl (flag_step 0 2) (in_src s) es) (foldl (flag_step 1 3) (in_dest s) es)"
  shows "covered t (result (foldl (sweep_step op) s es)) \<longleftrightarrow>
     covered t (result s) \<or> flags_at t s es \<and> (\<forall>a \<in> set_option (out_start s). a \<le> t)"
  using assms
proof (induction es arbitrary: s)
  case Nil
  then show ?case by (simp add: flags_at_def)
next
  case (Cons e es)
  let ?s = "sweep_step op s e"
  have later: "\<And>x. x \<in> set es \<Longrightarrow> fst e \<le> fst x" using Cons.prems(1) by simp
  have ok: "sweep_ok ?s es" by (rule sweep_step_ok [OF Cons.prems(2,1)])
  have IH: "covered t (result (foldl (sweep_step op) ?s es)) \<longleftrightarrow>
     covered t (result ?s) \<or> flags_at t ?s es \<and> (\<forall>a \<in> set_option (out_start ?s). a \<le> t)"
    using Cons.prems ok by (intro Cons.IH) (auto simp: sweep_step_flags)
  show ?case
  proof (cases "t < fst e")
    case True
    have none: "until t (e # es) = []" "until t es = []"
      using True later by (force intro: until_later)+
    have a_le: "\<And>a. out_start s = Some a \<Longrightarrow> a \<le> fst e"
      using Cons.prems(2) by (simp add: sweep_ok_def)
    show ?thesis
      using IH True none a_le Cons.prems(2)
      by (auto simp: flags_at_def sweep_step_flags sweep_step_out sweep_step_result sweep_ok_def
          split: option.splits if_splits)
  next
    case False
    have step: "flags_at t ?s es = flags_at t s (e # es)"
      using False by (simp add: flags_at_def sweep_step_flags)
    have a_le: "\<And>a. out_start s = Some a \<Longrightarrow> a \<le> fst e"
      using Cons.prems(2) by (simp add: sweep_ok_def)
    show ?thesis
      using IH step False a_le
      by (auto simp: sweep_step_out sweep_step_result split: option.splits if_splits)
  qed
qed

text \<open>Every interval written is not empty, and it starts where the last one ended or later.\<close>

definition written_ok :: "sweep \<Rightarrow> (int \<times> nat \<times> interval) list \<Rightarrow> bool" where
  "written_ok s es =
     (proper_intervals (result s)
      \<and> (\<forall>i \<in> set (result s). (\<forall>a \<in> set_option (out_start s). snd i \<le> a) \<and> (\<forall>e \<in> set es. snd i \<le> fst e)))"

lemma sweep_step_written:
  assumes "written_ok s (e # es)" "sweep_ok s (e # es)" "sorted (map fst (e # es))"
  shows "written_ok (sweep_step op s e) es"
  using assms
  by (auto simp: written_ok_def sweep_ok_def sweep_step_out sweep_step_result proper_intervals_def
      ordered_intervals_append split: option.splits)

lemma sweep_proper:
  assumes "sorted (map fst es)" "sweep_ok s es" "written_ok s es"
  shows "proper_intervals (result (foldl (sweep_step op) s es))"
  using assms
proof (induction es arbitrary: s)
  case Nil
  then show ?case by (simp add: written_ok_def)
next
  case (Cons e es)
  have "sweep_ok (sweep_step op s e) es" "written_ok (sweep_step op s e) es"
    using sweep_step_ok sweep_step_written Cons.prems by auto
  then show ?case using Cons by simp
qed

lemma helper_covered:
  assumes src: "ordered_intervals src" and dest: "ordered_intervals dest"
  shows "covered t (interval_math_helper src dest op) = op (covered t src) (covered t dest)"
    and "proper_intervals (interval_math_helper src dest op)"
proof -
  let ?es = "imerge (decorate 0 2 src) (decorate 1 3 dest)"
  let ?s = "\<lparr>in_src = False, in_dest = False, out_start = None, result = []\<rparr>"
  have sorted: "sorted (map fst ?es)"
    by (intro imerge_sorted decorate_sorted src dest)
  have ok: "sweep_ok ?s ?es" by (simp add: sweep_ok_def outside)
  obtain m where m: "\<And>e. e \<in> set ?es \<Longrightarrow> fst e \<le> m"
  proof
    fix e
    assume "e \<in> set ?es"
    then show "fst e \<le> Max (set (map fst ?es))" by (intro Max_ge) auto
  qed
  have all: "until (max m (Max (insert 0 (snd ` set (src @ dest))))) ?es = ?es"
    using m by (auto simp: filter_id_conv le_max_iff_disj)
  have out: "\<not> covered (max m (Max (insert 0 (snd ` set (src @ dest))))) src"
    "\<not> covered (max m (Max (insert 0 (snd ` set (src @ dest))))) dest"
    by (auto simp: covered_def not_less le_max_iff_disj intro!: Max_ge)
  have last: "\<not> op (foldl (flag_step 0 2) False ?es) (foldl (flag_step 1 3) False ?es)"
    using merged_flag [OF src dest, of "max m (Max (insert 0 (snd ` set (src @ dest))))"]
      all out outside by simp
  show "covered t (interval_math_helper src dest op) = op (covered t src) (covered t dest)"
    using sweep_covered [OF sorted ok, of t] last merged_flag [OF src dest, of t]
    by (simp add: interval_math_helper_def flags_at_def)
  show "proper_intervals (interval_math_helper src dest op)"
    using sweep_proper [OF sorted ok]
    by (simp add: interval_math_helper_def written_ok_def proper_intervals_def)
qed

end

interpretation diff_op: interval_op "\<lambda>s d. s \<and> \<not> d"
  by unfold_locales simp

interpretation inter_op: interval_op "\<lambda>s d. s \<and> d"
  by unfold_locales simp

section \<open>Properties\<close>

lemma difference_covered:
  assumes "ordered_intervals src" "ordered_intervals dest"
  shows "covered t (interval_difference src dest) \<longleftrightarrow> covered t src \<and> \<not> covered t dest"
    and "proper_intervals (interval_difference src dest)"
  using diff_op.helper_covered [OF assms] by (simp_all add: interval_difference_def)

lemma intersection_covered:
  assumes "ordered_intervals src" "ordered_intervals dest"
  shows "covered t (interval_intersection src dest) \<longleftrightarrow> covered t src \<and> covered t dest"
    and "proper_intervals (interval_intersection src dest)"
  using inter_op.helper_covered [OF assms] by (simp_all add: interval_intersection_def)

lemma proper_ordered: "proper_intervals is \<Longrightarrow> ordered_intervals is"
  by (simp add: proper_intervals_def)

lemma proper_covered_Nil: "proper_intervals is \<Longrightarrow> (\<And>t. \<not> covered t is) \<Longrightarrow> is = []"
  by (cases "is") (fastforce simp: proper_intervals_def)+

text \<open>
  C20.  \<open>interval_difference\<close> and \<open>interval_intersection\<close> are the set operations on time: for lists in time
  order without overlaps an instant lies in the difference when it lies in the first list and not in
  the second, and in the intersection when it lies in both; the results are again in order, do not
  overlap and contain no empty interval.
\<close>

theorem interval_set_operations:
  assumes "ordered_intervals src" "ordered_intervals dest"
  shows "(covered t (interval_difference src dest) \<longleftrightarrow> covered t src \<and> \<not> covered t dest)
    \<and> (covered t (interval_intersection src dest) \<longleftrightarrow> covered t src \<and> covered t dest)
    \<and> proper_intervals (interval_difference src dest) \<and> proper_intervals (interval_intersection src dest)"
  using difference_covered [OF assms] intersection_covered [OF assms] by blast

theorem interval_set_operations_witness:
  "(covered 3 (interval_difference [(0, 10)] [(2, 4)]) \<longleftrightarrow> covered 3 [(0, 10)] \<and> \<not> covered 3 [(2, 4)])
    \<and> (covered 3 (interval_intersection [(0, 10)] [(2, 4)]) \<longleftrightarrow> covered 3 [(0, 10)] \<and> covered 3 [(2, 4)])
    \<and> proper_intervals (interval_difference [(0, 10)] [(2, 4)])
    \<and> proper_intervals (interval_intersection [(0, 10)] [(2, 4)])"
  by (rule interval_set_operations) simp_all

end
