(* ===== verification/Timescale.thy ===== *)
theory Timescale
  imports Intervals
begin

text \<open>
  The time series store: \<open>src/src/joule/models/data_store/psql_helpers.py\<close> and \<open>timescale.py\<close>.  A
  stream has a table of rows keyed by their time, a table of interval boundaries and one table per
  decimation level; a table that has not been created is \<open>None\<close>.  Each SQL statement of the code is the
  list operation it stands for.  Times are integers (microseconds); the conversions through
  \<open>datetime\<close> are exact for them.  A boundary at \<open>b\<close> separates the rows before \<open>b\<close> from those at or
  after it.  A row of numbers is a pair of its time and a value of a type \<open>'v\<close>.
\<close>

record 'v tstore =
  st_data :: "(int \<times> 'v) list option"
  st_ivl :: "int list option"
  st_decim :: "(nat \<times> (int \<times> 'v) list) list"

definition empty_store :: "'v tstore" where
  "empty_store = \<lparr>st_data = None, st_ivl = None, st_decim = []\<rparr>"

section \<open>Helpers\<close>

text \<open>The condition \<open>query_time_bounds\<close> writes for a point query; an absent bound does not limit.\<close>

definition in_bounds :: "int option \<Rightarrow> int option \<Rightarrow> int \<Rightarrow> bool" where
  "in_bounds start fin t =
     ((case start of None \<Rightarrow> True | Some s \<Rightarrow> s \<le> t) \<and> (case fin of None \<Rightarrow> True | Some e \<Rightarrow> t < e))"

text \<open>\<open>CREATE TABLE IF NOT EXISTS\<close> for the rows and the boundaries.\<close>

definition create_stream_table :: "'v tstore \<Rightarrow> 'v tstore" where
  "create_stream_table s =
     s\<lparr>st_data := Some (case st_data s of None \<Rightarrow> [] | Some d \<Rightarrow> d),
       st_ivl := Some (case st_ivl s of None \<Rightarrow> [] | Some i \<Rightarrow> i)\<rparr>"

definition create_decimation_table :: "nat \<Rightarrow> 'v tstore \<Rightarrow> 'v tstore" where
  "create_decimation_table level s =
     (if level \<in> set (map fst (st_decim s)) then s else s\<lparr>st_decim := st_decim s @ [(level, [])]\<rparr>)"

definition drop_decimation_tables :: "'v tstore \<Rightarrow> 'v tstore" where
  "drop_decimation_tables s = s\<lparr>st_decim := []\<rparr>"

definition get_closest_ts :: "'v tstore \<Rightarrow> int \<Rightarrow> int option" where
  "get_closest_ts s ts =
     (case st_data s of None \<Rightarrow> None | Some d \<Rightarrow> list_max (filter (\<lambda>t. t < ts) (map fst d)))"

definition remove_interval_breaks :: "int \<Rightarrow> int \<Rightarrow> 'v tstore \<Rightarrow> 'v tstore" where
  "remove_interval_breaks start fin s =
     (case st_ivl s of None \<Rightarrow> s
      | Some i \<Rightarrow> s\<lparr>st_ivl := Some (filter (\<lambda>t. \<not> (start \<le> t \<and> t \<le> fin)) i)\<rparr>)"

text \<open>The second query of \<open>close_interval\<close> is not guarded against a missing table.\<close>

definition close_interval :: "int \<Rightarrow> 'v tstore \<Rightarrow> 'v tstore res" where
  "close_interval ts s =
     (case st_data s of None \<Rightarrow> Inr s
      | Some d \<Rightarrow>
          (case list_max (filter (\<lambda>t. t \<le> ts) (map fst d)) of None \<Rightarrow> Inr s
           | Some last_ts \<Rightarrow>
               (case st_ivl s of None \<Rightarrow> Inl UndefinedTableError
                | Some i \<Rightarrow>
                    (case list_max (filter (\<lambda>t. t \<le> ts) i) of
                       None \<Rightarrow> Inr (s\<lparr>st_ivl := Some (i @ [last_ts + 1])\<rparr>)
                     | Some last_interval \<Rightarrow>
                         if last_interval < last_ts then Inr (s\<lparr>st_ivl := Some (i @ [last_ts + 1])\<rparr>)
                         else Inr s))))"

text \<open>
  \<open>convert_time_bounds\<close>: a missing bound is taken from the data.  On an empty table the query for the
  last time gives \<open>None\<close>, to which the code adds a microsecond before it looks at it.
\<close>

definition convert_time_bounds :: "'v tstore \<Rightarrow> int option \<Rightarrow> int option \<Rightarrow> (int \<times> int) option res" where
  "convert_time_bounds s start fin =
     (case (case start of Some a \<Rightarrow> Some a
            | None \<Rightarrow> (case st_data s of None \<Rightarrow> None | Some d \<Rightarrow> list_min (map fst d))) of
        None \<Rightarrow> Inr None
      | Some a \<Rightarrow>
          (case fin of Some e \<Rightarrow> Inr (Some (a, e))
           | None \<Rightarrow>
               (case st_data s of None \<Rightarrow> Inr None
                | Some d \<Rightarrow>
                    (case list_max (map fst d) of None \<Rightarrow> Inl PyTypeError
                     | Some e \<Rightarrow> Inr (Some (a, e + 1))))))"

definition limit_time_bounds :: "'v tstore \<Rightarrow> int option \<Rightarrow> int option \<Rightarrow> (int option \<times> int option) res" where
  "limit_time_bounds s start fin =
     bindE (convert_time_bounds s None None) (\<lambda>b.
     case b of None \<Rightarrow> Inr (None, None)
     | Some (data_start, data_end) \<Rightarrow>
         Inr (Some (case start of None \<Rightarrow> data_start | Some a \<Rightarrow> max a data_start),
              Some (case fin of None \<Rightarrow> data_end | Some e \<Rightarrow> min e data_end)))"

definition get_boundaries :: "'v tstore \<Rightarrow> int option \<Rightarrow> int option \<Rightarrow> int list res" where
  "get_boundaries s start fin =
     bindE (convert_time_bounds s start fin) (\<lambda>b.
     case b of None \<Rightarrow> Inr []
     | Some (a, e) \<Rightarrow>
         (case st_ivl s of None \<Rightarrow> Inr []
          | Some i \<Rightarrow> Inr (a # sort (filter (in_bounds (Some a) (Some e)) i) @ [e])))"

section \<open>Intervals\<close>

text \<open>
  The loop of \<open>intervals\<close> over the boundaries; \<open>cur_start\<close> is the start of the interval that is open.
  The last boundary has no successor that limits its query.
\<close>

fun intervals_loop :: "int list \<Rightarrow> int option \<Rightarrow> interval list \<Rightarrow> int list \<Rightarrow> interval list res" where
  "intervals_loop ts cur_start acc [] = Inr acc"
| "intervals_loop ts cur_start acc (b # bs) =
     (case (case cur_start of None \<Rightarrow> Inr acc
            | Some a \<Rightarrow>
                (case list_max (filter (\<lambda>t. t < b) ts) of None \<Rightarrow> Inl PyAttributeError
                 | Some prev_ts \<Rightarrow> Inr (acc @ [(a, prev_ts + 1)]))) of
        Inl e \<Rightarrow> Inl e
      | Inr acc \<Rightarrow>
          intervals_loop ts
            (list_min (filter (\<lambda>t. b \<le> t \<and> (case bs of [] \<Rightarrow> True | b' # _ \<Rightarrow> t < b')) ts)) acc bs)"

definition intervals :: "'v tstore \<Rightarrow> int option \<Rightarrow> int option \<Rightarrow> interval list res" where
  "intervals s start fin =
     bindE (get_boundaries s start fin) (\<lambda>bs.
     case bs of [] \<Rightarrow> Inr []
     | _ \<Rightarrow> (case st_data s of None \<Rightarrow> Inl UndefinedTableError
             | Some d \<Rightarrow> intervals_loop (map fst d) None [] bs))"

definition consolidate :: "'v tstore \<Rightarrow> int option \<Rightarrow> int option \<Rightarrow> int \<Rightarrow> (nat \<times> 'v tstore) res" where
  "consolidate s start fin max_gap =
     bindE (intervals s start fin) (\<lambda>is.
     if is = [] then Inr (0, s)
     else
       (let gaps = interval_difference [(fst (hd is), snd (last is))] is
        in if gaps = [] then Inr (0, s)
           else
             (let small_gaps = filter (\<lambda>g. snd g - fst g \<le> max_gap) gaps
              in if small_gaps = [] then Inr (0, s)
                 else (case st_ivl s of None \<Rightarrow> Inl UndefinedTableError
                       | Some i \<Rightarrow> Inr (length small_gaps,
                           s\<lparr>st_ivl := Some (filter (\<lambda>t. t \<notin> set (map fst small_gaps)) i)\<rparr>)))))"

section \<open>Removal\<close>

text \<open>
  \<open>remove\<close> visits the decimation tables, then the rows, then the boundaries.  \<open>drop_chunks\<close> is
  TimescaleDB's function: it removes some rows older than the bound.  A missing table ends the
  operation.
\<close>

definition remove_rows :: "(int \<Rightarrow> (int \<times> 'v) list \<Rightarrow> (int \<times> 'v) list) \<Rightarrow> 'v tstore \<Rightarrow> int option
    \<Rightarrow> int option \<Rightarrow> bool \<Rightarrow> (int \<times> 'v) list \<Rightarrow> (int \<times> 'v) list option res" where
  "remove_rows drop_chunks s start fin exact rows =
     (if start = None \<and> fin = None then Inr (Some [])
      else if start = None \<and> \<not> exact then
        bindE (convert_time_bounds s start fin) (\<lambda>b.
        case b of None \<Rightarrow> Inr None | Some (_, e) \<Rightarrow> Inr (Some (drop_chunks e rows)))
      else Inr (Some (filter (\<lambda>r. \<not> in_bounds start fin (fst r)) rows)))"

fun remove_decim :: "(int \<Rightarrow> (int \<times> 'v) list \<Rightarrow> (int \<times> 'v) list) \<Rightarrow> int option \<Rightarrow> int option \<Rightarrow> bool
    \<Rightarrow> (nat \<times> (int \<times> 'v) list) list \<Rightarrow> 'v tstore \<Rightarrow> (bool \<times> (nat \<times> (int \<times> 'v) list) list) res" where
  "remove_decim dc start fin exact [] s = Inr (True, [])"
| "remove_decim dc start fin exact ((l, rows) # ts) s =
     bindE (remove_rows dc s start fin exact rows) (\<lambda>r.
     case r of None \<Rightarrow> Inr (False, (l, rows) # ts)
     | Some rows' \<Rightarrow>
         bindE (remove_decim dc start fin exact ts s) (\<lambda>(go, ts'). Inr (go, (l, rows') # ts')))"

definition remove :: "(int \<Rightarrow> (int \<times> 'v) list \<Rightarrow> (int \<times> 'v) list) \<Rightarrow> int option \<Rightarrow> int option \<Rightarrow> bool
    \<Rightarrow> 'v tstore \<Rightarrow> 'v tstore res" where
  "remove dc start fin exact s =
     bindE (remove_decim dc start fin exact (st_decim s) s) (\<lambda>(go, dt).
     let s = s\<lparr>st_decim := dt\<rparr>
     in if \<not> go then Inr s
        else (case st_data s of None \<Rightarrow> Inr s
              | Some d \<Rightarrow>
                  bindE (remove_rows dc s start fin exact d) (\<lambda>r.
                  case r of None \<Rightarrow> Inr s
                  | Some d' \<Rightarrow>
                      (let s = s\<lparr>st_data := Some d'\<rparr>
                       in case st_ivl s of None \<Rightarrow> Inr s
                          | Some i \<Rightarrow>
                              (let s = s\<lparr>st_ivl := Some (if start = None \<and> fin = None then []
                                                       else filter (\<lambda>t. \<not> in_bounds start fin t) i)\<rparr>
                               in case start of None \<Rightarrow> Inr s | Some a \<Rightarrow> close_interval a s)))))"

definition destroy :: "'v tstore \<Rightarrow> 'v tstore" where
  "destroy s = \<lparr>st_data = None, st_ivl = None, st_decim = []\<rparr>"

section \<open>Extraction\<close>

text \<open>
  The blocks \<open>_extract_data\<close> hands to its callback: a row is \<open>Some\<close>, the interval token \<open>None\<close>.  The
  time of the token is zero, which matters for where the next query starts.
\<close>

type_synonym 'v block = "(int \<times> 'v) option list"

definition item_time :: "(int \<times> 'v) option \<Rightarrow> int" where
  "item_time x = (case x of None \<Rightarrow> 0 | Some r \<Rightarrow> fst r)"

definition select_rows :: "(int \<times> 'v) list \<Rightarrow> int option \<Rightarrow> int option \<Rightarrow> nat \<Rightarrow> (int \<times> 'v) list" where
  "select_rows rows start fin n = take n (sort_key fst (filter (\<lambda>r. in_bounds start fin (fst r)) rows))"

text \<open>The inner loop for one interval; \<open>None\<close> when the fuel is used up.\<close>

fun extract_interval :: "nat \<Rightarrow> nat \<Rightarrow> bool \<Rightarrow> (int \<times> 'v) list \<Rightarrow> int option \<Rightarrow> int option
    \<Rightarrow> 'v block list option" where
  "extract_interval 0 block_size is_last rows start fin = None"
| "extract_interval (Suc n) block_size is_last rows start fin =
     (let sel = map Some (select_rows rows start fin block_size);
          np_data = (if length sel < block_size \<and> \<not> is_last then sel @ [None] else sel)
      in if np_data = [] then Some []
         else if length np_data < block_size then Some [np_data]
         else map_option (\<lambda>bs. np_data # bs)
                (extract_interval n block_size is_last rows (Some (item_time (last np_data) + 1)) fin))"

fun extract_loop :: "nat \<Rightarrow> nat \<Rightarrow> (int \<times> 'v) list \<Rightarrow> int option \<Rightarrow> int option list \<Rightarrow> 'v block list option" where
  "extract_loop n block_size rows start [] = Some []"
| "extract_loop n block_size rows start (fin # fins) =
     (if start = fin then extract_loop n block_size rows start fins
      else
        (case extract_interval n block_size (fins = []) rows start fin of
           None \<Rightarrow> None
         | Some bs \<Rightarrow>
             map_option (\<lambda>bs'. bs @ bs') (extract_loop n block_size rows fin fins)))"

text \<open>
  \<open>_extract_data\<close> for the rows of one table (\<open>None\<close>: the table does not exist, then one empty block).
\<close>

definition extract_data :: "nat \<Rightarrow> nat \<Rightarrow> (int \<times> 'v) list option \<Rightarrow> int list option \<Rightarrow> int option
    \<Rightarrow> int option \<Rightarrow> 'v block list option" where
  "extract_data n block_size table ivl start fin =
     (case ivl of None \<Rightarrow> Some [[]]
      | Some i \<Rightarrow>
          (let boundary_records = map Some (sort (filter (in_bounds start fin) i)) @ [fin]
           in case table of
                None \<Rightarrow> if list_all (\<lambda>b. b = start) boundary_records then Some [] else Some [[]]
              | Some rows \<Rightarrow> extract_loop n block_size rows start boundary_records))"

text \<open>
  \<open>extract\<close>: the bounds are limited to the data and the decimation level chosen.  \<open>count\<close> is the answer
  of the SQL function that counts rows, \<open>level_for\<close> the level computed from it with floating point
  logarithms.
\<close>

definition store_extract :: "nat \<Rightarrow> nat \<Rightarrow> (int option \<Rightarrow> int option \<Rightarrow> nat) \<Rightarrow> (nat \<Rightarrow> nat \<Rightarrow> nat) \<Rightarrow> 'v tstore
    \<Rightarrow> int option \<Rightarrow> int option \<Rightarrow> nat option \<Rightarrow> nat option \<Rightarrow> ('v block list \<times> nat) option res" where
  "store_extract n block_size count level_for s start fin max_rows decimation_level =
     bindE (limit_time_bounds s start fin) (\<lambda>(start, fin).
     let go = (\<lambda>level. map_option (\<lambda>bs. (bs, level))
                (extract_data n block_size (if 1 < level then map_of (st_decim s) level else st_data s)
                   (st_ivl s) start fin))
     in case decimation_level of
          Some level \<Rightarrow> Inr (go level)
        | None \<Rightarrow>
            (case max_rows of
               None \<Rightarrow> Inr (go 1)
             | Some m \<Rightarrow>
                 (let c = count start fin
                  in if 0 < c then Inr (go (level_for c m)) else Inr (Some ([[]], 1)))))"

section \<open>What the intervals are\<close>

text \<open>The specification: one interval for every stretch between two boundaries that contains data.\<close>

fun seg_intervals :: "int list \<Rightarrow> int list \<Rightarrow> interval list" where
  "seg_intervals ts [] = []"
| "seg_intervals ts [b] = []"
| "seg_intervals ts (b # b' # bs) =
     (let seg = filter (\<lambda>t. b \<le> t \<and> t < b') ts
      in case (list_min seg, list_max seg) of
           (Some x, Some y) \<Rightarrow> [(x, y + 1)]
         | _ \<Rightarrow> []) @ seg_intervals ts (b' # bs)"

lemma list_max_segment:
  assumes "list_min (filter (\<lambda>t. p \<le> t \<and> t < b) ts) = Some x"
  shows "list_max (filter (\<lambda>t. p \<le> t \<and> t < b) ts) = list_max (filter (\<lambda>t. t < b) ts)"
proof -
  obtain m where m: "list_max (filter (\<lambda>t. t < b) ts) = Some m"
    using assms by (metis (no_types, lifting) filter_empty_conv list_max_None list_min_Some_iff
        mem_Collect_eq not_None_eq set_filter)
  have "p \<le> m" using assms m by (auto simp: list_max_Some_iff list_min_Some_iff)
  then have "list_max (filter (\<lambda>t. p \<le> t \<and> t < b) ts) = Some m"
    using m by (auto simp: list_max_Some_iff)
  then show ?thesis using m by simp
qed

lemma intervals_loop_segs:
  "intervals_loop ts (list_min (filter (\<lambda>t. p \<le> t \<and> t < b) ts)) acc (b # bs)
     = Inr (acc @ seg_intervals ts (p # b # bs))"
proof (induction bs arbitrary: p b acc)
  case Nil
  show ?case
  proof (cases "list_min (filter (\<lambda>t. p \<le> t \<and> t < b) ts)")
    case None
    then show ?thesis by simp
  next
    case (Some x)
    obtain y where y: "list_max (filter (\<lambda>t. p \<le> t \<and> t < b) ts) = Some y"
      using Some by (metis list_max_None list_min_None not_None_eq)
    then show ?thesis using Some list_max_segment [OF Some] by simp
  qed
next
  case (Cons b' bs)
  show ?case
  proof (cases "list_min (filter (\<lambda>t. p \<le> t \<and> t < b) ts)")
    case None
    then show ?thesis using Cons.IH [of b b' acc] by simp
  next
    case (Some x)
    obtain y where y: "list_max (filter (\<lambda>t. p \<le> t \<and> t < b) ts) = Some y"
      using Some by (metis list_max_None list_min_None not_None_eq)
    then show ?thesis
      using Some list_max_segment [OF Some] Cons.IH [of b b' "acc @ [(x, y + 1)]"] by simp
  qed
qed

text \<open>A segment without data contributes nothing, any other one the interval from its first row to its last.\<close>

lemma seg_cases:
  obtains "filter (\<lambda>t. b \<le> t \<and> t < b') ts = []" "seg_intervals ts (b # b' # bs) = seg_intervals ts (b' # bs)"
  | x y where "list_min (filter (\<lambda>t. b \<le> t \<and> t < b') ts) = Some x"
      "list_max (filter (\<lambda>t. b \<le> t \<and> t < b') ts) = Some y"
      "x \<in> set ts" "y \<in> set ts" "b \<le> x" "x \<le> y" "y < b'"
      "seg_intervals ts (b # b' # bs) = (x, y + 1) # seg_intervals ts (b' # bs)"
proof (cases "filter (\<lambda>t. b \<le> t \<and> t < b') ts = []")
  case True
  then show ?thesis using that(1) by simp
next
  case False
  then obtain x y where xy: "list_min (filter (\<lambda>t. b \<le> t \<and> t < b') ts) = Some x"
    "list_max (filter (\<lambda>t. b \<le> t \<and> t < b') ts) = Some y"
    by (metis list_max_None list_min_None not_None_eq)
  have "x \<in> set ts" "y \<in> set ts" "b \<le> x" "x \<le> y" "y < b'"
    using xy by (auto simp: list_min_Some_iff list_max_Some_iff)
  then show ?thesis using that(2) [OF xy] xy by simp
qed

lemma seg_intervals_in:
  "sorted (b # bs) \<Longrightarrow> i \<in> set (seg_intervals ts (b # bs)) \<Longrightarrow>
     fst i \<in> set ts \<and> snd i - 1 \<in> set ts \<and> b \<le> fst i \<and> fst i < snd i \<and> snd i \<le> last (b # bs)
     \<and> (\<forall>x \<in> set (b # bs). x \<le> fst i \<or> snd i \<le> x)"
proof (induction bs arbitrary: b)
  case Nil
  then show ?case by simp
next
  case (Cons b' bs)
  let ?seg = "filter (\<lambda>t. b \<le> t \<and> t < b') ts"
  have srt: "sorted (b' # bs)" "b \<le> b'" "\<forall>x \<in> set bs. b' \<le> x" using Cons.prems(1) by auto
  have last: "b' \<le> last (b' # bs)" using srt by auto
  show ?case
  proof (cases "i \<in> set (seg_intervals ts (b' # bs))")
    case True
    then show ?thesis using Cons.IH [OF srt(1) True] srt by auto
  next
    case False
    show ?thesis
    proof (cases rule: seg_cases [of b b' ts bs])
      case 1
      then show ?thesis using False Cons.prems(2) by simp
    next
      case (2 x y)
      then have "i = (x, y + 1)" using False Cons.prems(2) by simp
      then show ?thesis using 2 srt last by (auto intro: order.trans)
    qed
  qed
qed

lemma seg_intervals_proper: "sorted (b # bs) \<Longrightarrow> proper_intervals (seg_intervals ts (b # bs))"
proof (induction bs arbitrary: b)
  case Nil
  then show ?case by (simp add: proper_intervals_def)
next
  case (Cons b' bs)
  have srt: "sorted (b' # bs)" using Cons.prems by auto
  have later: "\<And>j. j \<in> set (seg_intervals ts (b' # bs)) \<Longrightarrow> b' \<le> fst j"
    using seg_intervals_in [OF srt] by blast
  show ?case
  proof (cases rule: seg_cases [of b b' ts bs])
    case 1
    then show ?thesis using Cons.IH [OF srt] by simp
  next
    case (2 x y)
    then show ?thesis using Cons.IH [OF srt] later by (fastforce simp: proper_intervals_def)
  qed
qed

lemma seg_intervals_cover:
  "sorted (b # bs) \<Longrightarrow> t \<in> set ts \<Longrightarrow> b \<le> t \<Longrightarrow> t < last (b # bs) \<Longrightarrow> covered t (seg_intervals ts (b # bs))"
proof (induction bs arbitrary: b)
  case Nil
  then show ?case by simp
next
  case (Cons b' bs)
  let ?seg = "filter (\<lambda>t. b \<le> t \<and> t < b') ts"
  show ?case
  proof (cases "t < b'")
    case True
    then have "t \<in> set ?seg" using Cons.prems by simp
    then obtain x y where xy: "list_min ?seg = Some x" "list_max ?seg = Some y"
      by (metis list_max_None list_min_None list.set(1) empty_iff not_None_eq)
    then have "x \<le> t \<and> t \<le> y" using \<open>t \<in> set ?seg\<close> by (auto simp: list_min_Some_iff list_max_Some_iff)
    then show ?thesis using xy by (simp add: Let_def)
  next
    case False
    then show ?thesis using Cons.IH [of b'] Cons.prems by auto
  qed
qed

definition interval_spec :: "(int \<times> 'v) list \<Rightarrow> int list \<Rightarrow> int \<Rightarrow> int \<Rightarrow> interval list \<Rightarrow> bool" where
  "interval_spec rows bounds a e is =
     (proper_intervals is
      \<and> (\<forall>r \<in> set rows. a \<le> fst r \<and> fst r < e \<longrightarrow> covered (fst r) is)
      \<and> (\<forall>i \<in> set is. fst i \<in> fst ` set rows \<and> snd i - 1 \<in> fst ` set rows \<and> a \<le> fst i \<and> snd i \<le> e
            \<and> (\<forall>b \<in> set bounds. b \<le> fst i \<or> snd i \<le> b)))"

lemma intervals_spec:
  assumes "st_data s = Some d" "st_ivl s = Some bounds"
    and "convert_time_bounds s start fin = Inr (Some (a, e))" "a \<le> e"
  shows "\<exists>is. intervals s start fin = Inr is \<and> interval_spec d bounds a e is"
proof -
  define mid where "mid = sort (filter (in_bounds (Some a) (Some e)) bounds)"
  have srt: "sorted (a # mid @ [e])"
    using assms(4) by (auto simp: mid_def in_bounds_def sorted_append less_imp_le)
  let ?ts = "map fst d"
  have bs: "get_boundaries s start fin = Inr (a # mid @ [e])"
    using assms by (simp add: get_boundaries_def mid_def)
  obtain b bs' where mb: "mid @ [e] = b # bs'" by (cases mid) auto
  have "intervals s start fin = intervals_loop ?ts None [] (a # b # bs')"
    using bs mb assms(1) by (simp add: intervals_def)
  also have "\<dots> = Inr (seg_intervals ?ts (a # b # bs'))"
    using intervals_loop_segs [of ?ts a b "[]" bs'] by simp
  finally have r: "intervals s start fin = Inr (seg_intervals ?ts (a # mid @ [e]))" by (simp add: mb)
  have last: "last (a # mid @ [e]) = e" by simp
  have "b \<le> fst i \<or> snd i \<le> b" if i: "i \<in> set (seg_intervals ?ts (a # mid @ [e]))" and b: "b \<in> set bounds" for i b
  proof (cases "in_bounds (Some a) (Some e) b")
    case True
    then have "b \<in> set (a # mid @ [e])" using b by (simp add: mid_def)
    then show ?thesis using seg_intervals_in [OF srt i] by blast
  next
    case False
    then have "b < a \<or> e \<le> b" by (auto simp: in_bounds_def)
    then show ?thesis using seg_intervals_in [OF srt i] last by auto
  qed
  then have "interval_spec d bounds a e (seg_intervals ?ts (a # mid @ [e]))"
    using seg_intervals_proper [OF srt] seg_intervals_cover [OF srt] seg_intervals_in [OF srt] last
    by (auto simp: interval_spec_def) (metis image_eqI list.set_map set_map)+
  then show ?thesis using r by blast
qed

section \<open>Closing an interval and removing data\<close>

text \<open>After \<open>close_interval ts\<close> a boundary lies behind the last row at or before \<open>ts\<close>, if there is one.\<close>

lemma close_interval_boundary:
  assumes "st_data s = Some d" "st_ivl s = Some i" "set i \<inter> fst ` set d = {}"
    and "r \<in> set d" "fst r \<le> ts"
  shows "\<exists>s' i' last_ts b. close_interval ts s = Inr s' \<and> st_data s' = Some d \<and> st_ivl s' = Some i'
    \<and> set i \<subseteq> set i' \<and> b \<in> set i' \<and> list_max (filter (\<lambda>t. t \<le> ts) (map fst d)) = Some last_ts
    \<and> last_ts < b \<and> b \<le> ts + 1"
proof -
  obtain m where m: "list_max (filter (\<lambda>t. t \<le> ts) (map fst d)) = Some m"
    using assms(4,5) by (metis (mono_tags, lifting) filter_empty_conv image_eqI list.set_map list_max_None not_None_eq)
  have "m \<in> fst ` set d" "m \<le> ts" using m by (auto simp: list_max_Some_iff)
  show ?thesis
  proof (cases "list_max (filter (\<lambda>t. t \<le> ts) i)")
    case None
    then show ?thesis using assms(1,2) m \<open>m \<le> ts\<close> by (auto simp: close_interval_def)
  next
    case (Some l)
    then have "l \<in> set i" "l \<le> ts" by (auto simp: list_max_Some_iff)
    then have "l \<noteq> m" using assms(3) \<open>m \<in> fst ` set d\<close> by blast
    then show ?thesis using assms(1,2) m Some \<open>m \<le> ts\<close> \<open>l \<in> set i\<close> \<open>l \<le> ts\<close>
      by (cases "l < m") (auto simp: close_interval_def)
  qed
qed

lemma remove_decim_exact:
  assumes "start \<noteq> None"
  shows "remove_decim dc start fin True ts s
    = Inr (True, map (\<lambda>(l, rows). (l, filter (\<lambda>r. \<not> in_bounds start fin (fst r)) rows)) ts)"
  using assms by (induction ts) (auto simp: remove_rows_def)

lemma remove_exact:
  assumes "st_data s = Some d" "st_ivl s = Some i"
  shows "remove dc (Some a) fin True s = close_interval a
    (s\<lparr>st_decim := map (\<lambda>(l, rows). (l, filter (\<lambda>r. \<not> in_bounds (Some a) fin (fst r)) rows)) (st_decim s),
       st_data := Some (filter (\<lambda>r. \<not> in_bounds (Some a) fin (fst r)) d),
       st_ivl := Some (filter (\<lambda>t. \<not> in_bounds (Some a) fin t) i)\<rparr>)"
  using assms by (simp add: remove_def remove_decim_exact remove_rows_def)

lemma covered_has_data:
  assumes "interval_spec rows bounds a e is" "covered t is"
  obtains x y where "x \<in> fst ` set rows" "y \<in> fst ` set rows" "x \<le> t" "t \<le> y"
    "\<And>b. b \<in> set bounds \<Longrightarrow> b \<le> x \<or> y < b"
proof -
  obtain i where i: "i \<in> set is" "fst i \<le> t" "t < snd i" using assms(2) by (auto simp: covered_def)
  then have "fst i \<in> fst ` set rows" "snd i - 1 \<in> fst ` set rows"
    "\<And>b. b \<in> set bounds \<Longrightarrow> b \<le> fst i \<or> snd i \<le> b"
    using assms(1) by (auto simp: interval_spec_def)
  then show ?thesis using that [of "fst i" "snd i - 1"] i by force
qed

section \<open>Extraction returns the rows in order\<close>

abbreviation sorted_rows :: "(int \<times> 'v) list \<Rightarrow> int option \<Rightarrow> int option \<Rightarrow> (int \<times> 'v) list" where
  "sorted_rows rows start fin \<equiv> sort_key fst (filter (\<lambda>r. in_bounds start fin (fst r)) rows)"

lemma drop_sorted_rows:
  assumes "distinct (map fst rows)" "0 < n" "n \<le> length (sorted_rows rows start fin)"
  shows "sorted_rows rows (Some (fst (sorted_rows rows start fin ! (n - 1)) + 1)) fin
    = drop n (sorted_rows rows start fin)"
proof -
  let ?R = "sorted_rows rows start fin"
  let ?k = "fst (?R ! (n - 1))"
  have dist: "distinct (map fst ?R)"
    using assms(1) by (simp add: distinct_map inj_on_def)
  have srt: "sorted (map fst ?R)" by simp
  have strict: "sorted_wrt (<) (map fst ?R)" using srt dist strict_sorted_iff by blast
  have k: "in_bounds start fin ?k"
  proof -
    have "?R ! (n - 1) \<in> set ?R" using assms(2,3) by (intro nth_mem) linarith
    then show ?thesis unfolding set_sort by simp
  qed
  have "filter (\<lambda>r. in_bounds (Some (?k + 1)) fin (fst r)) rows
      = filter (\<lambda>r. ?k < fst r) (filter (\<lambda>r. in_bounds start fin (fst r)) rows)"
    using k by (auto simp: in_bounds_def intro!: filter_cong split: option.splits)
  then have "sorted_rows rows (Some (?k + 1)) fin = filter (\<lambda>r. ?k < fst r) ?R"
    by (simp add: filter_sort)
  also have "\<dots> = drop n ?R" by (rule filter_greater_drop [OF strict assms(2,3)])
  finally show ?thesis .
qed

lemma extract_interval_ok:
  assumes "distinct (map fst rows)" "2 \<le> bs"
    and "is_last \<or> length (sorted_rows rows start fin) mod bs \<noteq> bs - 1"
    and "length (sorted_rows rows start fin) < n"
  shows "\<exists>blocks. extract_interval n bs is_last rows start fin = Some blocks
    \<and> concat blocks = map Some (sorted_rows rows start fin) @ (if is_last then [] else [None])
    \<and> (\<forall>b \<in> set blocks. b \<noteq> [] \<and> length b \<le> bs)"
  using assms(3,4)
proof (induction n arbitrary: start)
  case 0
  then show ?case by simp
next
  case (Suc n)
  let ?R = "sorted_rows rows start fin"
  show ?case
  proof (cases "length ?R < bs")
    case True
    then have sel: "select_rows rows start fin bs = ?R" by (simp add: select_rows_def)
    show ?thesis
    proof (cases is_last)
      case True
      then show ?thesis using \<open>length ?R < bs\<close> sel by (auto simp: Let_def)
    next
      case False
      then have "Suc (length ?R) < bs" using Suc.prems(1) True by auto
      then show ?thesis using True False sel by (auto simp: Let_def)
    qed
  next
    case False
    let ?sel = "take bs ?R"
    let ?start = "Some (fst (?R ! (bs - 1)) + 1)"
    have len: "length ?sel = bs" using False by simp
    then have ne: "?sel \<noteq> []" using assms(2) by (metis list.size(3) not_numeral_le_zero)
    have "last (map Some ?sel) = Some (?R ! (bs - 1))"
      using len ne by (simp add: last_map last_conv_nth)
    then have unf: "extract_interval (Suc n) bs is_last rows start fin
        = map_option (\<lambda>b. map Some ?sel # b) (extract_interval n bs is_last rows ?start fin)"
      using len ne by (simp add: select_rows_def Let_def item_time_def del: take_eq_Nil)
    have rest: "sorted_rows rows ?start fin = drop bs ?R"
      using drop_sorted_rows [OF assms(1)] assms(2) False by simp
    have len': "length (sorted_rows rows ?start fin) = length ?R - bs" unfolding rest by (rule length_drop)
    have "(length ?R - bs) mod bs = length ?R mod bs" using False by (simp add: le_mod_geq)
    then have cond: "is_last \<or> length (sorted_rows rows ?start fin) mod bs \<noteq> bs - 1"
      unfolding len' using Suc.prems(1) by simp
    have "length (sorted_rows rows ?start fin) < n" unfolding len' using Suc.prems(2) assms(2) False by linarith
    then obtain blocks where "extract_interval n bs is_last rows ?start fin = Some blocks"
      "concat blocks = map Some (drop bs ?R) @ (if is_last then [] else [None])"
      "\<forall>b \<in> set blocks. b \<noteq> [] \<and> length b \<le> bs"
      using Suc.IH [OF cond] unfolding rest by blast
    moreover from this have "extract_interval (Suc n) bs is_last rows start fin = Some (map Some ?sel # blocks)"
      unfolding unf by simp
    moreover have "map Some ?sel @ map Some (drop bs ?R) = map Some ?R"
      by (metis append_take_drop_id map_append)
    ultimately show ?thesis using ne len \<open>\<forall>b \<in> set blocks. b \<noteq> [] \<and> length b \<le> bs\<close>
      by (intro exI [of _ "map Some ?sel # blocks"]) (simp del: extract_interval.simps flip: append_assoc)
  qed
qed

text \<open>Two stretches are never joined: what extraction must return for a list of boundaries.\<close>

fun extract_spec :: "(int \<times> 'v) list \<Rightarrow> int option \<Rightarrow> int option list \<Rightarrow> (int \<times> 'v) option list" where
  "extract_spec rows start [] = []"
| "extract_spec rows start (fin # fins) =
     (if start = fin then extract_spec rows start fins
      else map Some (sorted_rows rows start fin) @ (if fins = [] then [] else [None])
           @ extract_spec rows fin fins)"

fun no_full_interval :: "nat \<Rightarrow> (int \<times> 'v) list \<Rightarrow> int option \<Rightarrow> int option list \<Rightarrow> bool" where
  "no_full_interval bs rows start [] = True"
| "no_full_interval bs rows start (fin # fins) =
     ((fins = [] \<or> length (sorted_rows rows start fin) mod bs \<noteq> bs - 1)
      \<and> no_full_interval bs rows (if start = fin then start else fin) fins)"

lemma extract_loop_ok:
  assumes "distinct (map fst rows)" "2 \<le> bs" "length rows < n"
  shows "no_full_interval bs rows start fins \<Longrightarrow>
    \<exists>blocks. extract_loop n bs rows start fins = Some blocks \<and> concat blocks = extract_spec rows start fins
      \<and> (\<forall>b \<in> set blocks. b \<noteq> [] \<and> length b \<le> bs)"
proof (induction fins arbitrary: start)
  case Nil
  then show ?case by simp
next
  case (Cons fin fins)
  have "length (sorted_rows rows start fin) < n"
    using assms(3) le_less_trans [OF length_filter_le] by simp
  then obtain bl where "extract_interval n bs (fins = []) rows start fin = Some bl"
    "concat bl = map Some (sorted_rows rows start fin) @ (if fins = [] then [] else [None])"
    "\<forall>b \<in> set bl. b \<noteq> [] \<and> length b \<le> bs"
    using extract_interval_ok [OF assms(1,2), of "fins = []" start fin n] Cons.prems by auto
  then show ?case using Cons.IH [of "if start = fin then start else fin"] Cons.prems
    by (cases "start = fin") auto
qed

lemma extract_interval_stuck:
  assumes "length (filter (\<lambda>r. fst r < b) rows) = bs - 1" "2 \<le> bs" "\<forall>r \<in> set rows. 1 \<le> fst r"
    and "\<forall>r \<in> set rows. a \<le> fst r"
  shows "extract_interval n bs False rows (Some a) (Some b) = None"
  using assms(4)
proof (induction n arbitrary: a)
  case 0
  then show ?case by simp
next
  case (Suc n)
  have "filter (\<lambda>r. in_bounds (Some a) (Some b) (fst r)) rows = filter (\<lambda>r. fst r < b) rows"
    using assms(3) Suc.prems by (auto simp: in_bounds_def intro!: filter_cong)
  then have sel: "length (select_rows rows (Some a) (Some b) bs) = bs - 1"
    using assms(1) by (simp add: select_rows_def)
  then show ?case
    using assms(2,3) Suc.IH [of 1] by (simp add: Let_def item_time_def)
qed

lemma sorted_filter_split:
  fixes R :: "(int \<times> 'v) list"
  assumes "sorted (map fst R)" "a \<le> b" "b \<le> c"
  shows "filter (\<lambda>r. in_bounds (Some a) (Some b) (fst r)) R @ filter (\<lambda>r. in_bounds (Some b) (Some c) (fst r)) R
    = filter (\<lambda>r. in_bounds (Some a) (Some c) (fst r)) R"
  using assms(1)
proof (induction R)
  case (Cons r R)
  show ?case
  proof (cases "fst r < b")
    case True
    then show ?thesis using Cons assms(2,3) by (auto simp: in_bounds_def)
  next
    case False
    then have "filter (\<lambda>r. in_bounds (Some a) (Some b) (fst r)) R = []"
      using Cons.prems by (auto simp: in_bounds_def filter_empty_conv)
    then show ?thesis using Cons False assms(2,3) by (auto simp: in_bounds_def)
  qed
qed simp

lemma sorted_rows_split:
  "a \<le> b \<Longrightarrow> b \<le> c \<Longrightarrow>
     sorted_rows rows (Some a) (Some b) @ sorted_rows rows (Some b) (Some c) = sorted_rows rows (Some a) (Some c)"
  using sorted_filter_split [of "sort_key fst rows" a b c] by (simp add: filter_sort)

definition items_rows :: "(int \<times> 'v) option list \<Rightarrow> (int \<times> 'v) list" where
  "items_rows items = concat (map (\<lambda>i. case i of None \<Rightarrow> [] | Some r \<Rightarrow> [r]) items)"

lemma items_rows_simps [simp]:
  "items_rows [] = []" "items_rows (xs @ ys) = items_rows xs @ items_rows ys"
  "items_rows (map Some rs) = rs" "items_rows [None] = []" "items_rows (None # xs) = items_rows xs"
  by (induction rs) (simp_all add: items_rows_def)

lemma extract_spec_rows:
  "sorted (a # bs @ [c]) \<Longrightarrow>
     items_rows (extract_spec rows (Some a) (map Some bs @ [Some c])) = sorted_rows rows (Some a) (Some c)"
proof (induction bs arbitrary: a)
  case Nil
  have "a = c \<Longrightarrow> filter (\<lambda>r. in_bounds (Some a) (Some c) (fst r)) rows = []"
    by (auto simp: in_bounds_def filter_empty_conv)
  then show ?case by auto
next
  case (Cons b bs)
  have srt: "a \<le> b" "b \<le> c" "sorted (b # bs @ [c])" using Cons.prems by auto
  show ?case
  proof (cases "a = b")
    case True
    then show ?thesis using Cons.IH [OF srt(3)] by simp
  next
    case False
    then show ?thesis using Cons.IH [OF srt(3)] sorted_rows_split [OF srt(1,2), of rows] by simp
  qed
qed

section \<open>Properties\<close>

text \<open>
  C11.  \<open>intervals\<close> reports exactly the stretches of data.  For a stream with its tables and resolved
  bounds \<open>[a, e)\<close> it succeeds, and the intervals are in order, disjoint and not empty; every row within
  the bounds is covered; every interval starts at a row and ends one microsecond after a row, both
  within the bounds; and no interval extends over a boundary.
\<close>

theorem store_intervals_exact:
  assumes "st_data s = Some rows" "st_ivl s = Some bounds"
    and "convert_time_bounds s start fin = Inr (Some (a, e))" "a \<le> e"
  shows "\<exists>is. intervals s start fin = Inr is \<and> interval_spec rows bounds a e is"
  using assms by (rule intervals_spec)

theorem store_intervals_exact_witness:
  "\<exists>is. intervals \<lparr>st_data = Some [(5, 1::nat), (9, 2)], st_ivl = Some [6], st_decim = []\<rparr> None None = Inr is
     \<and> interval_spec [(5, 1::nat), (9, 2)] [6] 5 10 is"
  by (rule store_intervals_exact) (simp_all add: convert_time_bounds_def)

text \<open>
  C12.  An exact \<open>remove\<close> leaves a hole.  When no boundary of the stream coincides with a row, removing
  \<open>[a, e)\<close> succeeds, exactly the rows outside the range remain, and no interval reported afterwards,
  for any bounds that resolve, covers an instant of the range.
\<close>

theorem remove_leaves_hole:
  assumes "st_data s = Some rows" "st_ivl s = Some bounds" "set bounds \<inter> fst ` set rows = {}"
  shows "\<exists>s' rows'. remove dc (Some a) (Some e) True s = Inr s' \<and> st_data s' = Some rows'
    \<and> set rows' = {r \<in> set rows. \<not> (a \<le> fst r \<and> fst r < e)}
    \<and> (\<forall>start fin x y is t. convert_time_bounds s' start fin = Inr (Some (x, y)) \<longrightarrow> x \<le> y
         \<longrightarrow> intervals s' start fin = Inr is \<longrightarrow> a \<le> t \<and> t < e \<longrightarrow> \<not> covered t is)"
proof -
  define d where "d = filter (\<lambda>r. \<not> in_bounds (Some a) (Some e) (fst r)) rows"
  define i where "i = filter (\<lambda>t. \<not> in_bounds (Some a) (Some e) t) bounds"
  define s1 where "s1 = s\<lparr>st_decim := map (\<lambda>(l, rows). (l, filter (\<lambda>r. \<not> in_bounds (Some a) (Some e) (fst r)) rows)) (st_decim s),
    st_data := Some d, st_ivl := Some i\<rparr>"
  have r: "remove dc (Some a) (Some e) True s = close_interval a s1"
    using remove_exact [OF assms(1,2)] by (simp add: s1_def d_def i_def)
  have s1: "st_data s1 = Some d" "st_ivl s1 = Some i" "set i \<inter> fst ` set d = {}"
    using assms(3) by (auto simp: s1_def d_def i_def)
  have dset: "set d = {r \<in> set rows. \<not> (a \<le> fst r \<and> fst r < e)}" by (auto simp: d_def in_bounds_def)
  have "\<exists>s' i'. close_interval a s1 = Inr s' \<and> st_data s' = Some d \<and> st_ivl s' = Some i'
      \<and> ((\<exists>m b. list_max (filter (\<lambda>t. t \<le> a) (map fst d)) = Some m \<and> b \<in> set i' \<and> m < b \<and> b \<le> a + 1)
         \<or> (\<forall>r \<in> set d. a < fst r))"
  proof (cases "\<exists>r \<in> set d. fst r \<le> a")
    case True
    then obtain r where "r \<in> set d" "fst r \<le> a" by blast
    from close_interval_boundary [OF s1 this] show ?thesis by blast
  next
    case False
    then have "list_max (filter (\<lambda>t. t \<le> a) (map fst d)) = None" by (auto simp: filter_empty_conv)
    then show ?thesis using False s1(1,2) by (auto simp: close_interval_def not_le)
  qed
  then obtain s' i' where s': "close_interval a s1 = Inr s'" "st_data s' = Some d" "st_ivl s' = Some i'"
    and cut: "(\<exists>m b. list_max (filter (\<lambda>t. t \<le> a) (map fst d)) = Some m \<and> b \<in> set i' \<and> m < b \<and> b \<le> a + 1)
         \<or> (\<forall>r \<in> set d. a < fst r)" by blast
  have hole: "\<not> covered t is" if h: "convert_time_bounds s' start fin = Inr (Some (x, y))" "x \<le> y"
    "intervals s' start fin = Inr is" "a \<le> t \<and> t < e" for start fin x y "is" t
  proof
    assume c: "covered t is"
    have spec: "interval_spec d i' x y is"
      using intervals_spec [OF s'(2,3) h(1,2)] h(3) by simp
    obtain u v where uv: "u \<in> fst ` set d" "v \<in> fst ` set d" "u \<le> t" "t \<le> v"
      "\<And>b. b \<in> set i' \<Longrightarrow> b \<le> u \<or> v < b"
      using covered_has_data [OF spec c] by blast
    have u: "u < a" "e \<le> v" using uv(1-4) h(4) by (auto simp: dset)
    from cut show False
    proof
      assume "\<forall>r \<in> set d. a < fst r"
      then show False using uv(1) u(1) by auto
    next
      assume "\<exists>m b. list_max (filter (\<lambda>t. t \<le> a) (map fst d)) = Some m \<and> b \<in> set i' \<and> m < b \<and> b \<le> a + 1"
      then obtain m b where mb: "list_max (filter (\<lambda>t. t \<le> a) (map fst d)) = Some m" "b \<in> set i'" "m < b" "b \<le> a + 1"
        by blast
      have "u \<le> m" using mb(1) uv(1) u(1) by (auto simp: list_max_Some_iff)
      then show False using uv(5) [OF mb(2)] mb(3,4) u h(4) by linarith
    qed
  qed
  show ?thesis
  proof (intro exI conjI allI impI)
    show "remove dc (Some a) (Some e) True s = Inr s'" using r s'(1) by simp
  qed (rule s'(2), rule dset, rule hole)
qed

theorem remove_leaves_hole_witness:
  "\<exists>s' rows'. remove (\<lambda>e rows. rows) (Some 8) (Some 15) True
      \<lparr>st_data = Some [(5, 1::nat), (9, 2), (20, 3)], st_ivl = Some [], st_decim = []\<rparr> = Inr s'
    \<and> st_data s' = Some rows'
    \<and> set rows' = {r \<in> set [(5, 1::nat), (9, 2), (20, 3)]. \<not> (8 \<le> fst r \<and> fst r < 15)}
    \<and> (\<forall>start fin x y is t. convert_time_bounds s' start fin = Inr (Some (x, y)) \<longrightarrow> x \<le> y
         \<longrightarrow> intervals s' start fin = Inr is \<longrightarrow> 8 \<le> t \<and> t < 15 \<longrightarrow> \<not> covered t is)"
  by (rule remove_leaves_hole [where bounds = "[]"]) auto

lemma extract_data_ok:
  assumes "distinct (map fst rows)" "2 \<le> bs" "length rows < n"
    and "no_full_interval bs rows (Some a) (map Some (sort (filter (in_bounds (Some a) (Some e)) bounds)) @ [Some e])"
  shows "\<exists>blocks. extract_data n bs (Some rows) (Some bounds) (Some a) (Some e) = Some blocks
    \<and> concat blocks = extract_spec rows (Some a) (map Some (sort (filter (in_bounds (Some a) (Some e)) bounds)) @ [Some e])
    \<and> (\<forall>b \<in> set blocks. b \<noteq> [] \<and> length b \<le> bs)"
  using extract_loop_ok [OF assms(1-4)] by (auto simp: extract_data_def)





text \<open>
  \<open>consolidate\<close> counts a gap it has not closed.  It deletes only the boundary at the start of the gap;
  when data between two boundaries has been removed the second one remains: one gap is reported as
  consolidated and the intervals are the same as before.
\<close>

lemma consolidate_leaves_gap:
  "let s = \<lparr>st_data = Some [(5, 1::nat), (20, 3)], st_ivl = Some [6, 11], st_decim = []\<rparr>
   in remove (\<lambda>e rows. rows) (Some 10) (Some 11) True
        \<lparr>st_data = Some [(5, 1::nat), (10, 2), (20, 3)], st_ivl = Some [6, 11], st_decim = []\<rparr> = Inr s
      \<and> intervals s None None = Inr [(5, 6), (20, 21)]
      \<and> (case consolidate s None None 100 of
            Inl _ \<Rightarrow> False
          | Inr (n, s') \<Rightarrow> n = 1 \<and> intervals s' None None = Inr [(5, 6), (20, 21)])"
  by code_simp

text \<open>
  \<open>remove\<close> can leave the removed range inside an interval: when the last row before the range lies
  exactly at a boundary, \<open>close_interval\<close> takes that boundary for one behind the row and adds none.
\<close>

lemma remove_at_boundary_no_hole:
  "let s = \<lparr>st_data = Some [(5, 1::nat), (6, 2), (8, 4), (20, 3)], st_ivl = Some [6], st_decim = []\<rparr>
   in case remove (\<lambda>e rows. rows) (Some 7) (Some 10) True s of
        Inl _ \<Rightarrow> False | Inr s' \<Rightarrow> intervals s' None None = Inr [(5, 6), (6, 21)]"
  by code_simp

text \<open>
  The bounds of a stream whose table exists but holds no rows: with a start and no end the code
  adds a microsecond to the missing last time, which raises a \<open>TypeError\<close>; its own test for this case
  comes too late.  Without a start it reports that there is no data.
\<close>

lemma empty_table_bounds:
  "convert_time_bounds \<lparr>st_data = Some [], st_ivl = i, st_decim = dt\<rparr> (Some a) None = Inl PyTypeError
   \<and> convert_time_bounds \<lparr>st_data = Some [], st_ivl = i, st_decim = dt\<rparr> None fin = Inr None"
  by (simp add: convert_time_bounds_def)

end
