(* ===== verification/Inserter.thy ===== *)
theory Inserter
  imports Timescale Pipe_Layout
begin

text \<open>
  \<open>src/src/joule/models/data_store/timescale_inserter.py\<close>: the coroutine that moves the rows of a pipe
  into the store (\<open>Inserter\<close>) and the chain of decimators behind it.  A row is its time and the list of
  its elements, of a type \<open>'f\<close>; numpy's means, minima, maxima and casts on them are parameters.

  A run is a sequence of iterations; each receives what \<open>pipe.read\<close> returned, whether it ended an
  interval, the current time and the place, if any, where the connection to the database is lost.
\<close>

type_synonym 'f drow = "int \<times> 'f list"

section \<open>The decimator\<close>

record 'f dec_fns =
  df_mean_ts :: "int list \<Rightarrow> int"
  df_mean :: "'f list \<Rightarrow> 'f"
  df_min :: "'f list \<Rightarrow> 'f"
  df_max :: "'f list \<Rightarrow> 'f"
  df_f32 :: "'f \<Rightarrow> 'f"

definition dec_factor :: nat where
  "dec_factor = 4"

text \<open>The columns \<open>a..b\<close> of a group of rows.\<close>

definition col_slice :: "'f drow list \<Rightarrow> nat \<Rightarrow> nat \<Rightarrow> 'f list list" where
  "col_slice rows a b = map (\<lambda>i. map (\<lambda>r. snd r ! i) rows) [a..<b]"

text \<open>
  One output row: the means (of the time, too), minima and maxima of a group.  At the first level the
  input has plain elements, at later ones the three groups of the level above.
\<close>

definition dec_row :: "'f dec_fns \<Rightarrow> bool \<Rightarrow> 'f drow list \<Rightarrow> 'f drow" where
  "dec_row F again rows =
     (let m = length (snd (hd rows)); c = (if again then m div 3 else m);
          mean_cols = col_slice rows 0 c;
          min_cols = (if again then col_slice rows c (2 * c) else col_slice rows 0 c);
          max_cols = (if again then col_slice rows (2 * c) (3 * c) else col_slice rows 0 c)
      in (df_mean_ts F (map fst rows),
          map (df_f32 F) (map (df_mean F) mean_cols @ map (df_min F) min_cols @ map (df_max F) max_cols)))"

text \<open>\<open>_process\<close>: the output rows and the rows that wait for more.\<close>

definition dec_step :: "'f dec_fns \<Rightarrow> bool \<Rightarrow> 'f drow list \<Rightarrow> 'f drow list \<Rightarrow> 'f drow list \<times> 'f drow list" where
  "dec_step F again buffer sarray =
     (let data = (if buffer \<noteq> [] then buffer @ sarray else sarray);
          n = length data div dec_factor * dec_factor
      in if n = 0 then ([], data)
         else (map (dec_row F again) (chunks dec_factor (take n data)), drop n data))"

text \<open>
  \<open>copy_to_table\<close>: the time is the primary key, and a COPY that violates it inserts nothing.
\<close>

definition copy_rows :: "(int \<times> 'v) list \<Rightarrow> (int \<times> 'v) list \<Rightarrow> (int \<times> 'v) list res" where
  "copy_rows new tbl =
     (if distinct (map fst (tbl @ new)) then Inr (tbl @ new) else Inl UniqueViolationError)"

definition copy_decim :: "nat \<Rightarrow> (int \<times> 'v) list \<Rightarrow> 'v tstore \<Rightarrow> 'v tstore res" where
  "copy_decim level new s =
     (case map_of (st_decim s) level of
        None \<Rightarrow> Inl UndefinedTableError
      | Some tbl \<Rightarrow>
          bindE (copy_rows new tbl)
            (\<lambda>tbl'. Inr (s\<lparr>st_decim := map (\<lambda>(l, t). if l = level then (l, tbl') else (l, t)) (st_decim s)\<rparr>)))"

text \<open>
  \<open>process\<close> for the whole chain.  The chain is the list of the buffers of the decimators that have
  processed something, the first one at \<open>level\<close>; a decimator creates its table when it first runs.
\<close>

lemma dec_step_shorter: "fst (dec_step F again [] data) \<noteq> [] \<Longrightarrow> length (fst (dec_step F again [] data)) < length data"
proof -
  assume a: "fst (dec_step F again [] data) \<noteq> []"
  then have "0 < length data div 4" by (auto simp: dec_step_def dec_factor_def Let_def split: if_splits)
  then show ?thesis
    using div_less_dividend [of 4 "length data"]
    by (auto simp: dec_step_def dec_factor_def Let_def length_chunks)
qed

function dec_process :: "'f dec_fns \<Rightarrow> nat \<Rightarrow> bool \<Rightarrow> 'f drow list list \<Rightarrow> 'f drow list \<Rightarrow> 'f list tstore
    \<Rightarrow> unit res \<times> 'f drow list list \<times> 'f list tstore" where
  "dec_process F level again bufs data s =
     (let s = (if bufs = [] then create_decimation_table level s else s);
          b = (case bufs of [] \<Rightarrow> [] | b # _ \<Rightarrow> b);
          out = fst (dec_step F again b data); b' = snd (dec_step F again b data)
      in if out = [] then (Inr (), b' # tl bufs, s)
         else (case copy_decim level out s of
                 Inl e \<Rightarrow> (Inl e, b' # tl bufs, s)
               | Inr s \<Rightarrow>
                   (case dec_process F (level * dec_factor) True (tl bufs) out s of
                      (r, bs, s) \<Rightarrow> (r, b' # bs, s))))"
  by pat_completeness auto
termination
proof (relation "measures [\<lambda>(F, level, again, bufs, data, s). length bufs,
    \<lambda>(F, level, again, bufs, data, s). length data]", goal_cases)
  case 1
  show ?case by simp
next
  case (2 F level again bufs data s x xa xb xc y)
  then show ?case
    using dec_step_shorter [of F again data] by (cases bufs) auto
qed

declare dec_process.simps [simp del]

definition dec_close_interval :: "'f drow list list \<Rightarrow> 'f drow list list" where
  "dec_close_interval bufs = map (\<lambda>_. []) bufs"

section \<open>The inserter\<close>

record ins_config =
  ic_decimate :: bool
  ic_keep_us :: int
  ic_merge_gap :: int
  ic_cleanup_interval :: nat

record 'f inserter =
  in_store :: "'f list tstore"
  in_bufs :: "'f drow list list option"
  in_first :: bool
  in_last_ts :: "int option"
  in_ticks :: nat
  in_consumed :: nat

definition ins_start :: "'f list tstore \<Rightarrow> 'f inserter" where
  "ins_start s = \<lparr>in_store = create_stream_table s, in_bufs = None, in_first = True, in_last_ts = None,
     in_ticks = 0, in_consumed = 0\<rparr>"

datatype fault = No_Fault | At_Acquire | At_Close | At_Copy | At_Decimate | At_Break | At_Cleanup

definition db_call :: "fault \<Rightarrow> fault \<Rightarrow> ('s, unit) act" where
  "db_call f here = (if f = here then raiseA PostgresConnectionError else pureA ())"

definition on_store :: "('f list tstore \<Rightarrow> 'f list tstore res) \<Rightarrow> ('f inserter, unit) act" where
  "on_store g st = (case g (in_store st) of Inl e \<Rightarrow> (Inl e, st) | Inr s \<Rightarrow> (Inr (), st\<lparr>in_store := s\<rparr>))"

text \<open>The first insert closes the interval before the new data, unless the gap is small enough.\<close>

definition ins_first :: "ins_config \<Rightarrow> fault \<Rightarrow> int \<Rightarrow> ('f inserter, unit) act" where
  "ins_first C f t0 st =
     (if \<not> in_first st then (Inr (), st)
      else seqA (modifyA (\<lambda>st. st\<lparr>in_first := False\<rparr>)) (\<lambda>_.
           seqA (db_call f At_Close) (\<lambda>_.
           seqA (on_store (close_interval (t0 - 1))) (\<lambda>_.
           whenA (0 < ic_merge_gap C)
             (on_store (\<lambda>s. Inr (remove_interval_breaks (t0 - ic_merge_gap C) t0 s)))))) st)"

definition ins_check :: "('f \<Rightarrow> bool) \<Rightarrow> 'f drow list \<Rightarrow> ('f inserter, unit) act" where
  "ins_check is_nan data st =
     (if \<not> timestamps_are_monotonic (map fst data) (in_last_ts st)
      then (Inl (DataError ''Non-monotonic timestamps in new data''), st)
      else if \<not> list_all (\<lambda>r. list_all (\<lambda>x. \<not> is_nan x) (snd r)) data
      then (Inl (DataError ''Invalid values (NaN) in new data''), st)
      else (Inr (), st))"

text \<open>\<open>last_ts\<close> is set before the rows are copied.\<close>

definition ins_copy :: "ins_config \<Rightarrow> fault \<Rightarrow> 'f drow list \<Rightarrow> ('f inserter, unit) act" where
  "ins_copy C f data =
     seqA (modifyA (\<lambda>st. st\<lparr>in_last_ts := Some (fst (last data)),
        in_bufs := (if ic_decimate C \<and> in_bufs st = None then Some [] else in_bufs st)\<rparr>)) (\<lambda>_.
     seqA (db_call f At_Copy) (\<lambda>_.
     seqA (on_store (\<lambda>s. case st_data s of None \<Rightarrow> Inl UndefinedTableError
        | Some tbl \<Rightarrow>
            (case copy_rows data tbl of
               Inl _ \<Rightarrow> Inl (DataError ''UniqueViolationError'')
             | Inr tbl' \<Rightarrow> Inr (s\<lparr>st_data := Some tbl'\<rparr>)))) (\<lambda>_.
     modifyA (\<lambda>st. st\<lparr>in_consumed := in_consumed st + length data\<rparr>))))"

definition ins_decimate :: "'f dec_fns \<Rightarrow> fault \<Rightarrow> 'f drow list \<Rightarrow> ('f inserter, unit) act" where
  "ins_decimate F f data st =
     (case in_bufs st of
        None \<Rightarrow> (Inr (), st)
      | Some bufs \<Rightarrow>
          seqA (db_call f At_Decimate) (\<lambda>_ st.
            (case dec_process F dec_factor False bufs data (in_store st) of
               (r, bufs', s) \<Rightarrow> (r, st\<lparr>in_bufs := Some bufs', in_store := s\<rparr>))) st)"

definition ins_break :: "fault \<Rightarrow> bool \<Rightarrow> ('f inserter, unit) act" where
  "ins_break f eoi st =
     (case in_last_ts st of
        None \<Rightarrow> (Inr (), st)
      | Some t \<Rightarrow>
          whenA eoi
            (seqA (db_call f At_Break) (\<lambda>_.
             seqA (on_store (close_interval t)) (\<lambda>_.
             modifyA (\<lambda>st. st\<lparr>in_bufs := map_option dec_close_interval (in_bufs st)\<rparr>)))) st)"

text \<open>
  \<open>cleanup\<close>: boundaries older than the stream keeps are deleted, of the other tables TimescaleDB drops
  old chunks (a parameter of the bound and the rows).
\<close>

definition ins_cleanup :: "(int \<Rightarrow> 'f drow list \<Rightarrow> 'f drow list) \<Rightarrow> ins_config \<Rightarrow> int \<Rightarrow> 'f list tstore
    \<Rightarrow> 'f list tstore res" where
  "ins_cleanup drop_chunks C now s =
     (if ic_keep_us C = -1 then Inr s
      else (let keep_s = ic_keep_us C div 1000000; bound = now - keep_s * 1000000 in
            case (st_data s, st_ivl s) of
              (Some d, Some i) \<Rightarrow>
                Inr (s\<lparr>st_decim := map (\<lambda>(l, t). (l, drop_chunks bound t)) (st_decim s),
                      st_data := Some (drop_chunks bound d),
                      st_ivl := Some (filter (\<lambda>t. \<not> t < now - ic_keep_us C) i)\<rparr>)
            | _ \<Rightarrow> Inl UndefinedTableError))"

definition ins_tick_body :: "'f dec_fns \<Rightarrow> ('f \<Rightarrow> bool) \<Rightarrow> (int \<Rightarrow> 'f drow list \<Rightarrow> 'f drow list) \<Rightarrow> ins_config
    \<Rightarrow> fault \<Rightarrow> int \<Rightarrow> 'f drow list \<Rightarrow> bool \<Rightarrow> ('f inserter, unit) act" where
  "ins_tick_body F is_nan dc C f now data eoi =
     seqA (db_call f At_Acquire) (\<lambda>_.
     seqA (whenA (data \<noteq> [])
       (seqA (ins_first C f (fst (hd data))) (\<lambda>_.
        seqA (ins_check is_nan data) (\<lambda>_.
        seqA (ins_copy C f data) (\<lambda>_.
        ins_decimate F f data))))) (\<lambda>_.
     seqA (ins_break f eoi) (\<lambda>_.
     seqA (modifyA (\<lambda>st. st\<lparr>in_ticks := Suc (in_ticks st)\<rparr>)) (\<lambda>_ st.
     whenA (in_ticks st mod ic_cleanup_interval C = 0)
       (seqA (db_call f At_Cleanup) (\<lambda>_. on_store (ins_cleanup dc C now))) st))))"

text \<open>One iteration: a lost connection is logged and the loop goes on, other exceptions end the run.\<close>

definition ins_tick :: "'f dec_fns \<Rightarrow> ('f \<Rightarrow> bool) \<Rightarrow> (int \<Rightarrow> 'f drow list \<Rightarrow> 'f drow list) \<Rightarrow> ins_config
    \<Rightarrow> fault \<Rightarrow> int \<Rightarrow> 'f drow list \<Rightarrow> bool \<Rightarrow> ('f inserter, unit) act" where
  "ins_tick F is_nan dc C f now data eoi st =
     (case ins_tick_body F is_nan dc C f now data eoi st of
        (Inl PostgresConnectionError, st') \<Rightarrow> (Inr (), st')
      | (r, st') \<Rightarrow> (r, st'))"

text \<open>
  The loop of \<open>run\<close> over the turns of the world; what was read but not consumed comes first in the next
  read.  The end of the list stands for \<open>EmptyPipeError\<close>.
\<close>

fun ins_run :: "'f dec_fns \<Rightarrow> ('f \<Rightarrow> bool) \<Rightarrow> (int \<Rightarrow> 'f drow list \<Rightarrow> 'f drow list) \<Rightarrow> ins_config
    \<Rightarrow> (fault \<times> int \<times> 'f drow list \<times> bool) list \<Rightarrow> 'f drow list \<Rightarrow> ('f inserter, unit) act" where
  "ins_run F is_nan dc C [] pending st = (Inr (), st)"
| "ins_run F is_nan dc C ((f, now, new, eoi) # turns) pending st =
     (let data = pending @ new in
      case ins_tick F is_nan dc C f now data eoi st of
        (Inl e, st') \<Rightarrow> (Inl e, st')
      | (Inr _, st') \<Rightarrow>
          ins_run F is_nan dc C turns (if in_consumed st < in_consumed st' then [] else data) st')"

section \<open>The decimator does not depend on how the rows are cut into blocks\<close>

lemma length_take_mult: "length (take (length xs div n * n) xs) = length xs div n * n"
  unfolding length_take by (rule min.absorb2) (rule div_times_less_eq_dividend)

lemma chunks_take_mult: "0 < n \<Longrightarrow> chunks n (take (length xs div n * n) xs) = chunks n xs"
proof -
  assume n: "0 < n"
  let ?k = "length xs div n * n"
  have m: "length (take ?k xs) mod n = 0" unfolding length_take_mult by simp
  have "length (drop ?k xs) < n" using n by (simp add: minus_div_mult_eq_mod)
  then have "chunks n (drop ?k xs) = []" by (rule chunks_short)
  then show ?thesis using chunks_append_mult [OF n m, of "drop ?k xs"] by simp
qed

lemma dec_step_alt:
  "dec_step F again b xs =
     (map (dec_row F again) (chunks dec_factor (b @ xs)), drop (length (b @ xs) div dec_factor * dec_factor) (b @ xs))"
proof -
  obtain data where data: "data = b @ xs" by simp
  have c: "chunks dec_factor (take (length data div dec_factor * dec_factor) data) = chunks dec_factor data"
    by (rule chunks_take_mult) (simp add: dec_factor_def)
  have "(if b \<noteq> [] then b @ xs else xs) = data" by (simp add: data)
  then have unf: "dec_step F again b xs =
     (if length data div dec_factor * dec_factor = 0 then ([], data)
      else (map (dec_row F again) (chunks dec_factor (take (length data div dec_factor * dec_factor) data)),
            drop (length data div dec_factor * dec_factor) data))"
    by (simp only: dec_step_def Let_def)
  show ?thesis
  proof (cases "length data div dec_factor * dec_factor = 0")
    case True
    then have "chunks dec_factor data = []" using c by (metis chunks_Nil take0)
    then show ?thesis unfolding unf data [symmetric] True by simp
  next
    case False
    then show ?thesis using c unfolding unf data [symmetric] by simp
  qed
qed

lemma drop_mult_prefix:
  assumes "0 < n" "length ts mod n = 0"
  shows "drop (length (ts @ z) div n * n) (ts @ z) = drop (length z div n * n) z"
proof -
  obtain q where q: "length ts = q * n" using assms(2) by (metis mod_0_imp_dvd dvd_div_mult_self)
  have "length (ts @ z) div n * n = length ts + length z div n * n"
    using assms(1) q by (simp add: distrib_right)
  then show ?thesis by simp
qed

lemma dec_step_append:
  assumes "dec_step F again b xs = (o1, b1)" "dec_step F again b1 ys = (o2, b2)"
  shows "dec_step F again b (xs @ ys) = (o1 @ o2, b2)" and "length b1 < dec_factor"
    and "length o1 = length (b @ xs) div dec_factor"
proof -
  let ?n = dec_factor
  have n: "0 < ?n" by (simp add: dec_factor_def)
  let ?t = "take (length (b @ xs) div ?n * ?n) (b @ xs)"
  have m: "length ?t mod ?n = 0" unfolding length_take_mult by simp
  have b1: "b1 = drop (length (b @ xs) div ?n * ?n) (b @ xs)" and o1: "o1 = map (dec_row F again) (chunks ?n (b @ xs))"
    using assms(1) by (simp_all add: dec_step_alt)
  have all: "b @ xs @ ys = ?t @ b1 @ ys" unfolding b1 by (metis append.assoc append_take_drop_id)
  have "chunks ?n (b @ xs @ ys) = chunks ?n (b @ xs) @ chunks ?n (b1 @ ys)"
    unfolding all chunks_append_mult [OF n m] chunks_take_mult [OF n] by simp
  moreover have "drop (length (b @ xs @ ys) div ?n * ?n) (b @ xs @ ys) = drop (length (b1 @ ys) div ?n * ?n) (b1 @ ys)"
    unfolding all by (rule drop_mult_prefix [OF n m])
  ultimately show "dec_step F again b (xs @ ys) = (o1 @ o2, b2)"
    using assms by (simp add: dec_step_alt)
  show "length b1 < ?n" unfolding b1 length_drop using n by (metis minus_div_mult_eq_mod mod_less_divisor)
  show "length o1 = length (b @ xs) div ?n" using n by (simp add: o1 length_chunks)
qed

section \<open>What a run stores\<close>

text \<open>The rows in the store and the number of rows consumed from the pipe.\<close>

definition stored_rows :: "'f inserter \<Rightarrow> 'f drow list option \<times> nat" where
  "stored_rows st = (st_data (in_store st), in_consumed st)"

definition keeps_rows :: "('f inserter, 'a) act \<Rightarrow> bool" where
  "keeps_rows f = (\<forall>st. stored_rows (snd (f st)) = stored_rows st)"

lemma keeps_rowsD: "keeps_rows f \<Longrightarrow> stored_rows (snd (f st)) = stored_rows st"
  by (simp add: keeps_rows_def)

named_theorems keeps_intros \<open>actions that leave the rows alone\<close>

lemma keeps_seq [keeps_intros]:
  "keeps_rows f \<Longrightarrow> (\<And>x. keeps_rows (g x)) \<Longrightarrow> keeps_rows (seqA f g)"
  unfolding keeps_rows_def seqA_def
  by (auto split: prod.split sum.split) (metis snd_conv)+

lemma keeps_basic [keeps_intros]:
  "keeps_rows (pureA x)" "keeps_rows (raiseA e)" "keeps_rows (db_call f0 f1)"
  "(\<And>st. stored_rows (h st) = stored_rows st) \<Longrightarrow> keeps_rows (modifyA h)"
  "keeps_rows f' \<Longrightarrow> keeps_rows (whenA b f')"
  by (simp_all add: keeps_rows_def db_call_def whenA_def)

lemma keeps_on_store [keeps_intros]:
  "(\<And>s s'. g s = Inr s' \<Longrightarrow> st_data s' = st_data s) \<Longrightarrow> keeps_rows (on_store g)"
  by (auto simp: keeps_rows_def on_store_def stored_rows_def split: sum.split)

lemma close_interval_data: "close_interval t s = Inr s' \<Longrightarrow> st_data s' = st_data s"
  by (auto simp: close_interval_def split: option.splits if_splits)

lemma remove_breaks_data: "st_data (remove_interval_breaks a b s) = st_data s"
  by (auto simp: remove_interval_breaks_def split: option.splits)

lemma copy_decim_data: "copy_decim l new s = Inr s' \<Longrightarrow> st_data s' = st_data s"
  by (auto simp: copy_decim_def res_simps split: option.splits)

lemma dec_process_data: "st_data (snd (snd (dec_process F level again bufs data s))) = st_data s"
proof (induction F level again bufs data s rule: dec_process.induct)
  case (1 F level again bufs data s)
  let ?s = "if bufs = [] then create_decimation_table level s else s"
  let ?b = "case bufs of [] \<Rightarrow> [] | b # _ \<Rightarrow> b"
  let ?out = "fst (dec_step F again ?b data)"
  have s: "st_data ?s = st_data s" by (simp add: create_decimation_table_def)
  show ?case
  proof (cases "?out = []")
    case True
    then show ?thesis using s by (simp add: dec_process.simps [of F level again bufs data s] Let_def)
  next
    case False
    show ?thesis
    proof (cases "copy_decim level ?out ?s")
      case (Inl e)
      then show ?thesis using s False by (simp add: dec_process.simps [of F level again bufs data s] Let_def)
    next
      case (Inr s1)
      obtain r bs s2 where r: "dec_process F (level * dec_factor) True (tl bufs) ?out s1 = (r, bs, s2)"
        by (metis prod_cases3)
      have "st_data s2 = st_data s1" using "1.IH" [OF refl refl refl refl False Inr] r by simp
      moreover have "st_data s1 = st_data ?s" by (rule copy_decim_data [OF Inr])
      ultimately show ?thesis
        using False Inr r s by (simp add: dec_process.simps [of F level again bufs data s] Let_def)
    qed
  qed
qed

lemma keeps_first [keeps_intros]: "keeps_rows (ins_first C f t0)"
proof -
  have "keeps_rows (seqA (modifyA (\<lambda>st. st\<lparr>in_first := False\<rparr>)) (\<lambda>_.
           seqA (db_call f At_Close) (\<lambda>_.
           seqA (on_store (close_interval (t0 - 1))) (\<lambda>_.
           whenA (0 < ic_merge_gap C)
             (on_store (\<lambda>s. Inr (remove_interval_breaks (t0 - ic_merge_gap C) t0 s)))))))"
    by (intro keeps_intros) (auto simp: stored_rows_def close_interval_data remove_breaks_data)
  note k = keeps_rowsD [OF this]
  show ?thesis unfolding keeps_rows_def
  proof
    fix st
    show "stored_rows (snd (ins_first C f t0 st)) = stored_rows st"
      using k [of st] by (cases "in_first st") (simp_all only: ins_first_def not_True_eq_False not_False_eq_True
        if_True if_False snd_conv)
  qed
qed

lemma keeps_check [keeps_intros]: "keeps_rows (ins_check is_nan data)"
  by (simp add: keeps_rows_def ins_check_def)

lemma keeps_decimate [keeps_intros]: "keeps_rows (ins_decimate F f data)"
proof -
  have "stored_rows (snd (ins_decimate F f data st)) = stored_rows st" for st
  proof (cases "in_bufs st")
    case (Some bufs)
    then show ?thesis
      using dec_process_data [of F dec_factor False bufs data "in_store st"]
      by (auto simp: ins_decimate_def stored_rows_def db_call_def seqA_def split: prod.splits)
  qed (simp add: ins_decimate_def)
  then show ?thesis by (simp add: keeps_rows_def)
qed

lemma keeps_break [keeps_intros]: "keeps_rows (ins_break f eoi)"
proof -
  have "keeps_rows (whenA eoi
            (seqA (db_call f At_Break) (\<lambda>_.
             seqA (on_store (close_interval t)) (\<lambda>_.
             modifyA (\<lambda>st. st\<lparr>in_bufs := map_option dec_close_interval (in_bufs st)\<rparr>)))))" for t
    by (intro keeps_intros) (auto simp: stored_rows_def close_interval_data)
  then show ?thesis by (auto simp: keeps_rows_def ins_break_def split: option.split)
qed

lemma cleanup_keep_all: "ic_keep_us C = -1 \<Longrightarrow> ins_cleanup dc C now s = Inr s"
  by (simp add: ins_cleanup_def)

text \<open>Copying is the only action that adds rows, and it consumes them in the same moment.\<close>

lemma ins_copy_rows:
  assumes "st_data (in_store st) = Some tbl"
  shows "stored_rows (snd (ins_copy C f data st)) \<in> {(Some tbl, in_consumed st), (Some (tbl @ data), in_consumed st + length data)}"
proof -
  let ?st = "st\<lparr>in_last_ts := Some (fst (last data)),
        in_bufs := (if ic_decimate C \<and> in_bufs st = None then Some [] else in_bufs st)\<rparr>"
  show ?thesis
  proof (cases "f = At_Copy")
    case True
    then show ?thesis using assms by (simp add: ins_copy_def seqA_def db_call_def stored_rows_def)
  next
    case False
    then show ?thesis
      using assms
      by (auto simp: ins_copy_def seqA_def db_call_def stored_rows_def on_store_def copy_rows_def)
  qed
qed

lemma keeps_part:
  assumes "keeps_rows f" "\<And>x. keeps_rows (g x)"
  shows "stored_rows (snd (seqA f g st)) = stored_rows st"
  using keeps_rowsD [OF keeps_seq [OF assms]] .

lemma tick_rows:
  assumes "st_data (in_store st) = Some tbl" "ic_keep_us C = -1"
  shows "stored_rows (snd (ins_tick F is_nan dc C f now data eoi st))
    \<in> {(Some tbl, in_consumed st), (Some (tbl @ data), in_consumed st + length data)}"
proof -
  let ?S = "{(Some tbl, in_consumed st), (Some (tbl @ data), in_consumed st + length data)}"
  have end_part: "keeps_rows (seqA (ins_break f eoi) (\<lambda>_.
     seqA (modifyA (\<lambda>st. st\<lparr>in_ticks := Suc (in_ticks st)\<rparr>)) (\<lambda>_ st.
     whenA (in_ticks st mod ic_cleanup_interval C = 0)
       (seqA (db_call f At_Cleanup) (\<lambda>_. on_store (ins_cleanup dc C now))) st)))"
  proof (intro keeps_intros)
    show "keeps_rows (\<lambda>st. whenA (in_ticks st mod ic_cleanup_interval C = 0)
       (seqA (db_call f At_Cleanup) (\<lambda>_. on_store (ins_cleanup dc C now))) st)"
    proof -
      have "keeps_rows (whenA b (seqA (db_call f At_Cleanup) (\<lambda>_. on_store (ins_cleanup dc C now))))" for b
        by (intro keeps_intros) (auto simp: cleanup_keep_all [OF assms(2)])
      then show ?thesis by (simp add: keeps_rows_def)
    qed
  qed (simp add: stored_rows_def)
  have start: "keeps_rows (db_call f At_Acquire)" by (rule keeps_intros)
  have mid: "stored_rows (snd (seqA (ins_first C f (fst (hd data))) (\<lambda>_.
        seqA (ins_check is_nan data) (\<lambda>_.
        seqA (ins_copy C f data) (\<lambda>_.
        ins_decimate F f data))) s)) \<in> ?S"
    if s: "stored_rows s = (Some tbl, in_consumed st)" for s
  proof -
    obtain r1 s1 where f1: "ins_first C f (fst (hd data)) s = (r1, s1)" by fastforce
    then have o1: "stored_rows s1 = (Some tbl, in_consumed st)"
      using keeps_rowsD [OF keeps_first, of C f "fst (hd data)" s] s by simp
    obtain r2 s2 where f2: "ins_check is_nan data s1 = (r2, s2)" by fastforce
    then have o2: "stored_rows s2 = (Some tbl, in_consumed st)"
      using keeps_rowsD [OF keeps_check, of is_nan data s1] o1 by simp
    obtain r3 s3 where f3: "ins_copy C f data s2 = (r3, s3)" by fastforce
    have o3: "stored_rows s3 \<in> ?S"
      using ins_copy_rows [of s2 tbl C f data] f3 o2 by (auto simp: stored_rows_def)
    have o4: "stored_rows (snd (ins_decimate F f data s3)) \<in> ?S"
      using keeps_rowsD [OF keeps_decimate, of F f data s3] o3 by simp
    show ?thesis using f1 f2 f3 o1 o2 o3 o4 by (simp add: seqA_def split: sum.split)
  qed
  have "stored_rows (snd (ins_tick_body F is_nan dc C f now data eoi st)) \<in> ?S"
  proof -
    have st: "stored_rows st = (Some tbl, in_consumed st)" using assms(1) by (simp add: stored_rows_def)
    obtain r1 s1 where f1: "db_call f At_Acquire st = (r1, s1)" by fastforce
    then have o1: "stored_rows s1 = (Some tbl, in_consumed st)"
      using keeps_rowsD [OF start, of st] st by simp
    obtain r2 s2 where f2: "whenA (data \<noteq> []) (seqA (ins_first C f (fst (hd data))) (\<lambda>_.
        seqA (ins_check is_nan data) (\<lambda>_. seqA (ins_copy C f data) (\<lambda>_. ins_decimate F f data)))) s1 = (r2, s2)"
      by fastforce
    have o2: "stored_rows s2 \<in> ?S" using mid [OF o1] f2 o1 by (auto simp: whenA_def split: if_splits)
    show ?thesis
      using f1 f2 o1 o2 keeps_rowsD [OF end_part, of s2]
      by (simp add: ins_tick_body_def seqA_def split: sum.split)
  qed
  then show ?thesis by (auto simp: ins_tick_def split: prod.splits sum.splits exn.splits)
qed

definition arriving :: "(fault \<times> int \<times> 'f drow list \<times> bool) list \<Rightarrow> 'f drow list" where
  "arriving turns = concat (map (\<lambda>(f, now, new, eoi). new) turns)"

lemma arriving_simps [simp]:
  "arriving [] = []" "arriving ((f, now, new, eoi) # turns) = new @ arriving turns"
  by (simp_all add: arriving_def)

lemma run_rows:
  assumes "ic_keep_us C = -1" "ins_run F is_nan dc C turns pending st = (r, st')"
    and "st_data (in_store st) = Some tbl"
  shows "\<exists>k. st_data (in_store st') = Some (tbl @ take k (pending @ arriving turns))
     \<and> in_consumed st' = in_consumed st + k"
  using assms(2,3)
proof (induction turns arbitrary: pending st tbl)
  case Nil
  then show ?case by (intro exI [of _ 0]) simp
next
  case (Cons t turns)
  obtain f now new eoi where t: "t = (f, now, new, eoi)" by (metis prod_cases4)
  let ?data = "pending @ new"
  let ?rest = "arriving turns"
  obtain r1 s1 where tick: "ins_tick F is_nan dc C f now ?data eoi st = (r1, s1)" by fastforce
  have s1: "(st_data (in_store s1) = Some tbl \<and> in_consumed s1 = in_consumed st)
     \<or> (st_data (in_store s1) = Some (tbl @ ?data) \<and> in_consumed s1 = in_consumed st + length ?data)"
    using tick_rows [OF Cons.prems(2) assms(1), of F is_nan dc f now ?data eoi] tick
    by (auto simp: stored_rows_def)
  show ?case
  proof (cases r1)
    case (Inl e)
    then have "st' = s1" using Cons.prems(1) t tick by simp
    then show ?thesis using s1 t
    proof (elim disjE)
      assume "st_data (in_store s1) = Some (tbl @ ?data) \<and> in_consumed s1 = in_consumed st + length ?data"
      then show ?thesis using \<open>st' = s1\<close> t by (intro exI [of _ "length ?data"]) simp
    qed (intro exI [of _ 0], simp)
  next
    case (Inr u)
    have run: "ins_run F is_nan dc C turns (if in_consumed st < in_consumed s1 then [] else ?data) s1 = (r, st')"
      using Cons.prems(1) t tick Inr by simp
    from s1 show ?thesis
    proof
      assume s: "st_data (in_store s1) = Some tbl \<and> in_consumed s1 = in_consumed st"
      then have "ins_run F is_nan dc C turns ?data s1 = (r, st')" using run by simp
      from Cons.IH [OF this] s show ?thesis using t by simp
    next
      assume s: "st_data (in_store s1) = Some (tbl @ ?data) \<and> in_consumed s1 = in_consumed st + length ?data"
      show ?thesis
      proof (cases "?data = []")
        case True
        then have "ins_run F is_nan dc C turns [] s1 = (r, st')"
          using run by (cases "in_consumed st < in_consumed s1") simp_all
        from Cons.IH [OF this] s show ?thesis using t True by simp
      next
        case False
        then have "in_consumed st < in_consumed s1" using s by simp
        then have "ins_run F is_nan dc C turns [] s1 = (r, st')" using run by simp
        from Cons.IH [OF this] s obtain k where
          "st_data (in_store st') = Some ((tbl @ ?data) @ take k ([] @ ?rest))" "in_consumed st' = in_consumed s1 + k"
          by blast
        then show ?thesis using s t by (intro exI [of _ "length ?data + k"]) simp
      qed
    qed
  qed
qed

section \<open>Properties\<close>

text \<open>
  C4.  The rows of a stream table are always a prefix of what arrived.  Whatever happens in a run of the
  inserter, lost connections at any place and the exceptions that end it included, the table (of a
  stream that keeps all data) is the old one followed by the first \<open>k\<close> rows of the input in order, and
  exactly \<open>k\<close> rows have been consumed from the pipe: no row is stored twice, skipped or stored before it
  is its turn.
\<close>

theorem inserter_stores_prefix:
  assumes "ic_keep_us C = -1" "ins_run F is_nan dc C turns pending st = (r, st')"
    and "st_data (in_store st) = Some tbl"
  shows "\<exists>k. st_data (in_store st') = Some (tbl @ take k (pending @ arriving turns))
     \<and> in_consumed st' = in_consumed st + k"
  using assms by (rule run_rows)

definition demo_fns :: "int dec_fns" where
  "demo_fns = \<lparr>df_mean_ts = hd, df_mean = hd, df_min = hd, df_max = hd, df_f32 = id\<rparr>"

definition demo_config :: ins_config where
  "demo_config = \<lparr>ic_decimate = True, ic_keep_us = -1, ic_merge_gap = 0, ic_cleanup_interval = 1\<rparr>"

definition demo_turns :: "(fault \<times> int \<times> int drow list \<times> bool) list" where
  "demo_turns = [(At_Copy, 0, [(1, [7])], False), (No_Fault, 0, [(2, [8])], True)]"

theorem inserter_stores_prefix_witness:
  "case ins_run demo_fns (\<lambda>x. False) (\<lambda>b t. t) demo_config demo_turns [] (ins_start empty_store) of (r, st') \<Rightarrow>
     \<exists>k. st_data (in_store st') = Some ([] @ take k ([] @ arriving demo_turns))
     \<and> in_consumed st' = in_consumed (ins_start empty_store :: int inserter) + k"
proof (cases "ins_run demo_fns (\<lambda>x. False) (\<lambda>b t. t) demo_config demo_turns [] (ins_start empty_store)")
  case (Pair r st')
  show ?thesis unfolding Pair prod.case
    by (rule inserter_stores_prefix [OF _ Pair])
      (simp_all add: demo_config_def ins_start_def create_stream_table_def empty_store_def)
qed

text \<open>
  C16.  A connection that is lost while rows are copied is fatal.  The handler logs it and tries again,
  but \<open>last_ts\<close> already is the time of the last row of the block, so the next iteration, which reads the
  same rows again, always fails with the error for non-monotonic timestamps and the inserter ends.
\<close>

theorem inserter_retry_fails:
  assumes "data \<noteq> []" "\<not> in_first st" "timestamps_are_monotonic (map fst data) (in_last_ts st)"
    and "list_all (\<lambda>r. list_all (\<lambda>x. \<not> is_nan x) (snd r)) data"
  shows "fst (ins_run F is_nan dc C [(At_Copy, now, data, eoi), (No_Fault, now', new, eoi')] [] st)
    = Inl (DataError ''Non-monotonic timestamps in new data'')"
proof -
  define st1 where "st1 = st\<lparr>in_last_ts := Some (fst (last data)),
        in_bufs := (if ic_decimate C \<and> in_bufs st = None then Some [] else in_bufs st)\<rparr>"
  have first: "ins_first C f t st = (Inr (), st)" "ins_first C f t st1 = (Inr (), st1)" for f t
    using assms(2) by (simp_all add: ins_first_def st1_def)
  have check: "ins_check is_nan data st = (Inr (), st)" using assms(3,4) by (simp add: ins_check_def)
  have copy: "ins_copy C At_Copy data st = (Inl PostgresConnectionError, st1)"
    by (simp add: ins_copy_def seqA_def db_call_def st1_def)
  have tick1: "ins_tick F is_nan dc C At_Copy now data eoi st = (Inr (), st1)"
    using assms(1) first check copy
    by (simp add: ins_tick_def ins_tick_body_def seqA_def db_call_def whenA_def)
  have hd_le: "fst (hd (data @ new)) \<le> fst (last data)"
  proof -
    have "sorted_wrt (<) (map fst data)"
      using assms(3) by (simp add: monotonic_iff sorted_wrt_append)
    then have "sorted (map fst data)" by (simp add: strict_sorted_iff)
    then show ?thesis using assms(1) by (cases data) auto
  qed
  have "\<not> timestamps_are_monotonic (map fst (data @ new)) (Some (fst (last data)))"
    using hd_le assms(1) by (cases data) (auto simp: timestamps_are_monotonic_def)
  then have check2: "ins_check is_nan (data @ new) st1
      = (Inl (DataError ''Non-monotonic timestamps in new data''), st1)"
    by (simp add: ins_check_def st1_def)
  have tick2: "ins_tick F is_nan dc C No_Fault now' (data @ new) eoi' st1
      = (Inl (DataError ''Non-monotonic timestamps in new data''), st1)"
    using assms(1) first check2
    by (simp add: ins_tick_def ins_tick_body_def seqA_def db_call_def whenA_def)
  have "in_consumed st1 = in_consumed st" by (simp add: st1_def)
  then show ?thesis using tick1 tick2 by simp
qed

theorem inserter_retry_fails_witness:
  "fst (ins_run demo_fns (\<lambda>x. False) (\<lambda>b t. t) demo_config
      [(At_Copy, 0, [(1, [7])], False), (No_Fault, 0, [(2, [8])], False)] []
      ((ins_start empty_store)\<lparr>in_first := False\<rparr>))
    = Inl (DataError ''Non-monotonic timestamps in new data'')"
  by (rule inserter_retry_fails) (simp_all add: ins_start_def timestamps_are_monotonic_def)

section \<open>Complete storage of good input\<close>

definition ins_ready :: "'f inserter \<Rightarrow> (int \<times> 'f list) list \<Rightarrow> bool" where
  "ins_ready st tbl = (st_data (in_store st) = Some tbl \<and> st_ivl (in_store st) \<noteq> None \<and> in_bufs st = None
     \<and> distinct (map fst tbl)
     \<and> (\<forall>t. in_last_ts st = Some t \<longrightarrow> tbl \<noteq> [] \<and> t = fst (last tbl)))"

lemma close_interval_total:
  "st_ivl s \<noteq> None \<Longrightarrow> \<exists>s'. close_interval t s = Inr s' \<and> st_data s' = st_data s \<and> st_ivl s' \<noteq> None
     \<and> st_decim s' = st_decim s"
  by (auto simp: close_interval_def split: option.splits)

lemma ins_first_total:
  assumes "st_ivl (in_store st) \<noteq> None"
  shows "\<exists>s'. ins_first C No_Fault t0 st = (Inr (), st\<lparr>in_first := False, in_store := s'\<rparr>)
     \<and> st_data s' = st_data (in_store st) \<and> st_ivl s' \<noteq> None"
proof (cases "in_first st")
  case False
  then show ?thesis using assms by (intro exI [of _ "in_store st"]) (simp add: ins_first_def)
next
  case True
  obtain s1 where s1: "close_interval (t0 - 1) (in_store st) = Inr s1" "st_data s1 = st_data (in_store st)"
    "st_ivl s1 \<noteq> None"
    using close_interval_total [OF assms] by blast
  have ivl: "st_ivl (remove_interval_breaks a b s1) \<noteq> None" for a b
    using s1(3) by (auto simp: remove_interval_breaks_def split: option.splits)
  show ?thesis
  proof (cases "0 < ic_merge_gap C")
    case gap: True
    show ?thesis using True gap s1 ivl
      by (intro exI [of _ "remove_interval_breaks (t0 - ic_merge_gap C) t0 s1"])
        (simp add: ins_first_def seqA_def db_call_def on_store_def remove_breaks_data)
  next
    case False
    then show ?thesis using True s1
      by (intro exI [of _ s1]) (simp add: ins_first_def seqA_def db_call_def on_store_def)
  qed
qed

lemma ins_break_total:
  assumes "st_ivl (in_store st) \<noteq> None" "in_bufs st = None"
  shows "\<exists>s'. ins_break No_Fault eoi st = (Inr (), st\<lparr>in_store := s'\<rparr>)
     \<and> st_data s' = st_data (in_store st) \<and> st_ivl s' \<noteq> None"
proof (cases "in_last_ts st")
  case None
  then show ?thesis using assms by (intro exI [of _ "in_store st"]) (simp add: ins_break_def)
next
  case (Some t)
  obtain s1 where s1: "close_interval t (in_store st) = Inr s1" "st_data s1 = st_data (in_store st)"
    "st_ivl s1 \<noteq> None"
    using close_interval_total [OF assms(1)] by blast
  show ?thesis
  proof (cases eoi)
    case True
    then show ?thesis using Some s1 assms(2)
      by (intro exI [of _ s1]) (cases st, simp add: ins_break_def seqA_def db_call_def on_store_def)
  next
    case False
    then show ?thesis using Some assms by (intro exI [of _ "in_store st"]) (simp add: ins_break_def)
  qed
qed

lemma tick_ready:
  assumes ready: "ins_ready st tbl" and cfg: "\<not> ic_decimate C" "ic_keep_us C = -1"
    and mono: "sorted_wrt (<) (opt_list (in_last_ts st) @ map fst data)"
    and fresh: "fst ` set tbl \<inter> fst ` set data = {}"
    and nan: "list_all (\<lambda>r. list_all (\<lambda>x. \<not> is_nan x) (snd r)) data"
  shows "\<exists>st'. ins_tick F is_nan dc C No_Fault now data eoi st = (Inr (), st') \<and> ins_ready st' (tbl @ data)
    \<and> in_consumed st' = in_consumed st + length data
    \<and> in_last_ts st' = (if data = [] then in_last_ts st else Some (fst (last data)))"
proof -
  define body where "body = whenA (data \<noteq> [])
       (seqA (ins_first C No_Fault (fst (hd data))) (\<lambda>_. seqA (ins_check is_nan data) (\<lambda>_.
        seqA (ins_copy C No_Fault data) (\<lambda>_. ins_decimate F No_Fault data))))"
  have ivl: "st_ivl (in_store st) \<noteq> None" and bufs: "in_bufs st = None" using ready by (simp_all add: ins_ready_def)
  have "\<exists>st1. body st = (Inr (), st1) \<and> ins_ready st1 (tbl @ data) \<and> in_consumed st1 = in_consumed st + length data
    \<and> in_last_ts st1 = (if data = [] then in_last_ts st else Some (fst (last data)))"
  proof (cases "data = []")
    case True
    then show ?thesis using ready by (simp add: body_def)
  next
    case False
    obtain s1 where s1: "ins_first C No_Fault (fst (hd data)) st = (Inr (), st\<lparr>in_first := False, in_store := s1\<rparr>)"
      "st_data s1 = st_data (in_store st)" "st_ivl s1 \<noteq> None"
      using ins_first_total [OF ivl] by blast
    let ?st1 = "st\<lparr>in_first := False, in_store := s1\<rparr>"
    have check: "ins_check is_nan data ?st1 = (Inr (), ?st1)"
      using mono nan by (simp add: ins_check_def monotonic_iff)
    have "distinct (map fst data)" using mono by (simp add: sorted_wrt_append strict_sorted_iff)
    then have dist: "distinct (map fst (tbl @ data))" using ready fresh by (force simp: ins_ready_def)
    let ?st2 = "?st1\<lparr>in_last_ts := Some (fst (last data)), in_store := s1\<lparr>st_data := Some (tbl @ data)\<rparr>,
      in_consumed := in_consumed st + length data\<rparr>"
    have copy: "ins_copy C No_Fault data ?st1 = (Inr (), ?st2)"
      using ready cfg(1) s1(2) dist
      by (cases st) (simp add: ins_copy_def seqA_def db_call_def on_store_def copy_rows_def ins_ready_def)
    have dec: "ins_decimate F No_Fault data ?st2 = (Inr (), ?st2)" using bufs by (simp add: ins_decimate_def)
    have "body st = (Inr (), ?st2)"
      using False s1(1) check copy dec by (simp add: body_def seqA_def)
    moreover have "ins_ready ?st2 (tbl @ data)" using s1(3) bufs dist False by (auto simp: ins_ready_def)
    ultimately show ?thesis using False by auto
  qed
  then obtain st1 where st1: "body st = (Inr (), st1)" "ins_ready st1 (tbl @ data)"
    "in_consumed st1 = in_consumed st + length data"
    "in_last_ts st1 = (if data = [] then in_last_ts st else Some (fst (last data)))" by blast
  obtain s2 where s2: "ins_break No_Fault eoi st1 = (Inr (), st1\<lparr>in_store := s2\<rparr>)"
    "st_data s2 = st_data (in_store st1)" "st_ivl s2 \<noteq> None"
    using ins_break_total [of st1 eoi] st1(2) by (auto simp: ins_ready_def)
  let ?st' = "st1\<lparr>in_store := s2, in_ticks := Suc (in_ticks st1)\<rparr>"
  have "ins_tick_body F is_nan dc C No_Fault now data eoi st = (Inr (), ?st')"
    using st1(1) s2(1)
    by (simp add: ins_tick_body_def seqA_def db_call_def body_def on_store_def whenA_def
        cleanup_keep_all [OF cfg(2)])
  then show ?thesis using st1 s2 by (auto simp: ins_tick_def ins_ready_def)
qed

lemma run_complete:
  assumes "\<not> ic_decimate C" "ic_keep_us C = -1" "\<forall>(f, now, new, eoi) \<in> set turns. f = No_Fault"
  shows "ins_ready st tbl \<Longrightarrow>
    sorted_wrt (<) (opt_list (in_last_ts st) @ map fst (arriving turns)) \<Longrightarrow>
    fst ` set tbl \<inter> fst ` set (arriving turns) = {} \<Longrightarrow>
    list_all (\<lambda>r. list_all (\<lambda>x. \<not> is_nan x) (snd r)) (arriving turns) \<Longrightarrow>
    \<exists>st'. ins_run F is_nan dc C turns [] st = (Inr (), st')
      \<and> st_data (in_store st') = Some (tbl @ arriving turns) \<and> st_ivl (in_store st') \<noteq> None"
  using assms(3)
proof (induction turns arbitrary: st tbl)
  case Nil
  then show ?case by (simp add: ins_ready_def)
next
  case (Cons t turns)
  obtain now new eoi where t: "t = (No_Fault, now, new, eoi)" using Cons.prems(5) by (cases t) auto
  let ?rest = "arriving turns"
  have m: "sorted_wrt (<) (opt_list (in_last_ts st) @ map fst new @ map fst ?rest)"
    using Cons.prems(2) by (simp add: t)
  have "sorted_wrt (<) (opt_list (in_last_ts st) @ map fst new)"
    using m by (simp add: sorted_wrt_append)
  moreover have "fst ` set tbl \<inter> fst ` set new = {}" using Cons.prems(3) by (auto simp: t)
  moreover have "list_all (\<lambda>r. list_all (\<lambda>x. \<not> is_nan x) (snd r)) new" using Cons.prems(4) by (simp add: t)
  ultimately obtain st1 where st1: "ins_tick F is_nan dc C No_Fault now new eoi st = (Inr (), st1)"
    "ins_ready st1 (tbl @ new)" "in_consumed st1 = in_consumed st + length new"
    "in_last_ts st1 = (if new = [] then in_last_ts st else Some (fst (last new)))"
    using tick_ready [OF Cons.prems(1) assms(1,2), of new] by blast
  have run: "ins_run F is_nan dc C (t # turns) [] st = ins_run F is_nan dc C turns [] st1"
    using st1(1,3) by (cases "new = []") (simp_all add: t)
  have "\<forall>x \<in> fst ` set new. \<forall>y \<in> fst ` set ?rest. x < y" using m by (auto simp: sorted_wrt_append)
  then have "fst ` set new \<inter> fst ` set ?rest = {}" by (meson disjoint_iff less_irrefl)
  then have fresh: "fst ` set (tbl @ new) \<inter> fst ` set ?rest = {}"
    using Cons.prems(3) by (simp add: t image_Un Int_Un_distrib Int_Un_distrib2)
  have "sorted_wrt (<) (opt_list (in_last_ts st1) @ map fst ?rest)"
  proof (cases new rule: rev_cases)
    case Nil
    then show ?thesis using m st1(4) by simp
  next
    case (snoc ys y)
    then show ?thesis using m st1(4) by (auto simp: sorted_wrt_append opt_list_def)
  qed
  from Cons.IH [OF st1(2) this fresh] show ?case using Cons.prems(4,5) run by (auto simp: t)
qed

definition table_rows :: "'v tstore \<Rightarrow> (int \<times> 'v) list" where
  "table_rows s = (case st_data s of None \<Rightarrow> [] | Some d \<Rightarrow> d)"

lemma stores_all:
  assumes "\<not> ic_decimate C" "ic_keep_us C = -1" "\<forall>(f, now, new, eoi) \<in> set turns. f = No_Fault"
    and "table_rows s = tbl" "distinct (map fst tbl)"
    and "sorted_wrt (<) (map fst (arriving turns))" "fst ` set tbl \<inter> fst ` set (arriving turns) = {}"
    and "list_all (\<lambda>r. list_all (\<lambda>x. \<not> is_nan x) (snd r)) (arriving turns)"
  shows "\<exists>st'. ins_run F is_nan dc C turns [] (ins_start s) = (Inr (), st')
      \<and> st_data (in_store st') = Some (tbl @ arriving turns) \<and> st_ivl (in_store st') \<noteq> None"
proof -
  have "ins_ready (ins_start s) tbl"
    using assms(4,5) by (auto simp: ins_ready_def ins_start_def create_stream_table_def table_rows_def)
  moreover have "in_last_ts (ins_start s) = None" by (simp add: ins_start_def)
  ultimately show ?thesis
    using run_complete [OF assms(1-3), of "ins_start s" tbl is_nan F dc] assms(6-8) by (simp add: opt_list_def)
qed



text \<open>
  A decimator does not see how the rows were cut into blocks: processing two blocks one after the
  other gives the rows, and leaves the buffer, of processing them joined.  Fewer than four rows wait in
  the buffer, and every four rows give one.
\<close>

lemma decimator_block_independent:
  assumes "dec_step F again b xs = (o1, b1)" "dec_step F again b1 ys = (o2, b2)"
  shows "dec_step F again b (xs @ ys) = (o1 @ o2, b2) \<and> length b1 < 4 \<and> length o1 = length (b @ xs) div 4"
  using dec_step_append [OF assms] by (simp add: dec_factor_def)

lemma decimator_block_independent_witness:
  "let xs = [(1, [5]), (2, [6]), (3, [7])] :: int drow list
   in dec_step demo_fns False [] (xs @ [(4, [8]), (5, [9])]) = ([] @ [(1, [5, 5, 5])], [(5, [9])])
   \<and> length xs < 4 \<and> length ([] :: int drow list) = length ([] @ xs) div 4"
  unfolding Let_def
proof (rule decimator_block_independent)
  show "dec_step demo_fns False [] [(1, [5]), (2, [6]), (3, [7])] = ([], [(1, [5]), (2, [6]), (3, [7])])"
    by code_simp
  show "dec_step demo_fns False [(1, [5]), (2, [6]), (3, [7])] [(4, [8]), (5, [9])] = ([(1, [5, 5, 5])], [(5, [9])])"
    by code_simp
qed

text \<open>
  New data starts a new interval.  When the inserter stores its first block, with rows before it in
  the table, no boundary at a row and merging off, a boundary is put between the last older row and the
  first new one; with merging on, no boundary remains within the merge gap before the new row.
\<close>

lemma first_insert_separates:
  assumes "in_first st" "st_data (in_store st) = Some tbl" "st_ivl (in_store st) = Some bounds"
    and "set bounds \<inter> fst ` set tbl = {}" "r \<in> set tbl" "fst r < t0"
  shows "\<exists>st' bounds' last_ts. ins_first C No_Fault t0 st = (Inr (), st')
    \<and> st_ivl (in_store st') = Some bounds'
    \<and> list_max (filter (\<lambda>t. t < t0) (map fst tbl)) = Some last_ts
    \<and> (if 0 < ic_merge_gap C then \<forall>b \<in> set bounds'. b < t0 - ic_merge_gap C \<or> t0 < b
       else \<exists>b \<in> set bounds'. last_ts < b \<and> b \<le> t0)"
proof -
  have le: "(\<lambda>t. t \<le> t0 - 1) = (\<lambda>t. t < t0)" by auto
  obtain s' i' last_ts b where c: "close_interval (t0 - 1) (in_store st) = Inr s'" "st_ivl s' = Some i'"
    "b \<in> set i'" "list_max (filter (\<lambda>t. t \<le> t0 - 1) (map fst tbl)) = Some last_ts" "last_ts < b" "b \<le> t0 - 1 + 1"
    using close_interval_boundary [OF assms(2-5), of "t0 - 1"] assms(6) by auto
  show ?thesis
  proof (cases "0 < ic_merge_gap C")
    case True
    then have "ins_first C No_Fault t0 st = (Inr (), st\<lparr>in_first := False,
        in_store := remove_interval_breaks (t0 - ic_merge_gap C) t0 s'\<rparr>)"
      using assms(1) c(1) by (simp add: ins_first_def seqA_def db_call_def on_store_def)
    then show ?thesis using True c by (auto simp: remove_interval_breaks_def le)
  next
    case False
    then have "ins_first C No_Fault t0 st = (Inr (), st\<lparr>in_first := False, in_store := s'\<rparr>)"
      using assms(1) c(1) by (simp add: ins_first_def seqA_def db_call_def on_store_def)
    then show ?thesis using False c by (auto simp: le)
  qed
qed

lemma first_insert_separates_witness:
  "\<exists>st' bounds' last_ts. ins_first demo_config No_Fault 9
      (ins_start \<lparr>st_data = Some [(1, [1 :: int])], st_ivl = Some [], st_decim = []\<rparr>) = (Inr (), st')
    \<and> st_ivl (in_store st') = Some bounds'
    \<and> list_max (filter (\<lambda>t. t < 9) (map fst [(1, [1 :: int])])) = Some last_ts
    \<and> (if 0 < ic_merge_gap demo_config then \<forall>b \<in> set bounds'. b < 9 - ic_merge_gap demo_config \<or> 9 < b
       else \<exists>b \<in> set bounds'. last_ts < b \<and> b \<le> 9)"
  by (rule first_insert_separates [where bounds = "[]" and r = "(1, [1])"])
    (simp_all add: ins_start_def create_stream_table_def)

end
