(* ===== verification/Event_Store.thy ===== *)
theory Event_Store
  imports Prelude
begin

text \<open>
  Events: the store of \<open>src/src/joule/models/data_store/event_store.py\<close>, the text of the filter query in
  \<open>psql_helpers.py\<close>, and the client functions of \<open>src/src/joule/api/event_stream.py\<close> and \<open>event.py\<close> that
  write and read events in blocks.  The contents of events are of a type \<open>'j\<close>; a filter on them is a
  predicate, as the database evaluates it.  An event that a caller hands over is a dictionary that the
  store may change; a stored event is a row of the table.  Between client and store stand the handlers of
  \<open>controllers/event_controller.py\<close>; an error answer of a handler reaches the client as its exception.
\<close>

section \<open>The query for a filter on the contents\<close>

text \<open>\<open>replace(''', '''')\<close>: a quote is doubled inside a literal.\<close>

fun sql_quote :: "string \<Rightarrow> string" where
  "sql_quote [] = []"
| "sql_quote (c # s) = (if c = CHR 0x27 then c # c # sql_quote s else c # sql_quote s)"

definition sql_literal :: "string \<Rightarrow> string" where
  "sql_literal s = CHR 0x27 # sql_quote s @ [CHR 0x27]"

text \<open>One clause; \<open>flt\<close> is Python's \<open>float\<close> followed by formatting, \<open>None\<close> for its \<open>ValueError\<close>.\<close>

definition event_clause :: "(string \<Rightarrow> string option) \<Rightarrow> string list \<Rightarrow> string res" where
  "event_clause flt cl =
     (case cl of
        [key, comparison, value] \<Rightarrow>
          (let col = ''content->>'' @ sql_literal key; lit = sql_literal value;
               num = (\<lambda>pre op. case flt value of None \<Rightarrow> Inl PyValueError
                        | Some v \<Rightarrow> Inr (pre @ ''CAST ('' @ col @ '' AS FLOAT)'' @ op @ v @ '')''))
           in if comparison = ''is'' then Inr (''('' @ col @ ''='' @ lit @ '')'')
              else if comparison = ''not'' then Inr (''(NOT ('' @ col @ ''='' @ lit @ ''))'')
              else if comparison = ''like'' then Inr (''('' @ col @ '' like '' @ lit @ '')'')
              else if comparison = ''unlike'' then Inr (''('' @ col @ '' not like '' @ lit @ '')'')
              else if comparison = ''gt'' then num ''('' ''>''
              else if comparison = ''gte'' then num ''('' ''>=''
              else if comparison = ''lt'' then num ''('' ''<''
              else if comparison = ''lte'' then num ''('' ''<=''
              else if comparison = ''eq'' then num ''('' ''=''
              else if comparison = ''neq'' then num ''(NOT '' ''=''
              else Inl PyValueError)
      | _ \<Rightarrow> Inl PyValueError)"

definition query_event_json :: "(string \<Rightarrow> string option) \<Rightarrow> string list list list \<Rightarrow> string res" where
  "query_event_json flt filter_groups =
     bindE (mapE (\<lambda>group. bindE (mapE (event_clause flt) group) (\<lambda>cs. Inr (py_join '' AND '' cs))) filter_groups)
       (\<lambda>groups. Inr (''('' @ py_join '' OR '' groups @ '')''))"

text \<open>How the database reads a literal: up to the first quote that is not doubled.\<close>

fun read_literal :: "string \<Rightarrow> string \<Rightarrow> (string \<times> string) option" where
  "read_literal acc [] = None"
| "read_literal acc [c] = (if c = CHR 0x27 then Some (acc, []) else None)"
| "read_literal acc (c # d # s) =
     (if c = CHR 0x27 then (if d = CHR 0x27 then read_literal (acc @ [c]) s else Some (acc, d # s))
      else read_literal (acc @ [c]) (d # s))"

definition sql_read :: "string \<Rightarrow> (string \<times> string) option" where
  "sql_read s = (case s of [] \<Rightarrow> None | c # s \<Rightarrow> if c = CHR 0x27 then read_literal [] s else None)"

lemma read_quoted:
  "rest = [] \<or> hd rest \<noteq> CHR 0x27 \<Longrightarrow> read_literal acc (sql_quote s @ CHR 0x27 # rest) = Some (acc @ s, rest)"
proof (induction s arbitrary: acc)
  case Nil
  then show ?case by (cases rest) auto
next
  case (Cons c s)
  show ?case
  proof (cases "c = CHR 0x27")
    case True
    then show ?thesis using Cons by simp
  next
    case False
    obtain d u where d: "sql_quote s @ CHR 0x27 # rest = d # u" by (cases "sql_quote s") auto
    then show ?thesis using Cons.IH [OF Cons.prems, of "acc @ [c]"] False by simp
  qed
qed

section \<open>The store\<close>

record 'j event =
  ev_id :: "int option"
  ev_stream :: "int option"
  ev_start :: int
  ev_end :: "int option"
  ev_content :: 'j

record 'j event_row =
  er_id :: int
  er_start :: int
  er_end :: int
  er_content :: 'j

text \<open>The table of a stream with its sequence of ids: the last value the sequence gave out.\<close>

record 'j event_table =
  et_stream :: int
  et_rows :: "'j event_row list"
  et_seq :: int

text \<open>\<open>event_to_record\<close>: an event without end passes the check, and then \<open>end.replace\<close> is called on \<open>None\<close>.\<close>

definition event_to_record :: "'j event \<Rightarrow> 'j event_row res" where
  "event_to_record e =
     (case ev_end e of
        None \<Rightarrow> Inl PyAttributeError
      | Some f \<Rightarrow>
          if f \<le> ev_start e then Inl PyValueError
          else (case ev_id e of None \<Rightarrow> Inl (PyKeyError ''id'')
                | Some i \<Rightarrow> Inr \<lparr>er_id = i, er_start = ev_start e, er_end = f, er_content = ev_content e\<rparr>))"

definition record_to_event :: "int \<Rightarrow> 'j event_row \<Rightarrow> 'j event" where
  "record_to_event sid r = \<lparr>ev_id = Some (er_id r), ev_stream = Some sid, ev_start = er_start r,
     ev_end = Some (er_end r), ev_content = er_content r\<rparr>"

text \<open>The events without id get the numbers after \<open>serial\<close>, in order; the dictionaries are changed.\<close>

fun number_events :: "int \<Rightarrow> 'j event list \<Rightarrow> 'j event list" where
  "number_events serial [] = []"
| "number_events serial (e # es) =
     (if ev_id e = None then e\<lparr>ev_id := Some (serial + 1)\<rparr> # number_events (serial + 1) es
      else e # number_events serial es)"

definition update_row :: "'j event_row \<Rightarrow> 'j event_row list \<Rightarrow> 'j event_row list" where
  "update_row r = map (\<lambda>x. if er_id x = er_id r then r else x)"

text \<open>The last loop of \<open>upsert\<close>: every update is executed on its own.\<close>

fun update_events :: "'j event list \<Rightarrow> 'j event_table \<Rightarrow> unit res \<times> 'j event_table" where
  "update_events [] t = (Inr (), t)"
| "update_events (e # es) t =
     (case event_to_record e of
        Inl x \<Rightarrow> (Inl x, t)
      | Inr r \<Rightarrow> update_events es (t\<lparr>et_rows := update_row r (et_rows t)\<rparr>))"

text \<open>
  \<open>upsert\<close>.  The test whether an id exists takes the truth value of the row of the count query; a row
  is a sequence of columns, true when it has a column, whatever the column holds.
\<close>

definition record_truth :: "int list \<Rightarrow> bool" where
  "record_truth row = (row \<noteq> [])"

definition upsert :: "'j event list \<Rightarrow> 'j event_table \<Rightarrow> 'j event list res \<times> 'j event_table" where
  "upsert events t =
     (let exists = (\<lambda>i. record_truth [int (length (filter (\<lambda>r. er_id r = i) (et_rows t)))]);
          candidates = filter (\<lambda>e. ev_id e \<noteq> None) events;
          updated_events = filter (\<lambda>e. exists (the (ev_id e))) candidates;
          new_events = filter (\<lambda>e. ev_id e = None) events @ filter (\<lambda>e. \<not> exists (the (ev_id e))) candidates;
          events' = number_events (et_seq t) events;
          numbered = number_events (et_seq t) (map (\<lambda>e. e\<lparr>ev_id := None\<rparr>) new_events)
      in if new_events = [] then
           (case update_events updated_events t of (Inl x, t) \<Rightarrow> (Inl x, t) | (Inr _, t) \<Rightarrow> (Inr events, t))
         else
           (let t = t\<lparr>et_seq := et_seq t + int (length new_events)\<rparr>
            in case mapE event_to_record numbered of
                 Inl x \<Rightarrow> (Inl x, t)
               | Inr rows \<Rightarrow>
                   (let t = t\<lparr>et_rows := et_rows t @ rows\<rparr>
                    in case update_events updated_events t of
                         (Inl x, t) \<Rightarrow> (Inl x, t)
                       | (Inr _, t) \<Rightarrow> (Inr events', t))))"

text \<open>
  The condition on the times: \<open>query_time_bounds\<close> with a column for the end compares the start of the
  range with the end of the event (the event is active in the range), else with its start.
\<close>

definition event_in_bounds :: "bool \<Rightarrow> int option \<Rightarrow> int option \<Rightarrow> 'j event_row \<Rightarrow> bool" where
  "event_in_bounds ongoing start fin r =
     ((case start of None \<Rightarrow> True | Some s \<Rightarrow> (if ongoing then s \<le> er_end r else s \<le> er_start r))
      \<and> (case fin of None \<Rightarrow> True | Some e \<Rightarrow> er_start r < e))"

definition bad_bounds :: "int option \<Rightarrow> int option \<Rightarrow> bool" where
  "bad_bounds start fin = (case (start, fin) of (Some s, Some e) \<Rightarrow> e \<le> s | _ \<Rightarrow> False)"

definition es_select :: "('j \<Rightarrow> bool) \<Rightarrow> bool \<Rightarrow> int option \<Rightarrow> int option \<Rightarrow> 'j event_table \<Rightarrow> 'j event_row list" where
  "es_select flt ongoing start fin t =
     filter (\<lambda>r. event_in_bounds ongoing start fin r \<and> flt (er_content r)) (et_rows t)"

definition es_count :: "('j \<Rightarrow> bool) \<Rightarrow> bool \<Rightarrow> int option \<Rightarrow> int option \<Rightarrow> 'j event_table \<Rightarrow> nat res" where
  "es_count flt ongoing start fin t =
     (if bad_bounds start fin then Inl PyValueError else Inr (length (es_select flt ongoing start fin t)))"

definition es_extract :: "('j \<Rightarrow> bool) \<Rightarrow> bool \<Rightarrow> int option \<Rightarrow> int option \<Rightarrow> int option \<Rightarrow> 'j event_table
    \<Rightarrow> 'j event list res" where
  "es_extract flt ongoing start fin limit t =
     (if bad_bounds start fin then Inl PyValueError
      else
        (let rows = sort_key er_start (es_select flt ongoing start fin t)
         in case limit of
              None \<Rightarrow> Inr (map (record_to_event (et_stream t)) rows)
            | Some n \<Rightarrow>
                if n \<le> 0 then Inl PyAssertionError
                else if start = None \<and> fin \<noteq> None
                then Inr (map (record_to_event (et_stream t)) (drop (length rows - nat n) rows))
                else Inr (map (record_to_event (et_stream t)) (take (nat n) rows))))"

definition es_remove :: "('j \<Rightarrow> bool) option \<Rightarrow> int option \<Rightarrow> int option \<Rightarrow> 'j event_table \<Rightarrow> 'j event_table" where
  "es_remove flt start fin t =
     (if start = None \<and> fin = None \<and> flt = None then t\<lparr>et_rows := []\<rparr>
      else t\<lparr>et_rows := filter (\<lambda>r. \<not> (event_in_bounds True start fin r
               \<and> (case flt of None \<Rightarrow> True | Some f \<Rightarrow> f (er_content r)))) (et_rows t)\<rparr>)"

text \<open>\<open>info\<close> of one stream: first start, last end, number of events, total time.\<close>

definition es_info :: "'j event_table \<Rightarrow> int option \<times> int option \<times> nat \<times> int" where
  "es_info t =
     (case (list_min (map er_start (et_rows t)), list_max (map er_end (et_rows t))) of
        (Some s, Some e) \<Rightarrow> (Some s, Some e, length (et_rows t), e - s)
      | _ \<Rightarrow> (None, None, 0, 0))"

text \<open>\<open>histogram_to_events\<close>: a bucket lasts until the next one, the last one has no duration.\<close>

fun histogram_loop :: "(int \<times> nat) list \<Rightarrow> (int \<times> int \<times> nat) list res" where
  "histogram_loop [] = Inl PyIndexError"
| "histogram_loop [(a, n)] = Inr [(a, a, n)]"
| "histogram_loop ((a, n) # (b, m) # bs) = bindE (histogram_loop ((b, m) # bs)) (\<lambda>es. Inr ((a, b, n) # es))"

text \<open>
  \<open>histogram\<close>: missing bounds are the end of the last and the start of the first event; \<open>buckets\<close> is the
  answer of the database to the gap-filling query between two times.
\<close>

definition es_histogram :: "(int \<Rightarrow> int \<Rightarrow> (int \<times> nat) list) \<Rightarrow> int option \<Rightarrow> int option \<Rightarrow> 'j event_table
    \<Rightarrow> (int \<times> int \<times> nat) list res" where
  "es_histogram buckets start fin t =
     (if bad_bounds start fin then Inl PyValueError
      else
        (case (case fin of None \<Rightarrow> list_max (map er_end (et_rows t)) | Some e \<Rightarrow> Some e) of
           None \<Rightarrow> Inr []
         | Some e \<Rightarrow>
             (case (case start of None \<Rightarrow> list_min (map er_start (et_rows t)) | Some s \<Rightarrow> Some s) of
                None \<Rightarrow> Inl PyIndexError
              | Some s \<Rightarrow> histogram_loop (buckets s e))))"

section \<open>The handlers\<close>

text \<open>
  \<open>write_events\<close>: an event of another stream is a new event of this one; every event must have the key
  \<open>event_stream_id\<close> (the flag of the pair).
\<close>

definition own_event :: "int \<Rightarrow> bool \<times> 'j event \<Rightarrow> 'j event res" where
  "own_event sid be =
     (if \<not> fst be then Inl (HTTPBadRequest ''all events must have an event_stream_id'')
      else if ev_stream (snd be) \<noteq> Some sid then Inr ((snd be)\<lparr>ev_id := None, ev_stream := Some sid\<rparr>)
      else Inr (snd be))"

definition write_events :: "(bool \<times> 'j event) list \<Rightarrow> 'j event_table \<Rightarrow> 'j event list res \<times> 'j event_table" where
  "write_events events t =
     (case mapE (own_event (et_stream t)) events of
        Inl e \<Rightarrow> (Inl e, t)
      | Inr es \<Rightarrow> upsert es t)"

datatype 'j events_answer = Events "'j event list" | Histogram "(int \<times> int \<times> nat) list"

definition read_events :: "(int \<Rightarrow> int \<Rightarrow> (int \<times> nat) list) \<Rightarrow> ('j \<Rightarrow> bool) \<Rightarrow> bool \<Rightarrow> int option \<Rightarrow> int option
    \<Rightarrow> int \<Rightarrow> bool \<Rightarrow> 'j event_table \<Rightarrow> 'j events_answer res" where
  "read_events buckets flt ongoing start fin limit return_subset t =
     (if limit < 0 then Inl (HTTPBadRequest ''limit parameter must be an integer > 0'')
      else if bad_bounds start fin then Inl (HTTPBadRequest ''[start] must be before [end]'')
      else
        bindE (if return_subset then Inr False
               else bindE (es_count flt ongoing start fin t) (\<lambda>n. Inr (limit < int n)))
          (\<lambda>many.
             if many then bindE (es_histogram buckets start fin t) (\<lambda>h. Inr (Histogram h))
             else bindE (es_extract flt ongoing start fin (Some limit) t) (\<lambda>es. Inr (Events es))))"

section \<open>The client\<close>

text \<open>\<open>Event.to_json\<close> drops the ids of an event that was not read from the node it is sent to.\<close>

record 'j api_event = "'j event" +
  ev_node :: "string option"

definition api_to_json :: "string \<Rightarrow> 'j api_event \<Rightarrow> 'j event" where
  "api_to_json node e =
     (if ev_node e \<noteq> Some node
      then \<lparr>ev_id = None, ev_stream = None, ev_start = ev_start e, ev_end = ev_end e, ev_content = ev_content e\<rparr>
      else \<lparr>ev_id = ev_id e, ev_stream = ev_stream e, ev_start = ev_start e, ev_end = ev_end e,
             ev_content = ev_content e\<rparr>)"

text \<open>\<open>Event.__init__\<close>: \<open>int(None)\<close> raises although the end is optional with default \<open>None\<close>.\<close>

definition api_event_init :: "int \<Rightarrow> int option \<Rightarrow> 'j \<Rightarrow> int option \<Rightarrow> int option \<Rightarrow> string option
    \<Rightarrow> 'j api_event res" where
  "api_event_init start fin content i sid node =
     (case fin of None \<Rightarrow> Inl PyTypeError
      | Some f \<Rightarrow> Inr \<lparr>ev_id = i, ev_stream = sid, ev_start = start, ev_end = Some f, ev_content = content,
                      ev_node = node\<rparr>)"

definition api_from_json :: "string \<Rightarrow> 'j event \<Rightarrow> 'j api_event res" where
  "api_from_json node e = api_event_init (ev_start e) (ev_end e) (ev_content e) (ev_id e) (ev_stream e) (Some node)"

text \<open>
  \<open>event_stream_read\<close>: a loop of requests for \<open>block_size\<close> events; the next request starts one
  microsecond after the start of the last event.  The events are returned in the order in which the
  generator yields them.  \<open>None\<close> when the fuel is used up.
\<close>

fun event_stream_read :: "nat \<Rightarrow> ('j \<Rightarrow> bool) \<Rightarrow> bool \<Rightarrow> int option \<Rightarrow> int option \<Rightarrow> int \<Rightarrow> string \<Rightarrow> 'j event_table
    \<Rightarrow> 'j api_event list res option" where
  "event_stream_read 0 flt ongoing start fin block_size node t = None"
| "event_stream_read (Suc n) flt ongoing start fin block_size node t =
     (case bindE (read_events (\<lambda>s e. []) flt ongoing start fin block_size True t)
             (\<lambda>a. case a of Events es \<Rightarrow> mapE (api_from_json node) es | Histogram h \<Rightarrow> Inl (PyKeyError ''content'')) of
        Inl e \<Rightarrow> Some (Inl e)
      | Inr events \<Rightarrow>
          if events = [] then Some (Inr [])
          else
            (let next_start = ev_start (last events) + 1
             in if (case fin of None \<Rightarrow> False | Some e \<Rightarrow> e \<le> next_start) then Some (Inr events)
                else map_option (\<lambda>r. bindE r (\<lambda>more. Inr (events @ more)))
                       (event_stream_read n flt False (Some next_start) fin block_size node t)))"

text \<open>\<open>event_stream_read_list\<close> stops reading at the limit; here on the whole list, of which it is a prefix.\<close>

definition event_stream_read_list :: "nat \<Rightarrow> ('j \<Rightarrow> bool) \<Rightarrow> bool \<Rightarrow> int option \<Rightarrow> int option \<Rightarrow> int
    \<Rightarrow> string \<Rightarrow> 'j event_table \<Rightarrow> 'j api_event list res option" where
  "event_stream_read_list n flt ongoing start fin limit node t =
     (if limit \<le> 0 then Some (Inl (ApiError ''limit must be an integer > 0''))
      else map_option (\<lambda>r. bindE r (\<lambda>es. Inr (slice_to limit es)))
             (event_stream_read n flt ongoing start fin 1000 node t))"

text \<open>
  \<open>event_stream_write\<close>: the events are posted in blocks of 500; the ids of the answers are copied to the
  events of a block from the front of the list of all answers so far.
\<close>

fun write_blocks :: "nat \<Rightarrow> string \<Rightarrow> 'j api_event list \<Rightarrow> 'j api_event list \<Rightarrow> 'j event_table
    \<Rightarrow> 'j api_event list res \<times> 'j event_table" where
  "write_blocks 0 node rx_events events t = (Inr [], t)"
| "write_blocks (Suc n) node rx_events events t =
     (if events = [] then (Inr [], t)
      else
        (let chunk = take 500 events
         in case write_events (map (\<lambda>e. (True, api_to_json node e)) chunk) t of
              (Inl e, t) \<Rightarrow> (Inl e, t)
            | (Inr resp, t) \<Rightarrow>
                (case mapE (api_from_json node) resp of
                   Inl e \<Rightarrow> (Inl e, t)
                 | Inr rx \<Rightarrow>
                     (let rx_events = rx_events @ rx;
                          chunk' = map2 (\<lambda>e r. e\<lparr>ev_id := ev_id r\<rparr>) chunk rx_events
                      in case write_blocks n node rx_events (drop 500 events) t of
                           (Inl e, t) \<Rightarrow> (Inl e, t)
                         | (Inr rest, t) \<Rightarrow> (Inr (chunk' @ rest), t)))))"

definition event_stream_write :: "string \<Rightarrow> 'j api_event list \<Rightarrow> 'j event_table
    \<Rightarrow> 'j api_event list res \<times> 'j event_table" where
  "event_stream_write node events t = write_blocks (length events) node [] events t"

section \<open>Inserting events\<close>

definition new_event :: "int \<Rightarrow> 'j event \<Rightarrow> bool" where
  "new_event sid e = (ev_id e = None \<and> ev_stream e = Some sid \<and> (case ev_end e of None \<Rightarrow> False | Some f \<Rightarrow> ev_start e < f))"

text \<open>Ids are unique and none is above the last value of the sequence.\<close>

definition ids_ok :: "'j event_table \<Rightarrow> bool" where
  "ids_ok t = (distinct (map er_id (et_rows t)) \<and> (\<forall>r \<in> set (et_rows t). er_id r \<le> et_seq t))"

lemma number_events_ids:
  "list_all (new_event sid) es \<Longrightarrow> map ev_id (number_events s es) = map Some [s + 1..s + int (length es)]"
proof (induction es arbitrary: s)
  case (Cons e es)
  then show ?case
    using upto_rec1 [of "s + 1" "s + 1 + int (length es)"] by (simp add: new_event_def algebra_simps)
qed simp

lemma number_events_back:
  "list_all (new_event sid) es \<Longrightarrow> map (\<lambda>e. e\<lparr>ev_id := None\<rparr>) (number_events s es) = es"
  by (induction es arbitrary: s) (simp_all add: new_event_def)

lemma length_number_events [simp]: "length (number_events s es) = length es"
  by (induction es arbitrary: s) auto

lemma id_of_record [simp]: "ev_id (record_to_event sid r) = Some (er_id r)"
  by (simp add: record_to_event_def)

lemma record_of_event:
  "ev_end e = Some f \<Longrightarrow> ev_start e < f \<Longrightarrow> ev_stream e = Some sid \<Longrightarrow>
   \<exists>r. event_to_record (e\<lparr>ev_id := Some i\<rparr>) = Inr r \<and> record_to_event sid r = e\<lparr>ev_id := Some i\<rparr>"
  by (simp add: event_to_record_def record_to_event_def)

lemma numbered_rows:
  "list_all (new_event sid) es \<Longrightarrow> \<exists>rows. mapE event_to_record (number_events s es) = Inr rows
     \<and> map (record_to_event sid) rows = number_events s es"
proof (induction es arbitrary: s)
  case (Cons e es)
  then obtain rows where "mapE event_to_record (number_events (s + 1) es) = Inr rows"
    "map (record_to_event sid) rows = number_events (s + 1) es" by auto
  moreover obtain f where "ev_end e = Some f" "ev_start e < f" "ev_stream e = Some sid" "ev_id e = None"
    using Cons.prems by (auto simp: new_event_def split: option.splits)
  moreover obtain r where "event_to_record (e\<lparr>ev_id := Some (s + 1)\<rparr>) = Inr r"
    "record_to_event sid r = e\<lparr>ev_id := Some (s + 1)\<rparr>"
    using record_of_event calculation(3-5) by blast
  ultimately show ?case by simp
qed simp

lemma upsert_new:
  assumes "list_all (new_event sid) events" "ids_ok t" "et_stream t = sid"
  shows "\<exists>t'. upsert events t = (Inr (number_events (et_seq t) events), t')
     \<and> map (record_to_event sid) (et_rows t') = map (record_to_event sid) (et_rows t) @ number_events (et_seq t) events
     \<and> ids_ok t' \<and> et_seq t' = et_seq t + int (length events) \<and> et_stream t' = et_stream t"
proof -
  have f: "filter (\<lambda>e. ev_id e \<noteq> None) events = []" "filter (\<lambda>e. ev_id e = None) events = events"
    using assms(1) by (auto simp: new_event_def list_all_iff filter_empty_conv filter_id_conv)
  have clr: "map (\<lambda>e. e\<lparr>ev_id := None\<rparr>) events = events"
    using assms(1) by (auto simp: new_event_def list_all_iff intro!: map_idI)
  show ?thesis
  proof (cases "events = []")
    case True
    then show ?thesis using assms(2,3) by (simp add: upsert_def)
  next
    case False
    obtain rows where rows: "mapE event_to_record (number_events (et_seq t) events) = Inr rows"
      "map (record_to_event sid) rows = number_events (et_seq t) events"
      using numbered_rows [OF assms(1)] by blast
    let ?t = "t\<lparr>et_seq := et_seq t + int (length events), et_rows := et_rows t @ rows\<rparr>"
    have up: "upsert events t = (Inr (number_events (et_seq t) events), ?t)"
      using False f clr rows(1) by (simp add: upsert_def)
    have "map (Some \<circ> er_id) rows = map Some [et_seq t + 1..et_seq t + int (length events)]"
      using number_events_ids [OF assms(1), of "et_seq t"] by (simp add: comp_def flip: rows(2))
    then have ids: "map er_id rows = [et_seq t + 1..et_seq t + int (length events)]"
      by (metis (no_types, lifting) inj_map_eq_map inj_Some map_map)
    have "er_id r \<in> set [et_seq t + 1..et_seq t + int (length events)]" if "r \<in> set rows" for r
      using that ids by (metis image_eqI list.set_map)
    then have "ids_ok ?t" using assms(2) ids by (force simp: ids_ok_def)
    then show ?thesis using up rows(2) by simp
  qed
qed

section \<open>Writing in blocks\<close>

text \<open>An event that was not read from the stream of the node, and the event that the node stores for it.\<close>

definition unsent :: "string \<Rightarrow> int \<Rightarrow> 'j api_event \<Rightarrow> bool" where
  "unsent node sid e = ((ev_node e \<noteq> Some node \<or> ev_stream e \<noteq> Some sid) \<and> (case ev_end e of None \<Rightarrow> False | Some f \<Rightarrow> ev_start e < f))"

definition posted :: "int \<Rightarrow> 'j api_event \<Rightarrow> 'j event" where
  "posted sid e = \<lparr>ev_id = None, ev_stream = Some sid, ev_start = ev_start e, ev_end = ev_end e,
     ev_content = ev_content e\<rparr>"

definition returned :: "int \<Rightarrow> 'j api_event list \<Rightarrow> 'j api_event list" where
  "returned s events = map (\<lambda>i. (events ! i)\<lparr>ev_id := Some (s + 1 + int (i mod 500))\<rparr>) [0..<length events]"

lemma posted_new: "list_all (unsent node sid) es \<Longrightarrow> list_all (new_event sid) (map (posted sid) es)"
  by (auto simp: list_all_iff unsent_def posted_def new_event_def split: option.splits)

lemma own_events:
  "list_all (unsent node sid) es \<Longrightarrow>
   mapE (own_event sid) (map (\<lambda>e. (True, api_to_json node e)) es) = Inr (map (posted sid) es)"
  by (induction es) (auto simp: unsent_def own_event_def api_to_json_def posted_def)

lemma number_events_append:
  "list_all (new_event sid) xs \<Longrightarrow>
   number_events s (xs @ ys) = number_events s xs @ number_events (s + int (length xs)) ys"
  by (induction xs arbitrary: s) (simp_all add: new_event_def algebra_simps)

lemma answers_from_json:
  assumes "list_all (new_event sid) es"
  shows "\<exists>rx. mapE (api_from_json node) (number_events s es) = Inr rx
     \<and> map ev_id rx = map Some [s + 1..s + int (length es)]"
  using assms
proof (induction es arbitrary: s)
  case (Cons e es)
  obtain rx where "mapE (api_from_json node) (number_events (s + 1) es) = Inr rx"
    "map ev_id rx = map Some [s + 1 + 1..s + 1 + int (length es)]" using Cons.IH [of "s + 1"] Cons.prems by auto
  moreover have "[s + 1..s + int (length (e # es))] = (s + 1) # [s + 1 + 1..s + 1 + int (length es)]"
    by (subst upto_rec1) (simp_all add: algebra_simps)
  moreover obtain x where "api_from_json node (e\<lparr>ev_id := Some (s + 1)\<rparr>) = Inr x" "ev_id x = Some (s + 1)"
    using Cons.prems by (auto simp: new_event_def api_from_json_def api_event_init_def split: option.splits)
  moreover have "ev_id e = None" using Cons.prems by (simp add: new_event_def)
  ultimately show ?case by simp
qed simp

lemma returned_split:
  assumes "map ev_id (take (length chunk) rx) = map Some [s + 1..s + int (length chunk)]"
    and "length chunk = 500 \<or> length chunk < 500 \<and> rest = []"
  shows "map2 (\<lambda>e r. e\<lparr>ev_id := ev_id r\<rparr>) chunk rx @ returned s rest = returned s (chunk @ rest)"
proof (rule nth_equalityI)
  have "length (take (length chunk) rx) = length chunk" using arg_cong [OF assms(1), of length] by simp
  then have len: "length chunk \<le> length rx" by simp
  then show "length (map2 (\<lambda>e r. e\<lparr>ev_id := ev_id r\<rparr>) chunk rx @ returned s rest) = length (returned s (chunk @ rest))"
    by (simp add: returned_def)
  fix i
  assume "i < length (map2 (\<lambda>e r. e\<lparr>ev_id := ev_id r\<rparr>) chunk rx @ returned s rest)"
  then have i: "i < length chunk + length rest" using len by (simp add: returned_def)
  have ids: "ev_id (rx ! j) = Some (s + 1 + int j)" if "j < length chunk" for j
    using arg_cong [OF assms(1), of "\<lambda>l. l ! j"] that len by simp
  show "(map2 (\<lambda>e r. e\<lparr>ev_id := ev_id r\<rparr>) chunk rx @ returned s rest) ! i = returned s (chunk @ rest) ! i"
  proof (cases "i < length chunk")
    case True
    then show ?thesis using len assms(2) ids by (auto simp: returned_def nth_append)
  next
    case False
    then have "length chunk = 500" using i assms(2) by auto
    moreover then have "(i - 500) mod 500 = i mod 500" using False by (simp add: le_mod_geq)
    ultimately show ?thesis using False i len by (simp add: returned_def nth_append)
  qed
qed

lemma write_blocks_posted:
  assumes "list_all (unsent node sid) events" "ids_ok t" "et_stream t = sid" "length events \<le> n"
    and "rx = [] \<and> s = et_seq t \<or> map ev_id (take 500 rx) = map Some [s + 1..s + 500]"
  shows "\<exists>t'. write_blocks n node rx events t = (Inr (returned s events), t')
     \<and> map (record_to_event sid) (et_rows t') = map (record_to_event sid) (et_rows t)
          @ number_events (et_seq t) (map (posted sid) events)
     \<and> ids_ok t' \<and> et_seq t' = et_seq t + int (length events) \<and> et_stream t' = sid"
  using assms
proof (induction n arbitrary: events t rx)
  case 0
  then show ?case by (simp add: returned_def)
next
  case (Suc n)
  show ?case
  proof (cases "events = []")
    case True
    then show ?thesis using Suc.prems by (simp add: returned_def)
  next
    case False
    define chunk where "chunk = take 500 events"
    define rest where "rest = drop 500 events"
    have ev: "events = chunk @ rest" by (simp add: chunk_def rest_def)
    have all: "list_all (unsent node sid) chunk" "list_all (unsent node sid) rest" using Suc.prems(1) ev by auto
    note new = posted_new [OF all(1)]
    obtain t1 where t1: "upsert (map (posted sid) chunk) t
        = (Inr (number_events (et_seq t) (map (posted sid) chunk)), t1)"
      "map (record_to_event sid) (et_rows t1) = map (record_to_event sid) (et_rows t)
         @ number_events (et_seq t) (map (posted sid) chunk)"
      "ids_ok t1" "et_seq t1 = et_seq t + int (length chunk)" "et_stream t1 = sid"
      using upsert_new [OF new Suc.prems(2,3)] Suc.prems(3) by auto
    obtain r1 where r1: "mapE (api_from_json node) (number_events (et_seq t) (map (posted sid) chunk)) = Inr r1"
      "map ev_id r1 = map Some [et_seq t + 1..et_seq t + int (length chunk)]"
      using answers_from_json [OF new, of node "et_seq t"] by auto
    have wr: "write_events (map (\<lambda>e. (True, api_to_json node e)) chunk) t
        = (Inr (number_events (et_seq t) (map (posted sid) chunk)), t1)"
      using own_events [OF all(1)] Suc.prems(3) t1(1) by (simp add: write_events_def)
    have cl: "length chunk = 500 \<or> length chunk < 500 \<and> rest = []" by (auto simp: chunk_def rest_def)
    have lr: "length r1 = length chunk" using arg_cong [OF r1(2), of length] by simp
    have lx: "500 \<le> length rx" if "rx \<noteq> []"
    proof -
      have "map ev_id (take 500 rx) = map Some [s + 1..s + 500]" using that Suc.prems(5) by blast
      then have "length (map ev_id (take 500 rx)) = length (map Some [s + 1..s + 500])" by (rule arg_cong)
      then show ?thesis by simp
    qed
    have ids: "map ev_id (take (length chunk) (rx @ r1)) = map Some [s + 1..s + int (length chunk)]"
    proof (cases "rx = []")
      case True
      have "length (map Some [s + 1..s + 500]) = 500" by simp
      then have "map Some [s + 1..s + 500] \<noteq> []" by (metis list.size(3) zero_neq_numeral)
      then have "s = et_seq t" using Suc.prems(5) True by auto
      then show ?thesis using True r1(2) lr by simp
    next
      case False
      then have "map ev_id (take 500 rx) = map Some [s + 1..s + 500]" using Suc.prems(5) by auto
      then have "take (length chunk) (map ev_id (take 500 rx)) = take (length chunk) (map Some [s + 1..s + 500])"
        by simp
      moreover have "take (length chunk) [s + 1..s + 500] = [s + 1..s + int (length chunk)]"
        using cl by (auto intro!: nth_equalityI)
      ultimately show ?thesis using False lx cl by (auto simp: take_map)
    qed
    have rx': "rest \<noteq> [] \<Longrightarrow> map ev_id (take 500 (rx @ r1)) = map Some [s + 1..s + 500]"
      using ids cl by auto
    have "rest \<noteq> [] \<or> rest = []" by simp
    then obtain t2 where t2: "write_blocks n node (rx @ r1) rest t1 = (Inr (returned s rest), t2)"
      "map (record_to_event sid) (et_rows t2) = map (record_to_event sid) (et_rows t1)
         @ number_events (et_seq t1) (map (posted sid) rest)"
      "ids_ok t2" "et_seq t2 = et_seq t1 + int (length rest)" "et_stream t2 = sid"
    proof
      assume "rest \<noteq> []"
      then have m: "rx @ r1 = [] \<and> s = et_seq t1 \<or> map ev_id (take 500 (rx @ r1)) = map Some [s + 1..s + 500]"
        using rx' by blast
      have l: "length rest \<le> n" using Suc.prems(4) False by (simp add: rest_def)
      show ?thesis using Suc.IH [OF all(2) t1(3,5) l m] that by blast
    next
      assume e: "rest = []"
      have w: "write_blocks n node (rx @ r1) [] t1 = (Inr [], t1)" by (cases n) simp_all
      show ?thesis by (rule that [of t1]) (simp_all add: returned_def w e t1(3,5))
    qed
    have "write_blocks (Suc n) node rx events t = (Inr (returned s (chunk @ rest)), t2)"
      unfolding write_blocks.simps Let_def chunk_def [symmetric] rest_def [symmetric] if_not_P [OF False] wr
      by (simp add: r1(1) t2(1) returned_split [OF ids cl])
    moreover have "number_events (et_seq t) (map (posted sid) events)
        = number_events (et_seq t) (map (posted sid) chunk) @ number_events (et_seq t1) (map (posted sid) rest)"
      using number_events_append [OF new] ev t1(4) by simp
    ultimately show ?thesis
      using t1(2,4) t2(2-5) arg_cong [OF ev, of length] ev by simp
  qed
qed

section \<open>Reading in blocks\<close>

lemma es_select_from:
  assumes "start' = Some (k + 1)" "case start of None \<Rightarrow> True | Some s \<Rightarrow> s \<le> k + 1"
  shows "es_select flt False start' fin t
    = filter (\<lambda>r. k < er_start r) (es_select flt False start fin t)"
  using assms by (auto simp: es_select_def event_in_bounds_def intro!: filter_cong split: option.splits)


definition client_event :: "int \<Rightarrow> string \<Rightarrow> 'j event_row \<Rightarrow> 'j api_event" where
  "client_event sid node r = \<lparr>ev_id = Some (er_id r), ev_stream = Some sid, ev_start = er_start r,
     ev_end = Some (er_end r), ev_content = er_content r, ev_node = Some node\<rparr>"

lemma client_event_start [simp]: "ev_start (client_event sid node r) = er_start r"
  by (simp add: client_event_def)

lemma from_json_rows:
  "mapE (api_from_json node) (map (record_to_event sid) rows) = Inr (map (client_event sid node) rows)"
  by (induction rows) (simp_all add: api_from_json_def api_event_init_def record_to_event_def client_event_def)

lemma page_answer:
  assumes "\<not> bad_bounds start fin" "start \<noteq> None \<or> fin = None" "bs = int b" "0 < b"
  shows "bindE (read_events (\<lambda>s e. []) flt ongoing start fin bs True t)
      (\<lambda>a. case a of Events es \<Rightarrow> mapE (api_from_json node) es | Histogram h \<Rightarrow> Inl (PyKeyError ''content''))
    = Inr (map (client_event (et_stream t) node) (take b (sort_key er_start (es_select flt ongoing start fin t))))"
  using assms by (auto simp: read_events_def es_extract_def Let_def from_json_rows)

text \<open>A block of the events in the range, and the range in which the next block is looked for.\<close>

lemma next_page:
  fixes t :: "'j event_table" and flt :: "'j \<Rightarrow> bool"
  defines "R \<equiv> \<lambda>start fin. sort_key er_start (es_select flt False start fin t)"
  assumes "distinct (map er_start (et_rows t))" "R start fin \<noteq> []" "0 < b" "k = er_start (last (take b (R start fin)))"
  shows "R (Some (k + 1)) fin = drop b (R start fin)"
    and "case fin of None \<Rightarrow> False | Some e \<Rightarrow> e \<le> k + 1 \<Longrightarrow> drop b (R start fin) = []"
    and "length (es_select flt False (Some (k + 1)) fin t) < length (es_select flt False start fin t)"
proof -
  let ?S = "es_select flt False start fin t" and ?R = "R start fin"
  define m where "m = min b (length ?R)"
  have m: "0 < m" "m \<le> length ?R" "take b ?R = take m ?R" "drop m ?R = drop b ?R"
    using assms(3,4) by (auto simp: m_def min_def)
  have "take m ?R \<noteq> []" using m by auto
  then have k: "k = er_start (?R ! (m - 1))" using m by (simp add: assms(5) last_conv_nth min_def)
  have "distinct (map er_start ?R)"
    using assms(2) by (simp add: R_def es_select_def distinct_map inj_on_def)
  then have strict: "sorted_wrt (<) (map er_start ?R)" using strict_sorted_iff by (fastforce simp: R_def)
  have "?R ! (m - 1) \<in> set ?R" using m by (intro nth_mem) linarith
  then have "?R ! (m - 1) \<in> set ?S" by (simp add: R_def)
  then have ks: "case start of None \<Rightarrow> True | Some s \<Rightarrow> s \<le> k + 1"
    by (auto simp: es_select_def event_in_bounds_def k split: option.splits)
  have sel: "es_select flt False (Some (k + 1)) fin t = filter (\<lambda>r. k < er_start r) ?S"
    by (rule es_select_from [OF refl ks])
  show rest: "R (Some (k + 1)) fin = drop b ?R"
  proof -
    have "R (Some (k + 1)) fin = filter (\<lambda>r. k < er_start r) ?R" by (simp add: R_def sel filter_sort)
    then show ?thesis using filter_greater_drop [OF strict m(1,2)] m(4) k by metis
  qed
  show "drop b ?R = []" if "case fin of None \<Rightarrow> False | Some e \<Rightarrow> e \<le> k + 1"
  proof -
    have "es_select flt False (Some (k + 1)) fin t = []"
      using that by (auto simp: es_select_def event_in_bounds_def filter_empty_conv split: option.splits)
    then show ?thesis using rest by (simp add: R_def)
  qed
  have "length (R (Some (k + 1)) fin) < length ?R" using rest assms(3,4) by (cases "R start fin") auto
  then show "length (es_select flt False (Some (k + 1)) fin t) < length ?S" by (simp add: R_def)
qed

lemma event_read_pages:
  assumes "distinct (map er_start (et_rows t))" "0 < bs" "\<not> bad_bounds start fin"
    and "start \<noteq> None \<or> fin = None" "length (es_select flt False start fin t) < n"
  shows "event_stream_read n flt False start fin bs node t
    = Some (Inr (map (client_event (et_stream t) node) (sort_key er_start (es_select flt False start fin t))))"
  using assms(3-5)
proof (induction n arbitrary: start)
  case 0
  then show ?case by simp
next
  case (Suc n)
  let ?R = "\<lambda>start. sort_key er_start (es_select flt False start fin t)"
  obtain b where b: "bs = int b" "0 < b" using assms(2) by (metis nat_0_iff nat_le_0 not_gr_zero nat_0_le linorder_not_less order_less_imp_le)
  note page = page_answer [OF Suc.prems(1,2) b, of flt False t node]
  show ?case
  proof (cases "?R start = []")
    case True
    then show ?thesis using page by simp
  next
    case False
    define k where "k = er_start (last (take b (?R start)))"
    note nxt = next_page [OF assms(1) False b(2) k_def]
    have ne: "map (client_event (et_stream t) node) (take b (?R start)) \<noteq> []" using b False by auto
    have last: "ev_start (last (map (client_event (et_stream t) node) (take b (?R start)))) = k"
      using ne by (simp add: last_map k_def)
    show ?thesis
    proof (cases "case fin of None \<Rightarrow> False | Some e \<Rightarrow> e \<le> k + 1")
      case True
      then have "take b (?R start) = ?R start" using nxt(2) by (metis append_Nil2 append_take_drop_id)
      then show ?thesis using page last True False by (auto simp: Let_def split: option.splits)
    next
      case nf: False
      then have nb: "\<not> bad_bounds (Some (k + 1)) fin" by (auto simp: bad_bounds_def split: option.splits)
      have ih: "event_stream_read n flt False (Some (k + 1)) fin bs node t
          = Some (Inr (map (client_event (et_stream t) node) (drop b (?R start))))"
        using Suc.IH [OF nb] nxt(1,3) Suc.prems(3) by simp
      have "event_stream_read (Suc n) flt False start fin bs node t
          = Some (Inr (map (client_event (et_stream t) node) (take b (?R start)) @ map (client_event (et_stream t) node) (drop b (?R start))))"
        using page last nf ih ne by (simp add: Let_def del: take_eq_Nil map_is_Nil_conv)
      then show ?thesis by (metis append_take_drop_id map_append)
    qed
  qed
qed

lemma last_is_max:
  assumes "sorted (map f R)" "r \<in> set R"
  shows "f r \<le> f (last R)"
proof -
  have "R \<noteq> []" using assms(2) by auto
  then have "R = butlast R @ [last R]" by simp
  then have "map f R = map f (butlast R) @ [f (last R)]" by (metis list.simps(8,9) map_append)
  then have "\<forall>x \<in> set (map f (butlast R)). x \<le> f (last R)" using assms(1) by (auto simp: sorted_append)
  then show ?thesis using assms(2) \<open>R = butlast R @ [last R]\<close>
    by (metis Un_iff empty_iff empty_set image_eqI list.set_map order_refl set_ConsD set_append)
qed

section \<open>The properties\<close>

text \<open>What a clause with a key, a comparison and a value is when the database reads it.\<close>

definition clause_shape :: "(string \<Rightarrow> string option) \<Rightarrow> string \<Rightarrow> string \<Rightarrow> string \<Rightarrow> string \<Rightarrow> bool" where
  "clause_shape flt key comparison value q =
     (if comparison \<in> set [''is'', ''not'', ''like'', ''unlike'']
      then (\<exists>pre key_lit op value_lit after. q = pre @ key_lit
             \<and> pre \<in> set [''(content->>'', ''(NOT (content->>'']
             \<and> sql_read key_lit = Some (key, op @ value_lit)
             \<and> op \<in> set [''='', '' like '', '' not like '']
             \<and> sql_read value_lit = Some (value, after) \<and> after \<in> set ['')'', ''))''])
      else (\<exists>pre key_lit op v. q = pre @ key_lit
             \<and> pre \<in> set [''(CAST (content->>'', ''(NOT CAST (content->>'']
             \<and> flt value = Some v \<and> sql_read key_lit = Some (key, '' AS FLOAT)'' @ op @ v @ '')'')
             \<and> op \<in> set [''>'', ''>='', ''<'', ''<='', ''='']))"

lemma sql_read_literal: "rest = [] \<or> hd rest \<noteq> CHR 0x27 \<Longrightarrow> sql_read (sql_literal s @ rest) = Some (s, rest)"
  using read_quoted [of rest "[]" s] by (simp add: sql_read_def sql_literal_def)

lemma text_clause:
  assumes "comparison \<in> set [''is'', ''not'', ''like'', ''unlike'']"
    and "q = pre @ sql_literal key @ op @ sql_literal value @ after"
    and "pre \<in> set [''(content->>'', ''(NOT (content->>'']" "op \<in> set [''='', '' like '', '' not like '']"
    "after \<in> set ['')'', ''))'']"
  shows "clause_shape flt key comparison value q"
proof -
  have "op @ sql_literal value @ after = [] \<or> hd (op @ sql_literal value @ after) \<noteq> CHR 0x27"
    "after = [] \<or> hd after \<noteq> CHR 0x27"
    using assms(4,5) by auto
  then have "sql_read (sql_literal key @ op @ sql_literal value @ after) = Some (key, op @ sql_literal value @ after)"
    "sql_read (sql_literal value @ after) = Some (value, after)"
    by (simp_all only: sql_read_literal)
  then show ?thesis using assms unfolding clause_shape_def by (simp only: if_True) blast
qed

lemma number_clause:
  assumes "comparison \<notin> set [''is'', ''not'', ''like'', ''unlike'']" "flt value = Some v"
    and "q = pre @ sql_literal key @ '' AS FLOAT)'' @ op @ v @ '')''"
    and "pre \<in> set [''(CAST (content->>'', ''(NOT CAST (content->>'']"
    "op \<in> set [''>'', ''>='', ''<'', ''<='', ''='']"
  shows "clause_shape flt key comparison value q"
proof -
  have "sql_read (sql_literal key @ '' AS FLOAT)'' @ op @ v @ '')'') = Some (key, '' AS FLOAT)'' @ op @ v @ '')'')"
    by (rule sql_read_literal) simp
  then show ?thesis using assms unfolding clause_shape_def by (simp only: if_False) blast
qed

text \<open>
  C21.  A clause of a filter is text in which the key, and the value of a text comparison, are read back
  by the database exactly as they were given, whatever quotes they contain: nothing of them ends up
  outside their literal.  Of the value of a numeric comparison only the formatted number is used.
\<close>

theorem filter_clause_quoted:
  assumes "event_clause flt [key, comparison, value] = Inr q"
  shows "clause_shape flt key comparison value q"
proof -
  consider "comparison = ''is''" | "comparison = ''not''" | "comparison = ''like''" | "comparison = ''unlike''"
    | "comparison \<notin> set [''is'', ''not'', ''like'', ''unlike'']" by auto
  then show ?thesis
  proof cases
    case 5
    then obtain v where v: "flt value = Some v"
      using assms by (auto simp: event_clause_def Let_def split: option.splits if_splits)
    show ?thesis
      using assms 5 v
      by (intro number_clause [where v = v and pre = "if comparison = ''neq'' then ''(NOT CAST (content->>'' else ''(CAST (content->>''"
            and op = "if comparison = ''gt'' then ''>'' else if comparison = ''gte'' then ''>=''
              else if comparison = ''lt'' then ''<'' else if comparison = ''lte'' then ''<='' else ''=''"])
        (auto simp: event_clause_def Let_def split: if_splits)
  next
    case 1
    then show ?thesis using assms
      by (intro text_clause [where pre = "''(content->>''" and op = "''=''" and after = "'')''"])
        (auto simp: event_clause_def Let_def)
  next
    case 2
    then show ?thesis using assms
      by (intro text_clause [where pre = "''(NOT (content->>''" and op = "''=''" and after = "''))''"])
        (auto simp: event_clause_def Let_def)
  next
    case 3
    then show ?thesis using assms
      by (intro text_clause [where pre = "''(content->>''" and op = "'' like ''" and after = "'')''"])
        (auto simp: event_clause_def Let_def)
  next
    case 4
    then show ?thesis using assms
      by (intro text_clause [where pre = "''(content->>''" and op = "'' not like ''" and after = "'')''"])
        (auto simp: event_clause_def Let_def)
  qed
qed

lemma filter_clause_quoted_witness:
  "event_clause (\<lambda>s. None) [''x'', ''is'', [CHR 0x27]]
     = Inr (''(content->>'' @ sql_literal ''x'' @ ''='' @ sql_literal [CHR 0x27] @ '')'')
   \<and> clause_shape (\<lambda>s. None) ''x'' ''is'' [CHR 0x27]
     (''(content->>'' @ sql_literal ''x'' @ ''='' @ sql_literal [CHR 0x27] @ '')'')"
proof -
  have "event_clause (\<lambda>s. None) [''x'', ''is'', [CHR 0x27]]
     = Inr (''(content->>'' @ sql_literal ''x'' @ ''='' @ sql_literal [CHR 0x27] @ '')'')"
    by (simp add: event_clause_def)
  then show ?thesis using filter_clause_quoted by blast
qed

text \<open>
  C22.  Events that a client writes (new ones, with an end behind their start) are stored in the order
  in which they are given, each once and under a fresh number, and nothing else in the table changes.  The
  objects that the client gets back carry the right numbers for the first 500 events only: event \<open>i\<close> comes
  back with the number of event \<open>i mod 500\<close>.
\<close>

theorem event_stream_write_stores:
  assumes "list_all (unsent node (et_stream t)) events" "ids_ok t"
  shows "\<exists>t'. event_stream_write node events t = (Inr (returned (et_seq t) events), t')
     \<and> map (record_to_event (et_stream t)) (et_rows t')
       = map (record_to_event (et_stream t)) (et_rows t)
         @ number_events (et_seq t) (map (posted (et_stream t)) events)
     \<and> ids_ok t'"
  using write_blocks_posted [OF assms refl order_refl, of "[]" "et_seq t"] by (auto simp: event_stream_write_def)

lemma event_stream_write_stores_witness:
  "\<exists>es t'. event_stream_write ''n'' (replicate 501 \<lparr>ev_id = None, ev_stream = None, ev_start = 1, ev_end = Some 2,
       ev_content = (), ev_node = None\<rparr>) \<lparr>et_stream = 7, et_rows = [], et_seq = 0\<rparr> = (Inr es, t')
     \<and> length (et_rows t') = 501 \<and> ev_id (es ! 500) = Some 1 \<and> er_id (et_rows t' ! 500) = 501"
proof -
  let ?e = "\<lparr>ev_id = None, ev_stream = None, ev_start = 1, ev_end = Some 2, ev_content = (), ev_node = None\<rparr> :: unit api_event"
  let ?t = "\<lparr>et_stream = 7, et_rows = [], et_seq = 0\<rparr> :: unit event_table"
  have a: "list_all (unsent ''n'' (et_stream ?t)) (replicate 501 ?e)" "ids_ok ?t"
    by (simp_all add: list_all_iff unsent_def ids_ok_def)
  have n: "list_all (new_event 7) (map (posted 7) (replicate 501 ?e))" using posted_new [OF a(1)] by simp
  obtain t' where t': "event_stream_write ''n'' (replicate 501 ?e) ?t = (Inr (returned 0 (replicate 501 ?e)), t')"
    "map (record_to_event 7) (et_rows t') = number_events 0 (map (posted 7) (replicate 501 ?e))"
    using event_stream_write_stores [OF a] by auto
  have len: "length (et_rows t') = 501" using arg_cong [OF t'(2), of length] by simp
  have "map ev_id (map (record_to_event 7) (et_rows t')) = map Some [1..501]"
    using number_events_ids [OF n, of 0] t'(2) by simp
  then have "map ev_id (map (record_to_event 7) (et_rows t')) ! 500 = map Some [1..501] ! 500" by simp
  then have "er_id (et_rows t' ! 500) = 501" using len by simp
  moreover have "ev_id (returned 0 (replicate 501 ?e) ! 500) = Some 1" by (simp add: returned_def)
  ultimately show ?thesis using t'(1) len by blast
qed



text \<open>
  Reading up to an end without a start returns only the last block: the database answers the first
  request with the latest events, and the loop then goes on behind them.
\<close>

lemma event_stream_read_end_only:
  assumes "0 < bs" "int (length (es_select flt False None (Some e) t)) > bs"
  shows "event_stream_read (Suc (Suc n)) flt False None (Some e) bs node t
    = Some (Inr (map (client_event (et_stream t) node)
        (drop (length (es_select flt False None (Some e) t) - nat bs)
          (sort_key er_start (es_select flt False None (Some e) t)))))"
proof -
  let ?R = "sort_key er_start (es_select flt False None (Some e) t)"
  let ?D = "drop (length ?R - nat bs) ?R"
  have page: "bindE (read_events (\<lambda>s e. []) flt False None (Some e) bs True t)
      (\<lambda>a. case a of Events es \<Rightarrow> mapE (api_from_json node) es | Histogram h \<Rightarrow> Inl (PyKeyError ''content''))
    = Inr (map (client_event (et_stream t) node) ?D)"
    using assms(1) by (simp add: read_events_def es_extract_def bad_bounds_def Let_def from_json_rows)
  have ne: "?D \<noteq> []" using assms by simp
  define k where "k = er_start (last ?D)"
  have last: "ev_start (last (map (client_event (et_stream t) node) ?D)) = k" using ne by (simp add: last_map k_def)
  have "last ?D = last ?R" using ne by simp
  then have max: "er_start r \<le> k" if "r \<in> set ?R" for r
    using last_is_max [of er_start ?R r] that by (simp add: k_def)
  have rest: "es_select flt False (Some (k + 1)) (Some e) t = []"
    using max by (force simp: es_select_def event_in_bounds_def filter_empty_conv)
  obtain b where b: "bs = int b" "0 < b"
    using assms(1) by (metis less_le zero_le_imp_eq_int of_nat_0_less_iff)
  have stop: "event_stream_read (Suc n) flt False (Some (k + 1)) (Some e) bs node t = Some (Inr [])"
    if "\<not> e \<le> k + 1"
    using page_answer [of "Some (k + 1)" "Some e" bs b flt False t node] that b rest by (simp add: bad_bounds_def)
  have ne': "map (client_event (et_stream t) node) ?D \<noteq> []" using ne by simp
  have "event_stream_read (Suc (Suc n)) flt False None (Some e) bs node t
    = Some (Inr (map (client_event (et_stream t) node) ?D))"
    unfolding event_stream_read.simps(2) [of "Suc n"] page sum.case if_not_P [OF ne'] last Let_def
    using stop by simp
  then show ?thesis by simp
qed

lemma event_stream_read_end_only_witness:
  "event_stream_read 2 (\<lambda>c::unit. True) False None (Some 100) 1 ''n''
      \<lparr>et_stream = 7, et_rows = map (\<lambda>i. \<lparr>er_id = i, er_start = i, er_end = 20, er_content = ()\<rparr>) [1, 2, 3], et_seq = 3\<rparr>
    = Some (Inr [client_event 7 ''n'' \<lparr>er_id = 3, er_start = 3, er_end = 20, er_content = ()\<rparr>])"
  using event_stream_read_end_only [of 1 "\<lambda>c::unit. True" 100
      "\<lparr>et_stream = 7, et_rows = map (\<lambda>i. \<lparr>er_id = i, er_start = i, er_end = 20, er_content = ()\<rparr>) [1, 2, 3], et_seq = 3\<rparr>" 0 "''n''"]
  by (simp add: es_select_def event_in_bounds_def numeral_2_eq_2)

text \<open>
  An update of an event with a number that is not in the table is lost: the answer is a success
  that lists the event, and the table is unchanged.  (The comment in \<open>upsert\<close> says that such events are
  added as new ones.)
\<close>

lemma upsert_unknown_id_lost:
  assumes "ev_id e = Some i" "ev_end e = Some f" "ev_start e < f" "i \<notin> er_id ` set (et_rows t)"
  shows "upsert [e] t = (Inr [e], t)"
proof -
  have "update_row r (et_rows t) = et_rows t" if "er_id r = i" for r
    unfolding update_row_def using assms(4) that by (intro map_idI) (metis image_eqI)
  then show ?thesis using assms(1-3) by (simp add: upsert_def record_truth_def event_to_record_def Let_def)
qed

lemma upsert_unknown_id_lost_witness:
  "upsert [\<lparr>ev_id = Some 5, ev_stream = Some 7, ev_start = 1, ev_end = Some 2, ev_content = ()\<rparr>]
      \<lparr>et_stream = 7, et_rows = [], et_seq = 0\<rparr>
    = (Inr [\<lparr>ev_id = Some 5, ev_stream = Some 7, ev_start = 1, ev_end = Some 2, ev_content = ()\<rparr>],
       \<lparr>et_stream = 7, et_rows = [], et_seq = 0\<rparr>)"
  by (rule upsert_unknown_id_lost [of _ 5 2]) simp_all

end
