(* ===== verification/Masters.thy ===== *)
theory Masters
  imports Prelude
begin

text \<open>
  Who may use the node: the table of masters (\<open>models/master.py\<close>) with the constraints it declares, the
  users file (\<open>update_users.py\<close>), the handlers of \<open>controllers/master_controller.py\<close> and
  \<open>follower_controller.py\<close>, and the two middlewares of \<open>middleware.py\<close>.  Random keys, the answers of
  remote nodes and the pattern matching of SQL's \<open>LIKE\<close> are parameters.
\<close>

section \<open>The table\<close>

datatype master_type = USER | JOULE_NODE | LUMEN_NODE

record master =
  ma_id :: int
  ma_name :: string
  ma_key :: string
  ma_type :: "master_type option"
  ma_grantor :: "int option"

record masters =
  ms_rows :: "master list"
  ms_seq :: int

text \<open>Keys are unique and a grantor is a row of the table.\<close>

definition insert_master :: "master \<Rightarrow> masters \<Rightarrow> masters res" where
  "insert_master m t =
     (if list_ex (\<lambda>r. ma_key r = ma_key m) (ms_rows t) then Inl IntegrityError
      else if (case ma_grantor m of None \<Rightarrow> False | Some g \<Rightarrow> \<not> list_ex (\<lambda>r. ma_id r = g) (ms_rows t))
      then Inl IntegrityError
      else Inr (t\<lparr>ms_rows := ms_rows t @ [m\<lparr>ma_id := ms_seq t + 1\<rparr>], ms_seq := ms_seq t + 1\<rparr>))"

text \<open>One \<open>DELETE\<close> statement: no remaining row may refer to a deleted one.\<close>

definition delete_masters :: "(master \<Rightarrow> bool) \<Rightarrow> masters \<Rightarrow> masters res" where
  "delete_masters p t =
     (let gone = filter p (ms_rows t); rest = filter (\<lambda>r. \<not> p r) (ms_rows t)
      in if list_ex (\<lambda>r. list_ex (\<lambda>g. ma_grantor r = Some (ma_id g)) gone) rest then Inl IntegrityError
         else Inr (t\<lparr>ms_rows := rest\<rparr>))"

text \<open>The deletions of a session are executed one after the other in the order of the ids.\<close>

definition commit_deletes :: "int list \<Rightarrow> masters \<Rightarrow> masters res" where
  "commit_deletes ids t = foldE (\<lambda>i. delete_masters (\<lambda>r. ma_id r = i)) (sort ids) t"

definition update_master :: "int \<Rightarrow> (master \<Rightarrow> master) \<Rightarrow> masters \<Rightarrow> masters" where
  "update_master i f t = t\<lparr>ms_rows := map (\<lambda>r. if ma_id r = i then f r else r) (ms_rows t)\<rparr>"

section \<open>The users file\<close>

definition remove_user :: "string \<Rightarrow> masters \<Rightarrow> masters res" where
  "remove_user user t = commit_deletes (map ma_id (filter (\<lambda>r. ma_name r = user) (ms_rows t))) t"

definition remove_user_like :: "(string \<Rightarrow> string \<Rightarrow> bool) \<Rightarrow> string \<Rightarrow> masters \<Rightarrow> masters res" where
  "remove_user_like like name t = commit_deletes (map ma_id (filter (\<lambda>r. like name (ma_name r)) (ms_rows t))) t"

definition add_user :: "string \<Rightarrow> string \<Rightarrow> masters \<Rightarrow> masters res" where
  "add_user name key t =
     (if list_ex (\<lambda>r. ma_name r = name \<and> ma_key r = key) (ms_rows t) then Inr t
      else if list_ex (\<lambda>r. ma_key r = key) (ms_rows t) then Inr t
      else
        (case filter (\<lambda>r. ma_type r = Some USER \<and> ma_name r = name) (ms_rows t) of
           m # _ \<Rightarrow> Inr (update_master (ma_id m) (\<lambda>r. r\<lparr>ma_key := key\<rparr>) t)
         | [] \<Rightarrow> insert_master \<lparr>ma_id = 0, ma_name = name, ma_key = key, ma_type = Some USER, ma_grantor = None\<rparr> t))"

definition parse_removal :: "(string \<Rightarrow> string \<Rightarrow> bool) \<Rightarrow> string \<Rightarrow> masters \<Rightarrow> masters res" where
  "parse_removal like line t =
     (case py_split (CHR '' '') line of
        [command, user] \<Rightarrow> if command \<noteq> ''DELETE'' then Inr t else remove_user user t
      | [command, word, name] \<Rightarrow>
          if command \<noteq> ''DELETE'' \<or> word \<noteq> ''LIKE'' then Inr t else remove_user_like like name t
      | _ \<Rightarrow> Inr t)"

text \<open>The length of the key is checked before the white space around it is removed.\<close>

definition parse_addition :: "string \<Rightarrow> masters \<Rightarrow> masters res" where
  "parse_addition line t =
     (case py_split (CHR '','') line of
        [user, key] \<Rightarrow> if length key < 10 then Inr t else add_user (py_strip user) (py_strip key) t
      | _ \<Rightarrow> Inr t)"

definition users_line :: "(string \<Rightarrow> string \<Rightarrow> bool) \<Rightarrow> string \<Rightarrow> masters \<Rightarrow> masters res" where
  "users_line like line0 t =
     (let line = py_strip line0
      in if line = [] \<or> starts_with ''#'' line then Inr t
         else if starts_with ''DELETE'' line then parse_removal like line t
         else parse_addition line t)"

text \<open>
  \<open>update_users_from_file\<close>: every line is committed on its own; a violated constraint ends the loop.
\<close>

fun update_users_from_file :: "(string \<Rightarrow> string \<Rightarrow> bool) \<Rightarrow> string list \<Rightarrow> masters \<Rightarrow> unit res \<times> masters" where
  "update_users_from_file like [] t = (Inr (), t)"
| "update_users_from_file like (line # ls) t =
     (case users_line like line t of
        Inl e \<Rightarrow> (Inl e, t)
      | Inr t' \<Rightarrow> update_users_from_file like ls t')"

section \<open>Requests\<close>

record request =
  rq_remote :: string
  rq_method :: string
  rq_path :: string
  rq_headers :: "(string \<times> string) list"

record app_state =
  app_port :: string
  app_scheme :: string
  app_base_uri :: string
  app_remote_ip :: string

definition header :: "request \<Rightarrow> string \<Rightarrow> string option" where
  "header req h = map_of (rq_headers req) h"

definition from_header :: "request \<Rightarrow> string \<Rightarrow> string \<Rightarrow> string" where
  "from_header req h old = (case header req h of None \<Rightarrow> old | Some v \<Rightarrow> v)"

text \<open>The middleware \<open>_authorize\<close>; the handler sees the state of the application it leaves.\<close>

definition authorize :: "(string \<times> string) list \<Rightarrow> masters \<Rightarrow> request \<Rightarrow> (app_state, 'a) act \<Rightarrow> (app_state, 'a) act" where
  "authorize exemptions db req handler app =
     (let exempt = (rq_method req, rq_path req) \<in> set exemptions;
          app = (if rq_remote req = []
                 then app\<lparr>app_port := from_header req ''X-API-PORT'' (app_port app),
                          app_scheme := from_header req ''X-API-SCHEME'' (app_scheme app),
                          app_base_uri := from_header req ''X-API-BASE-URI'' (app_base_uri app),
                          app_remote_ip := from_header req ''X-FORWARDED-FOR'' (app_remote_ip app)\<rparr>
                 else app\<lparr>app_base_uri := '''', app_remote_ip := rq_remote req\<rparr>)
      in if rq_remote req = [] \<and> (header req ''X-AUTH-REQUIRED'' = None \<or> exempt) then handler app
         else if exempt then handler app
         else
           (case header req ''X-API-KEY'' of
              None \<Rightarrow> (Inl HTTPForbidden, app)
            | Some key \<Rightarrow>
                if length (filter (\<lambda>r. ma_key r = key) (ms_rows db)) \<noteq> 1 then (Inl HTTPForbidden, app)
                else handler app))"

definition is_sql_error :: "exn \<Rightarrow> bool" where
  "is_sql_error e = (e \<in> set [IntegrityError, NoResultFound, MultipleResultsFound, UndefinedTableError,
     UniqueViolationError])"

definition sql_rollback :: "('s, 'a) act \<Rightarrow> ('s, 'a) act" where
  "sql_rollback handler s =
     (case handler s of
        (Inl e, s') \<Rightarrow> if is_sql_error e then (Inl (HTTPBadRequest ''''), s') else (Inl e, s')
      | r \<Rightarrow> r)"

section \<open>The handlers for masters\<close>

record add_request =
  ar_master_type :: "string option"
  ar_identifier :: "string option"
  ar_api_key :: "string option"
  ar_lumen_params :: bool

text \<open>\<open>query(Master.id).filter(Master.key == key).one()\<close>\<close>

definition grantor_of :: "string \<Rightarrow> masters \<Rightarrow> int res" where
  "grantor_of key t =
     (case filter (\<lambda>r. ma_key r = key) (ms_rows t) of
        [] \<Rightarrow> Inl NoResultFound
      | [m] \<Rightarrow> Inr (ma_id m)
      | _ \<Rightarrow> Inl MultipleResultsFound)"

definition add_user_master :: "string \<Rightarrow> add_request \<Rightarrow> int \<Rightarrow> masters \<Rightarrow> string res \<times> masters" where
  "add_user_master new_key body grantor t =
     (case ar_identifier body of
        None \<Rightarrow> (Inl (PyKeyError ''identifier''), t)
      | Some name \<Rightarrow>
          if list_ex (\<lambda>r. ma_type r = Some USER \<and> ma_name r = name) (ms_rows t)
          then (Inl (HTTPBadRequest ''User already exists''), t)
          else if (case ar_api_key body of None \<Rightarrow> False | Some k \<Rightarrow> length k < 32)
          then (Inl (HTTPBadRequest ''API Key must be at least 32 characters''), t)
          else
            (let key = (case ar_api_key body of None \<Rightarrow> new_key | Some k \<Rightarrow> k)
             in case insert_master \<lparr>ma_id = 0, ma_name = name, ma_key = key, ma_type = Some USER,
                                     ma_grantor = Some grantor\<rparr> t of
                  Inl e \<Rightarrow> (Inl e, t)
                | Inr t' \<Rightarrow> (Inr key, t')))"

text \<open>
  \<open>_add_device\<close>: a row with a temporary name is committed, the key is sent to the device (\<open>reply\<close> is the
  name it answers with, or the error of the request), rows of the same type and name are removed, and the
  row gets its name.  An \<open>ApiError\<close> of the device is answered with the status 400, here \<open>Inr None\<close>.
\<close>

definition finish_device :: "int \<Rightarrow> master_type \<Rightarrow> string \<Rightarrow> masters \<Rightarrow> masters res" where
  "finish_device i ty name t =
     bindE (delete_masters (\<lambda>r. ma_type r = Some ty \<and> ma_name r = name) t)
       (\<lambda>t. Inr (update_master i (\<lambda>r. r\<lparr>ma_name := name\<rparr>) t))"

definition add_device :: "string \<Rightarrow> string \<Rightarrow> string res \<Rightarrow> master_type \<Rightarrow> add_request \<Rightarrow> int \<Rightarrow> masters
    \<Rightarrow> string option res \<times> masters" where
  "add_device new_key pending reply ty body grantor t =
     (case insert_master \<lparr>ma_id = 0, ma_name = pending, ma_key = new_key, ma_type = Some ty,
                          ma_grantor = Some grantor\<rparr> t of
        Inl e \<Rightarrow> (Inl e, t)
      | Inr t1 \<Rightarrow>
          (let i = ms_seq t1;
               undo = (case commit_deletes [i] t1 of Inl e \<Rightarrow> (Inl e, t1)
                       | Inr t2 \<Rightarrow> (Inl (HTTPBadRequest ''Cannot add master: [%s]''), t2))
           in case ar_identifier body of
                None \<Rightarrow> undo
              | Some identifier \<Rightarrow>
                  if ty = LUMEN_NODE \<and> \<not> ar_lumen_params body then undo
                  else
                    (case reply of
                       Inr name \<Rightarrow>
                         (case finish_device i ty name t1 of Inl e \<Rightarrow> (Inl e, t1) | Inr t2 \<Rightarrow> (Inr (Some name), t2))
                     | Inl (ApiError m) \<Rightarrow>
                         (case finish_device i ty identifier t1 of Inl e \<Rightarrow> (Inl e, t1) | Inr t2 \<Rightarrow> (Inr None, t2))
                     | Inl PyValueError \<Rightarrow> undo
                     | Inl (PyKeyError k) \<Rightarrow> undo
                     | Inl e \<Rightarrow> (Inl e, t1))))"

definition bad_request :: "'a res \<times> 's \<Rightarrow> 'a res \<times> 's" where
  "bad_request r =
     (case r of
        (Inl (PyKeyError k), s) \<Rightarrow> (Inl (HTTPBadRequest ''Invalid request %s''), s)
      | (Inl PyValueError, s) \<Rightarrow> (Inl (HTTPBadRequest ''Invalid request %s''), s)
      | _ \<Rightarrow> r)"

definition master_add :: "string \<Rightarrow> string \<Rightarrow> string res \<Rightarrow> add_request \<Rightarrow> request \<Rightarrow> masters
    \<Rightarrow> string option res \<times> masters" where
  "master_add new_key pending reply body req t =
     bad_request
       (case ar_master_type body of
          None \<Rightarrow> (Inl (PyKeyError ''master_type''), t)
        | Some ty0 \<Rightarrow>
            (let ty = py_lower ty0
             in if ty \<notin> set [''user'', ''joule'', ''lumen'']
                then (Inl (HTTPBadRequest ''master_type must be [user|joule|lumen]''), t)
                else
                  (case header req ''X-API-KEY'' of
                     None \<Rightarrow> (Inl (PyKeyError ''X-API-KEY''), t)
                   | Some k \<Rightarrow>
                       (case grantor_of k t of
                          Inl e \<Rightarrow> (Inl e, t)
                        | Inr g \<Rightarrow>
                            if ty = ''user''
                            then (case add_user_master new_key body g t of
                                    (Inl e, t) \<Rightarrow> (Inl e, t) | (Inr key, t) \<Rightarrow> (Inr (Some key), t))
                            else add_device new_key pending reply
                                   (if ty = ''joule'' then JOULE_NODE else LUMEN_NODE) body g t))))"

definition type_of_name :: "string \<Rightarrow> master_type option" where
  "type_of_name s =
     (if s = ''USER'' then Some USER else if s = ''JOULE_NODE'' then Some JOULE_NODE
      else if s = ''LUMEN_NODE'' then Some LUMEN_NODE else None)"

definition master_delete :: "string option \<Rightarrow> string option \<Rightarrow> request \<Rightarrow> masters \<Rightarrow> unit res \<times> masters" where
  "master_delete name master_type req t =
     (let bad = (Inl (HTTPBadRequest ''specify name and master_type''), t)
      in case (name, master_type) of
           (Some n, Some mt) \<Rightarrow>
             (case type_of_name (py_upper (if mt \<noteq> ''user'' then mt @ ''_node'' else mt)) of
                None \<Rightarrow> bad
              | Some ty \<Rightarrow>
                  (case filter (\<lambda>r. ma_name r = n \<and> ma_type r = Some ty) (ms_rows t) of
                     [] \<Rightarrow> (Inl (HTTPNotFound ''%s [%s] is not a master of node [%s]''), t)
                   | [m] \<Rightarrow>
                       (case header req ''X-API-KEY'' of
                          None \<Rightarrow> bad
                        | Some k \<Rightarrow>
                            if ma_key m = k
                            then (Inl (HTTPBadRequest ''cannot delete yourself, this would lock you out of the node''), t)
                            else (case commit_deletes [ma_id m] t of Inl e \<Rightarrow> (Inl e, t) | Inr t' \<Rightarrow> (Inr (), t')))
                   | _ \<Rightarrow> (Inl MultipleResultsFound, t)))
         | _ \<Rightarrow> bad)"

section \<open>The handlers for followers\<close>

record follower =
  fo_name :: string
  fo_key :: string
  fo_location :: string

record follower_request =
  fr_key :: "string option"
  fr_port :: "string option"
  fr_scheme :: "string option"
  fr_base_uri :: "string option"
  fr_name_is_host :: bool
  fr_name :: "string option"

definition remote_host :: "follower_request \<Rightarrow> request \<Rightarrow> string res" where
  "remote_host body req =
     (if fr_name_is_host body
      then (case fr_name body of None \<Rightarrow> Inl (PyKeyError ''name'') | Some n \<Rightarrow> Inr n)
      else (case header req ''X-FORWARDED-FOR'' of
              Some h \<Rightarrow> Inr h
            | None \<Rightarrow>
                if rq_remote req \<noteq> [] then Inr (rq_remote req)
                else Inl (HTTPBadRequest ''could not determine remote host, specify with X-Forwarded-For if using a reverse proxy'')))"

text \<open>Names, keys and locations of followers are unique.\<close>

definition insert_follower :: "follower \<Rightarrow> follower list \<Rightarrow> follower list res" where
  "insert_follower f fs =
     (if list_ex (\<lambda>g. fo_name g = fo_name f \<or> fo_key g = fo_key f \<or> fo_location g = fo_location f) fs
      then Inl IntegrityError else Inr (fs @ [f]))"

text \<open>\<open>node_info\<close> is the answer of the node at a location: its name, or an error of the request.\<close>

definition follower_add :: "(string \<Rightarrow> string \<Rightarrow> string res) \<Rightarrow> follower_request \<Rightarrow> request \<Rightarrow> follower list
    \<Rightarrow> unit res \<times> follower list" where
  "follower_add node_info body req fs =
     (let missing = (Inl (HTTPBadRequest ''Invalid request, missing [%s]''), fs)
      in case (fr_key body, fr_port body, fr_scheme body, fr_base_uri body) of
           (Some key, Some port, Some scheme, Some base_uri) \<Rightarrow>
             (case remote_host body req of
                Inl (PyKeyError k) \<Rightarrow> missing
              | Inl e \<Rightarrow> (Inl e, fs)
              | Inr host \<Rightarrow>
                  (let location = scheme @ ''://'' @ host @ '':'' @ port @ base_uri
                   in case node_info location key of
                        Inl (ApiError m) \<Rightarrow> (Inl (HTTPBadRequest ''no route to node at {location}''), fs)
                      | Inl (PyKeyError k) \<Rightarrow> missing
                      | Inl PyValueError \<Rightarrow> (Inl (HTTPBadRequest ''Invalid request, bad argument format''), fs)
                      | Inl e \<Rightarrow> (Inl e, fs)
                      | Inr name \<Rightarrow>
                          (case insert_follower \<lparr>fo_name = name, fo_key = key, fo_location = location\<rparr>
                                  (filter (\<lambda>f. fo_location f \<noteq> location) fs) of
                             Inl e \<Rightarrow> (Inl e, fs)
                           | Inr fs' \<Rightarrow> (Inr (), fs'))))
         | _ \<Rightarrow> missing)"

text \<open>\<open>delete\<close>: the condition of the deletion, \<open>name == name\<close>, compares the parameter with itself.\<close>

definition follower_delete :: "string option \<Rightarrow> follower list \<Rightarrow> unit res \<times> follower list" where
  "follower_delete name fs =
     (case name of
        None \<Rightarrow> (Inl (HTTPBadRequest ''specify name to remove''), fs)
      | Some n \<Rightarrow>
          if length (filter (\<lambda>f. fo_name f = n) fs) = 0 then (Inl (HTTPNotFound ''follower not found''), fs)
          else (Inr (), filter (\<lambda>f. \<not> n = n) fs))"

section \<open>The invariant of the table\<close>

text \<open>
  Ids and keys are unique, no id is above the sequence, grantors are rows, and no two users have the same name.
\<close>

definition user_names :: "master list \<Rightarrow> string list" where
  "user_names rows = map ma_name (filter (\<lambda>r. ma_type r = Some USER) rows)"

definition masters_ok :: "masters \<Rightarrow> bool" where
  "masters_ok t =
     (distinct (map ma_id (ms_rows t)) \<and> distinct (map ma_key (ms_rows t)) \<and> distinct (user_names (ms_rows t))
      \<and> (\<forall>r \<in> set (ms_rows t). ma_id r \<le> ms_seq t)
      \<and> (\<forall>r \<in> set (ms_rows t). \<forall>g. ma_grantor r = Some g \<longrightarrow> g \<in> ma_id ` set (ms_rows t)))"

lemma masters_okD:
  assumes "masters_ok t"
  shows "distinct (map ma_id (ms_rows t))" "distinct (map ma_key (ms_rows t))" "distinct (user_names (ms_rows t))"
    "r \<in> set (ms_rows t) \<Longrightarrow> ma_id r \<le> ms_seq t"
    "r \<in> set (ms_rows t) \<Longrightarrow> ma_grantor r = Some g \<Longrightarrow> g \<in> ma_id ` set (ms_rows t)"
  using assms by (auto simp: masters_ok_def)

lemma distinct_map_filter': "distinct (map f xs) \<Longrightarrow> distinct (map f (filter p xs))"
  by (induction xs) auto

lemma insert_master_ok:
  assumes "masters_ok t" "insert_master m t = Inr t'"
    and "ma_type m = Some USER \<Longrightarrow> ma_name m \<notin> set (user_names (ms_rows t))"
  shows "masters_ok t'"
proof -
  have t': "t' = t\<lparr>ms_rows := ms_rows t @ [m\<lparr>ma_id := ms_seq t + 1\<rparr>], ms_seq := ms_seq t + 1\<rparr>"
    and key: "ma_key m \<notin> ma_key ` set (ms_rows t)"
    and g: "\<And>g. ma_grantor m = Some g \<Longrightarrow> g \<in> ma_id ` set (ms_rows t)"
    using assms(2) by (auto simp: insert_master_def list_ex_iff split: if_splits option.splits)
  have "ms_seq t + 1 \<notin> ma_id ` set (ms_rows t)" using masters_okD(4) [OF assms(1)] by fastforce
  moreover have "\<And>r. r \<in> set (ms_rows t) \<Longrightarrow> ma_id r \<le> ms_seq t + 1"
    using masters_okD(4) [OF assms(1)] by fastforce
  ultimately show ?thesis
    using assms(3) masters_okD [OF assms(1)] key g unfolding t' masters_ok_def
    by (auto simp: user_names_def)
qed

lemma delete_masters_ok:
  assumes "masters_ok t" "delete_masters p t = Inr t'"
  shows "masters_ok t'" and "ms_rows t' = filter (\<lambda>r. \<not> p r) (ms_rows t)" and "ms_seq t' = ms_seq t"
proof -
  let ?rest = "filter (\<lambda>r. \<not> p r) (ms_rows t)"
  have t': "t' = t\<lparr>ms_rows := ?rest\<rparr>"
    and fk: "\<And>r g. r \<in> set ?rest \<Longrightarrow> g \<in> set (ms_rows t) \<Longrightarrow> p g \<Longrightarrow> ma_grantor r \<noteq> Some (ma_id g)"
    using assms(2) by (auto simp: delete_masters_def Let_def list_ex_iff split: if_splits)
  have "g \<in> ma_id ` set ?rest" if "r \<in> set ?rest" "ma_grantor r = Some g" for r g
    using masters_okD(5) [OF assms(1), of r g] fk [OF that(1)] that by auto
  moreover have "distinct (user_names ?rest)"
    using masters_okD(3) [OF assms(1)] distinct_map_filter' [of ma_name "filter (\<lambda>r. ma_type r = Some USER) (ms_rows t)" "\<lambda>r. \<not> p r"]
    by (simp add: user_names_def conj_commute)
  ultimately show "masters_ok t'" using masters_okD [OF assms(1)] unfolding t' masters_ok_def
    by (auto intro: distinct_map_filter')
  show "ms_rows t' = ?rest" "ms_seq t' = ms_seq t" by (simp_all add: t')
qed

lemma commit_deletes_ok:
  assumes "masters_ok t" "commit_deletes ids t = Inr t'"
  shows "masters_ok t' \<and> ms_rows t' = filter (\<lambda>r. ma_id r \<notin> set ids) (ms_rows t)"
proof -
  have "foldE (\<lambda>i. delete_masters (\<lambda>r. ma_id r = i)) xs s = Inr t' \<Longrightarrow> masters_ok s \<Longrightarrow>
      masters_ok t' \<and> ms_rows t' = filter (\<lambda>r. ma_id r \<notin> set xs) (ms_rows s)" for xs s
  proof (induction xs arbitrary: s)
    case (Cons x xs)
    then obtain s1 where s1: "delete_masters (\<lambda>r. ma_id r = x) s = Inr s1"
      "foldE (\<lambda>i. delete_masters (\<lambda>r. ma_id r = i)) xs s1 = Inr t'" by (auto simp: res_simps)
    from delete_masters_ok [OF Cons.prems(2) s1(1)] Cons.IH [OF s1(2)]
    show ?case by (auto simp: conj_commute intro!: filter_cong)
  qed simp
  from this [of "sort ids" t] assms show ?thesis by (simp add: commit_deletes_def)
qed

lemma update_master_ids [simp]:
  "(\<And>r. ma_id (f r) = ma_id r) \<Longrightarrow> map ma_id (ms_rows (update_master i f t)) = map ma_id (ms_rows t)"
  by (simp add: update_master_def)

lemma update_key_ok:
  assumes "masters_ok t" "key \<notin> ma_key ` set (ms_rows t)"
  shows "masters_ok (update_master i (\<lambda>r. r\<lparr>ma_key := key\<rparr>) t)"
proof -
  let ?f = "\<lambda>r. if ma_id r = i then r\<lparr>ma_key := key\<rparr> else r"
  have ids: "map ma_id (map ?f (ms_rows t)) = map ma_id (ms_rows t)" by simp
  have img: "ma_id ` ?f ` set (ms_rows t) = ma_id ` set (ms_rows t)" by (metis ids list.set_map)
  have "user_names (map ?f rows) = user_names rows" for rows
    by (induction rows) (auto simp: user_names_def)
  moreover have "distinct (map ma_key (map ?f rows))" if "distinct (map ma_id rows)" "distinct (map ma_key rows)"
    "key \<notin> ma_key ` set rows" for rows
    using that
  proof (induction rows)
    case (Cons a rows)
    have same: "map ?f rows = rows" if "ma_id a = i"
      using Cons.prems(1) that by (auto intro!: map_idI simp: image_iff)
    have sub: "ma_key ` ?f ` set rows \<subseteq> insert key (ma_key ` set rows)" by auto
    show ?case
    proof (cases "ma_id a = i")
      case True
      then show ?thesis using same Cons.prems by (simp del: map_map)
    next
      case False
      then have "ma_key a \<notin> ma_key ` ?f ` set rows" using sub Cons.prems(2,3) by auto
      then show ?thesis using False Cons by (simp add: image_image del: image_Int_subset if_image_distrib cong: image_cong)
    qed
  qed simp
  ultimately show ?thesis
    using masters_okD [OF assms(1)] assms(2) ids img unfolding masters_ok_def update_master_def
    by (auto simp: image_image simp del: map_map)
qed

lemma rename_device_ok:
  assumes "masters_ok t" "\<And>r. r \<in> set (ms_rows t) \<Longrightarrow> ma_id r = i \<Longrightarrow> ma_type r \<noteq> Some USER"
  shows "masters_ok (update_master i (\<lambda>r. r\<lparr>ma_name := name\<rparr>) t)"
proof -
  let ?f = "\<lambda>r. if ma_id r = i then r\<lparr>ma_name := name\<rparr> else r"
  have ids: "map ma_id (map ?f (ms_rows t)) = map ma_id (ms_rows t)"
    and keys: "map ma_key (map ?f (ms_rows t)) = map ma_key (ms_rows t)" by simp_all
  have img: "ma_id ` ?f ` set (ms_rows t) = ma_id ` set (ms_rows t)" by (metis ids list.set_map)
  have "user_names (map ?f rows) = user_names rows" if "\<forall>r \<in> set rows. ma_id r = i \<longrightarrow> ma_type r \<noteq> Some USER" for rows
    using that by (induction rows) (auto simp: user_names_def)
  then show ?thesis
    using masters_okD [OF assms(1)] assms(2) ids keys img unfolding masters_ok_def update_master_def
    by (auto simp: image_image simp del: map_map)
qed

section \<open>The operations keep it\<close>

lemma add_user_ok:
  assumes "masters_ok t" "add_user name key t = Inr t'"
  shows "masters_ok t'"
proof (cases "t' = t")
  case False
  then have key: "key \<notin> ma_key ` set (ms_rows t)"
    using assms(2) by (auto simp: add_user_def list_ex_iff split: if_splits)
  let ?m = "\<lparr>ma_id = 0, ma_name = name, ma_key = key, ma_type = Some USER, ma_grantor = None\<rparr>"
  show ?thesis
  proof (cases "filter (\<lambda>r. ma_type r = Some USER \<and> ma_name r = name) (ms_rows t)")
    case Nil
    then have "insert_master ?m t = Inr t'" using assms(2) False by (auto simp: add_user_def split: if_splits)
    then show ?thesis
      by (rule insert_master_ok [OF assms(1)]) (use Nil in \<open>auto simp: user_names_def filter_empty_conv\<close>)
  next
    case (Cons m ms)
    then show ?thesis using assms(2) False update_key_ok [OF assms(1) key] by (auto simp: add_user_def split: if_splits)
  qed
qed (use assms in simp)

lemma remove_user_ok: "masters_ok t \<Longrightarrow> remove_user user t = Inr t' \<Longrightarrow> masters_ok t'"
  using commit_deletes_ok by (auto simp: remove_user_def)

lemma remove_user_like_ok: "masters_ok t \<Longrightarrow> remove_user_like like user t = Inr t' \<Longrightarrow> masters_ok t'"
  using commit_deletes_ok by (auto simp: remove_user_like_def)

lemma users_line_ok: "masters_ok t \<Longrightarrow> users_line like line t = Inr t' \<Longrightarrow> masters_ok t'"
  by (auto simp: users_line_def parse_removal_def parse_addition_def Let_def split: if_splits list.splits
      intro: add_user_ok remove_user_ok remove_user_like_ok)

lemma update_users_ok: "masters_ok t \<Longrightarrow> update_users_from_file like ls t = (r, t') \<Longrightarrow> masters_ok t'"
  by (induction ls arbitrary: t) (auto split: sum.splits dest: users_line_ok)

lemma finish_device_ok:
  assumes "masters_ok t" "finish_device i ty name t = Inr t'" "ty \<noteq> USER"
    and "\<And>r. r \<in> set (ms_rows t) \<Longrightarrow> ma_id r = i \<Longrightarrow> ma_type r = Some ty"
  shows "masters_ok t'"
proof -
  obtain t1 where t1: "delete_masters (\<lambda>r. ma_type r = Some ty \<and> ma_name r = name) t = Inr t1"
    "t' = update_master i (\<lambda>r. r\<lparr>ma_name := name\<rparr>) t1"
    using assms(2) by (auto simp: finish_device_def res_simps)
  show ?thesis unfolding t1(2)
    by (rule rename_device_ok)
      (use delete_masters_ok [OF assms(1) t1(1)] assms(3,4) in auto)
qed

lemma add_device_ok:
  assumes "masters_ok t" "ty \<noteq> USER"
  shows "masters_ok (snd (add_device new_key pending reply ty body grantor t))"
proof (cases "insert_master \<lparr>ma_id = 0, ma_name = pending, ma_key = new_key, ma_type = Some ty, ma_grantor = Some grantor\<rparr> t")
  case (Inl e)
  then show ?thesis using assms by (simp add: add_device_def)
next
  case (Inr t1)
  have ok: "masters_ok t1" by (rule insert_master_ok [OF assms(1) Inr]) (use assms(2) in simp)
  have ty: "ma_type r = Some ty" if "r \<in> set (ms_rows t1)" "ma_id r = ms_seq t1" for r
    using Inr that masters_okD(4) [OF assms(1)]
    by (fastforce simp: insert_master_def split: if_splits option.splits)
  define undo :: "string option res \<times> masters" where "undo = (case commit_deletes [ms_seq t1] t1 of Inl e \<Rightarrow> (Inl e, t1)
    | Inr t2 \<Rightarrow> (Inl (HTTPBadRequest ''Cannot add master: [%s]''), t2))"
  define fin where "fin n x = (case finish_device (ms_seq t1) ty n t1 of Inl e \<Rightarrow> (Inl e, t1) | Inr t2 \<Rightarrow> (Inr x, t2))"
    for n and x :: "string option"
  have u: "masters_ok (snd undo)"
    using commit_deletes_ok [OF ok] ok by (auto simp: undo_def split: sum.split)
  have d: "masters_ok (snd (fin n x))" for n x
    using finish_device_ok [OF ok _ assms(2) ty] ok by (auto simp: fin_def split: sum.split)
  have "add_device new_key pending reply ty body grantor t =
     (case ar_identifier body of
        None \<Rightarrow> undo
      | Some identifier \<Rightarrow>
          if ty = LUMEN_NODE \<and> \<not> ar_lumen_params body then undo
          else (case reply of Inr name \<Rightarrow> fin name (Some name) | Inl (ApiError m) \<Rightarrow> fin identifier None
                  | Inl PyValueError \<Rightarrow> undo | Inl (PyKeyError k) \<Rightarrow> undo | Inl e \<Rightarrow> (Inl e, t1)))"
    unfolding add_device_def Inr sum.case Let_def undo_def fin_def by (rule refl)
  then show ?thesis using u d ok by (simp split: option.split sum.split exn.split)
qed

lemma add_user_master_ok:
  assumes "masters_ok t"
  shows "masters_ok (snd (add_user_master new_key body grantor t))"
  using assms by (auto simp: add_user_master_def Let_def list_ex_iff user_names_def
      split: option.splits if_splits sum.splits elim!: insert_master_ok)

lemma bad_request_state [simp]: "snd (bad_request r) = snd r"
  by (auto simp: bad_request_def split: prod.splits sum.splits exn.splits)

lemma master_add_ok:
  assumes "masters_ok t"
  shows "masters_ok (snd (master_add new_key pending reply body req t))"
proof -
  have u: "masters_ok t1" if "add_user_master new_key body g t = (r, t1)" for g r t1
    using add_user_master_ok [OF assms] that by (metis snd_conv)
  have d: "masters_ok (snd (add_device new_key pending reply JOULE_NODE body g t))"
    "masters_ok (snd (add_device new_key pending reply LUMEN_NODE body g t))" for g
    by (rule add_device_ok [OF assms], simp)+
  show ?thesis
    using assms d by (auto simp: master_add_def Let_def split: option.split sum.split prod.split dest: u)
qed

lemma master_delete_ok:
  assumes "masters_ok t"
  shows "masters_ok (snd (master_delete name master_type req t))"
proof -
  have c: "masters_ok (snd (case commit_deletes ids t of Inl e \<Rightarrow> (Inl e, t) | Inr t' \<Rightarrow> (Inr (), t')))" for ids
    using commit_deletes_ok [OF assms] assms by (auto split: sum.split)
  show ?thesis
    unfolding master_delete_def Let_def by (simp add: assms c split: option.split list.split)
qed

section \<open>Reachable tables\<close>

text \<open>One step of the node: a reading of the users file, or a request that adds or removes a master.\<close>

inductive masters_step :: "(string \<Rightarrow> string \<Rightarrow> bool) \<Rightarrow> masters \<Rightarrow> masters \<Rightarrow> bool" for like where
  users_file: "update_users_from_file like ls t = (r, t') \<Longrightarrow> masters_step like t t'"
| add: "master_add new_key pending reply body req t = (r, t') \<Longrightarrow> masters_step like t t'"
| delete: "master_delete name ty req t = (r, t') \<Longrightarrow> masters_step like t t'"

inductive masters_reach :: "(string \<Rightarrow> string \<Rightarrow> bool) \<Rightarrow> masters \<Rightarrow> bool" for like where
  start: "masters_reach like \<lparr>ms_rows = [], ms_seq = 0\<rparr>"
| step: "masters_reach like t \<Longrightarrow> masters_step like t t' \<Longrightarrow> masters_reach like t'"

inductive_cases masters_stepE: "masters_step like t t'"

lemma masters_step_ok: "masters_step like t t' \<Longrightarrow> masters_ok t \<Longrightarrow> masters_ok t'"
  by (erule masters_stepE) (metis update_users_ok master_add_ok master_delete_ok snd_conv)+

lemma masters_reach_ok: "masters_reach like t \<Longrightarrow> masters_ok t"
proof (induction rule: masters_reach.induct)
  case start
  show ?case by (simp add: masters_ok_def user_names_def)
qed (rule masters_step_ok)

lemma key_count:
  "distinct (map ma_key rows) \<Longrightarrow> length (filter (\<lambda>r. ma_key r = k) rows) = 1 \<longleftrightarrow> k \<in> ma_key ` set rows"
proof (induction rows)
  case (Cons a rows)
  have "filter (\<lambda>r. ma_key r = ma_key a) rows = []" using Cons.prems by (auto simp: filter_empty_conv image_iff)
  then show ?case using Cons by auto
qed simp



text \<open>
  Deleting one follower deletes all of them: the condition of the deletion compares the parameter with
  itself.
\<close>

lemma follower_delete_deletes_all:
  assumes "f \<in> set fs"
  shows "follower_delete (Some (fo_name f)) fs = (Inr (), [])"
  using assms by (auto simp: follower_delete_def filter_empty_conv)

lemma follower_delete_deletes_all_witness:
  "follower_delete (Some ''a'') [\<lparr>fo_name = ''a'', fo_key = ''k'', fo_location = ''l''\<rparr>,
     \<lparr>fo_name = ''b'', fo_key = ''m'', fo_location = ''n''\<rparr>] = (Inr (), [])"
  using follower_delete_deletes_all [of "\<lparr>fo_name = ''a'', fo_key = ''k'', fo_location = ''l''\<rparr>"
      "[\<lparr>fo_name = ''a'', fo_key = ''k'', fo_location = ''l''\<rparr>, \<lparr>fo_name = ''b'', fo_key = ''m'', fo_location = ''n''\<rparr>]"]
  by simp

end
