(* ===== verification/Streams.thy ===== *)
theory Streams
  imports Prelude
begin

text \<open>
  The descriptions of streams: elements (\<open>models/element.py\<close>), data streams (\<open>models/data_stream.py\<close>), event
  streams (\<open>models/event_stream.py\<close>) and the check of event fields (\<open>utilities/validators.py\<close>).  Floats are a
  type \<open>'f\<close>; the conversion of a JSON value or a string to a float is a parameter that may raise.  A
  configuration file is the list of its sections, a section the list of its settings.
\<close>

section \<open>Configuration files\<close>

type_synonym settings = "(string \<times> string) list"
type_synonym config_file = "(string \<times> settings) list"

definition setting :: "settings \<Rightarrow> string \<Rightarrow> string res" where
  "setting s key = (case map_of s key of None \<Rightarrow> Inl (PyKeyError key) | Some v \<Rightarrow> Inr v)"

definition setting_or :: "settings \<Rightarrow> string \<Rightarrow> string \<Rightarrow> string" where
  "setting_or s key dflt = (case map_of s key of None \<Rightarrow> dflt | Some v \<Rightarrow> v)"

text \<open>\<open>ConfigParser.getboolean\<close>.\<close>

definition config_bool :: "string \<Rightarrow> bool res" where
  "config_bool v =
     (if py_lower v \<in> set [''1'', ''yes'', ''true'', ''on''] then Inr True
      else if py_lower v \<in> set [''0'', ''no'', ''false'', ''off''] then Inr False
      else Inl PyValueError)"

definition get_boolean :: "settings \<Rightarrow> string \<Rightarrow> bool \<Rightarrow> bool res" where
  "get_boolean s key dflt = (case map_of s key of None \<Rightarrow> Inr dflt | Some v \<Rightarrow> config_bool v)"

text \<open>A handler \<open>except KeyError\<close> or \<open>except ValueError\<close> that raises another exception.\<close>

fun on_key_error :: "exn \<Rightarrow> 'a res \<Rightarrow> 'a res" where
  "on_key_error e (Inl (PyKeyError k)) = Inl e"
| "on_key_error e r = r"

fun on_value_error :: "exn \<Rightarrow> 'a res \<Rightarrow> 'a res" where
  "on_value_error e (Inl PyValueError) = Inl e"
| "on_value_error e r = r"

section \<open>Elements\<close>

datatype display_type = DISCRETE | CONTINUOUS | EVENT

record 'f element =
  el_id :: "int option"
  el_index :: nat
  el_name :: string
  el_units :: "string option"
  el_plottable :: "bool option"
  el_display_type :: "display_type option"
  el_offset :: 'f
  el_scale_factor :: 'f
  el_default_max :: "'f option"
  el_default_min :: "'f option"

text \<open>Equality of elements does not look at the id.\<close>

definition element_eq :: "'f element \<Rightarrow> 'f element \<Rightarrow> bool" where
  "element_eq a b = (a\<lparr>el_id := None\<rparr> = b\<lparr>el_id := None\<rparr>)"

definition merge_element :: "'f element \<Rightarrow> 'f element \<Rightarrow> (bool \<times> 'f element) res" where
  "merge_element a b =
     (if el_index a \<noteq> el_index b then Inl (ConfigurationError ''cannot merge elements with different indices'')
      else if element_eq a b then Inr (False, a)
      else Inr (True, b\<lparr>el_id := el_id a, el_index := el_index a\<rparr>))"

definition validate_element_name :: "string \<Rightarrow> string res" where
  "validate_element_name name = (if name = '''' then Inl (ConfigurationError ''missing name'') else Inr name)"

definition validate_type :: "string \<Rightarrow> display_type res" where
  "validate_type s =
     (let u = py_upper s
      in if u = ''DISCRETE'' then Inr DISCRETE else if u = ''CONTINUOUS'' then Inr CONTINUOUS
         else if u = ''EVENT'' then Inr EVENT
         else Inl (ConfigurationError ''invalid display_type [%s], choose from [%s]''))"

definition display_type_name :: "display_type \<Rightarrow> string" where
  "display_type_name d = (case d of DISCRETE \<Rightarrow> ''DISCRETE'' | CONTINUOUS \<Rightarrow> ''CONTINUOUS'' | EVENT \<Rightarrow> ''EVENT'')"

text \<open>
  The attributes of an update: \<open>None\<close> is a missing key; \<open>'v\<close> are the JSON values given for floats, of which
  \<open>Some None\<close> is \<open>null\<close> for the limits.
\<close>

record 'v element_attrs =
  ea_name :: "string option"
  ea_units :: "string option option"
  ea_plottable :: "bool option"
  ea_offset :: "'v option"
  ea_scale_factor :: "'v option"
  ea_display_type :: "string option"
  ea_default_max :: "'v option option"
  ea_default_min :: "'v option option"

text \<open>\<open>if key in attrs: self.field = f(attrs[key])\<close>; an exception leaves the earlier assignments in place.\<close>

definition assign :: "'a option \<Rightarrow> ('a \<Rightarrow> 'b res) \<Rightarrow> ('b \<Rightarrow> 's \<Rightarrow> 's) \<Rightarrow> ('s, unit) act" where
  "assign attr check upd s =
     (case attr of
        None \<Rightarrow> (Inr (), s)
      | Some x \<Rightarrow> (case check x of Inl e \<Rightarrow> (Inl e, s) | Inr y \<Rightarrow> (Inr (), upd y s)))"

definition opt_float :: "('v \<Rightarrow> 'f res) \<Rightarrow> 'v option \<Rightarrow> 'f option res" where
  "opt_float to_float x = (case x of None \<Rightarrow> Inr None | Some v \<Rightarrow> bindE (to_float v) (\<lambda>f. Inr (Some f)))"

definition catch_value_error :: "exn \<Rightarrow> ('s, unit) act \<Rightarrow> ('s, unit) act" where
  "catch_value_error e f s = (case f s of (r, s') \<Rightarrow> (on_value_error e r, s'))"

definition limits_check :: "('f::linorder element, unit) act" where
  "limits_check s =
     (case (el_default_max s, el_default_min s) of
        (Some a, Some b) \<Rightarrow> if a \<le> b then (Inl (ConfigurationError ''[default_min] must be > [default_max]''), s)
                          else (Inr (), s)
      | _ \<Rightarrow> (Inr (), s))"

definition update_element :: "('v \<Rightarrow> 'f::linorder res) \<Rightarrow> 'v element_attrs \<Rightarrow> ('f element, unit) act" where
  "update_element to_float a =
     seqA (assign (ea_name a) validate_element_name (\<lambda>x s. s\<lparr>el_name := x\<rparr>)) (\<lambda>_.
     seqA (assign (ea_units a) Inr (\<lambda>x s. s\<lparr>el_units := x\<rparr>)) (\<lambda>_.
     seqA (catch_value_error (ConfigurationError ''Invalid element configuration: %r'')
       (seqA (assign (ea_plottable a) Inr (\<lambda>x s. s\<lparr>el_plottable := Some x\<rparr>)) (\<lambda>_.
        seqA (assign (ea_offset a) to_float (\<lambda>x s. s\<lparr>el_offset := x\<rparr>)) (\<lambda>_.
        seqA (assign (ea_scale_factor a) to_float (\<lambda>x s. s\<lparr>el_scale_factor := x\<rparr>)) (\<lambda>_.
        seqA (assign (ea_display_type a) validate_type (\<lambda>x s. s\<lparr>el_display_type := Some x\<rparr>)) (\<lambda>_.
        seqA (assign (ea_default_max a) (opt_float to_float) (\<lambda>x s. s\<lparr>el_default_max := x\<rparr>)) (\<lambda>_.
        assign (ea_default_min a) (opt_float to_float) (\<lambda>x s. s\<lparr>el_default_min := x\<rparr>))))))))
     (\<lambda>_. limits_check)))"

text \<open>The JSON form of an element: the display type by name; the default for a missing one is made up.\<close>

record 'f element_json =
  ej_id :: "int option"
  ej_index :: nat
  ej_name :: string
  ej_units :: "string option"
  ej_plottable :: "bool option"
  ej_display_type :: string
  ej_offset :: 'f
  ej_scale_factor :: 'f
  ej_default_max :: "'f option"
  ej_default_min :: "'f option"

definition element_to_json :: "'f element \<Rightarrow> 'f element_json" where
  "element_to_json e =
     \<lparr>ej_id = el_id e, ej_index = el_index e, ej_name = el_name e, ej_units = el_units e,
      ej_plottable = el_plottable e,
      ej_display_type = display_type_name (case el_display_type e of None \<Rightarrow> CONTINUOUS | Some d \<Rightarrow> d),
      ej_offset = el_offset e, ej_scale_factor = el_scale_factor e,
      ej_default_max = el_default_max e, ej_default_min = el_default_min e\<rparr>"

definition element_from_json :: "'f element_json \<Rightarrow> 'f element res" where
  "element_from_json j =
     bindE (validate_element_name (ej_name j)) (\<lambda>name.
     bindE (validate_type (py_upper (ej_display_type j))) (\<lambda>ty.
     Inr \<lparr>el_id = ej_id j, el_index = ej_index j, el_name = name, el_units = ej_units j,
          el_plottable = ej_plottable j, el_display_type = Some ty, el_offset = ej_offset j,
          el_scale_factor = ej_scale_factor j, el_default_max = ej_default_max j, el_default_min = ej_default_min j\<rparr>))"

text \<open>\<open>_get_bool\<close> and \<open>_get_float\<close>; \<open>flt\<close> is \<open>float\<close> on a string.\<close>

definition get_bool :: "string \<Rightarrow> settings \<Rightarrow> bool \<Rightarrow> bool res" where
  "get_bool key s dflt =
     on_value_error (ConfigurationError ''[%s] invalid value, use True/False'') (get_boolean s key dflt)"

definition get_float :: "(string \<Rightarrow> 'f res) \<Rightarrow> string \<Rightarrow> settings \<Rightarrow> 'a \<Rightarrow> ('f \<Rightarrow> 'a) \<Rightarrow> 'a res" where
  "get_float flt key s dflt conv =
     (case map_of s key of
        None \<Rightarrow> Inr dflt
      | Some v \<Rightarrow>
          if v = ''None'' then Inr dflt
          else on_value_error (ConfigurationError ''[%s] invalid value, must be a number'')
                 (bindE (flt v) (\<lambda>f. Inr (conv f))))"

definition element_from_config :: "(string \<Rightarrow> 'f::{linorder,zero,one} res) \<Rightarrow> settings \<Rightarrow> 'f element res" where
  "element_from_config flt s =
     bindE (bindE (setting s ''name'') validate_element_name) (\<lambda>name.
     bindE (validate_type (setting_or s ''display_type'' ''continuous'')) (\<lambda>ty.
     bindE (get_bool ''plottable'' s True) (\<lambda>plottable.
     bindE (get_float flt ''offset'' s 0 (\<lambda>f. f)) (\<lambda>offset.
     bindE (get_float flt ''scale_factor'' s 1 (\<lambda>f. f)) (\<lambda>scale_factor.
     bindE (get_float flt ''default_max'' s None Some) (\<lambda>default_max.
     bindE (get_float flt ''default_min'' s None Some) (\<lambda>default_min.
       if (case (default_max, default_min) of (Some a, Some b) \<Rightarrow> a \<le> b | _ \<Rightarrow> False)
       then Inl (ConfigurationError ''set default_min<default_max or omit for autoscale'')
       else Inr \<lparr>el_id = None, el_index = 0, el_name = name, el_units = map_of s ''units'',
                 el_plottable = Some plottable, el_display_type = Some ty, el_offset = offset,
                 el_scale_factor = scale_factor, el_default_max = default_max, el_default_min = default_min\<rparr>)))))))"

section \<open>Data streams\<close>

datatype stream_datatype = FLOAT64 | FLOAT32 | INT64 | INT32 | INT16

record 'f data_stream =
  ds_id :: int
  ds_name :: string
  ds_description :: "string option"
  ds_datatype :: stream_datatype
  ds_decimate :: bool
  ds_keep_us :: int
  ds_is_configured :: bool
  ds_is_source :: "bool option"
  ds_is_destination :: "bool option"
  ds_elements :: "'f element list"
  ds_folder :: "int option"
  ds_updated :: int
  ds_remote :: "(string \<times> string) option"

definition keep_all :: int where "keep_all = -1"
definition keep_none :: int where "keep_none = 0"

definition datatype_name :: "stream_datatype \<Rightarrow> string" where
  "datatype_name d = (case d of FLOAT64 \<Rightarrow> ''FLOAT64'' | FLOAT32 \<Rightarrow> ''FLOAT32'' | INT64 \<Rightarrow> ''INT64''
     | INT32 \<Rightarrow> ''INT32'' | INT16 \<Rightarrow> ''INT16'')"

definition validate_datatype :: "string \<Rightarrow> stream_datatype res" where
  "validate_datatype s =
     (let u = py_upper s
      in if u = ''FLOAT64'' then Inr FLOAT64 else if u = ''FLOAT32'' then Inr FLOAT32
         else if u = ''INT64'' then Inr INT64 else if u = ''INT32'' then Inr INT32
         else if u = ''INT16'' then Inr INT16
         else Inl (ConfigurationError ''invalid datatype [%s], choose from [%s]''))"

definition validate_name :: "string option \<Rightarrow> string res" where
  "validate_name name =
     (case name of
        None \<Rightarrow> Inl (ConfigurationError ''missing name'')
      | Some s \<Rightarrow>
          if s = [] then Inl (ConfigurationError ''missing name'')
          else if CHR ''/'' \<in> set s then Inl (ConfigurationError ''invalid name, not allowed'')
          else Inr s)"

text \<open>
  \<open>validate_keep\<close>: \<open>fmul\<close> is the product in floating point, rounded down to an integer.
\<close>

definition keep_unit :: "char \<Rightarrow> int option" where
  "keep_unit c =
     (if c = CHR ''h'' then Some 3600000000 else if c = CHR ''d'' then Some 86400000000
      else if c = CHR ''w'' then Some 604800000000 else if c = CHR ''m'' then Some 2419200000000
      else if c = CHR ''y'' then Some 31536000000000 else None)"

definition validate_keep :: "(int \<Rightarrow> int \<Rightarrow> int) \<Rightarrow> string \<Rightarrow> int res" where
  "validate_keep fmul keep =
     (let bad = Inl (ConfigurationError ''invalid [DataStream] keepuse format #unit (eg 1w), none or all'')
      in if py_lower keep = ''none'' then Inr keep_none
         else if py_lower keep = ''all'' then Inr keep_all
         else if keep = [] \<or> butlast keep = [] \<or> \<not> list_all is_digit (butlast keep) then bad
         else
           (case keep_unit (last keep) of
              None \<Rightarrow> bad
            | Some unit \<Rightarrow>
                (let n = int (digits_val (butlast keep)) in if n \<le> 0 then bad else Inr (fmul n unit))))"

definition ds_locked :: "'f data_stream \<Rightarrow> bool" where
  "ds_locked s = (ds_is_configured s \<or> ds_is_destination s = Some True \<or> ds_is_source s = Some True)"

definition ds_active :: "'f data_stream \<Rightarrow> bool" where
  "ds_active s = (ds_is_source s = Some True \<or> ds_is_destination s = Some True)"

definition ds_is_remote :: "'f data_stream \<Rightarrow> bool" where
  "ds_is_remote s = (ds_remote s \<noteq> None)"

definition ds_layout :: "'f data_stream \<Rightarrow> string" where
  "ds_layout s = py_lower (datatype_name (ds_datatype s)) @ ''_'' @ nat_str (length (ds_elements s))"

definition ds_decimated_layout :: "'f data_stream \<Rightarrow> string" where
  "ds_decimated_layout s = ''float32_'' @ nat_str (length (ds_elements s) * 3)"

definition ds_data_width :: "'f data_stream \<Rightarrow> nat" where
  "ds_data_width s = length (ds_elements s) + 1"

text \<open>\<open>merge_configs\<close>: the elements in the order of their indices, then the settings of the stream.\<close>

fun merge_elements :: "'f element list \<Rightarrow> 'f element list \<Rightarrow> (bool \<times> 'f element list) res" where
  "merge_elements (a # as) (b # bs) =
     bindE (merge_element a b) (\<lambda>(u, a'). bindE (merge_elements as bs) (\<lambda>(us, as'). Inr (u \<or> us, a' # as')))"
| "merge_elements as bs = Inr (False, as)"

definition merge_stream :: "int \<Rightarrow> 'f data_stream \<Rightarrow> 'f data_stream \<Rightarrow> (bool \<times> 'f data_stream) res" where
  "merge_stream now a b =
     (if length (ds_elements a) \<noteq> length (ds_elements b)
      then Inl (ConfigurationError ''incorrect number of elements'')
      else
        bindE (merge_elements (sort_key el_index (ds_elements a)) (sort_key el_index (ds_elements b)))
          (\<lambda>(changed, els).
             let updated = (changed \<or> ds_keep_us a \<noteq> ds_keep_us b \<or> ds_decimate a \<noteq> ds_decimate b
                   \<or> ds_description a \<noteq> ds_description b \<or> ds_is_configured a \<noteq> ds_is_configured b
                   \<or> ds_is_destination a \<noteq> ds_is_destination b \<or> ds_is_source a \<noteq> ds_is_source b);
                 a' = a\<lparr>ds_elements := els, ds_keep_us := ds_keep_us b, ds_decimate := ds_decimate b,
                        ds_description := ds_description b, ds_is_configured := ds_is_configured b,
                        ds_is_destination := ds_is_destination b, ds_is_source := ds_is_source b\<rparr>
             in Inr (updated, if updated then a'\<lparr>ds_updated := now\<rparr> else a')))"

record 'v stream_attrs =
  sa_name :: "string option option"
  sa_description :: "string option option"
  sa_keep_us :: "int option"
  sa_decimate :: "bool option"
  sa_elements :: "'v element_attrs list option"

definition stream_attrs_given :: "'v stream_attrs \<Rightarrow> bool" where
  "stream_attrs_given a = (sa_name a \<noteq> None \<or> sa_description a \<noteq> None \<or> sa_keep_us a \<noteq> None
     \<or> sa_decimate a \<noteq> None \<or> sa_elements a \<noteq> None)"

text \<open>Each element of the stream takes the attributes at the position of its index.\<close>

fun update_elements :: "('v \<Rightarrow> 'f::linorder res) \<Rightarrow> 'v element_attrs list \<Rightarrow> ('f element list, unit) act" where
  "update_elements to_float cs [] = (Inr (), [])"
| "update_elements to_float cs (e # es) =
     (if length cs \<le> el_index e then (Inl PyIndexError, e # es)
      else
        (case update_element to_float (cs ! el_index e) e of
           (Inl x, e') \<Rightarrow> (Inl x, e' # es)
         | (Inr _, e') \<Rightarrow> (case update_elements to_float cs es of (r, es') \<Rightarrow> (r, e' # es'))))"

text \<open>\<open>update_attributes\<close> without the final \<open>touch\<close>, which needs the folders.\<close>

definition update_stream :: "('v \<Rightarrow> 'f::linorder res) \<Rightarrow> 'v stream_attrs \<Rightarrow> ('f data_stream, unit) act" where
  "update_stream to_float a =
     seqA (assign (sa_name a) validate_name (\<lambda>x s. s\<lparr>ds_name := x\<rparr>)) (\<lambda>_.
     seqA (assign (sa_description a) Inr (\<lambda>x s. s\<lparr>ds_description := x\<rparr>)) (\<lambda>_.
     seqA (assign (sa_keep_us a) Inr (\<lambda>x s. s\<lparr>ds_keep_us := x\<rparr>)) (\<lambda>_.
     seqA (assign (sa_decimate a) Inr (\<lambda>x s. s\<lparr>ds_decimate := x\<rparr>)) (\<lambda>_ s.
       case sa_elements a of
         None \<Rightarrow> (Inr (), s)
       | Some cs \<Rightarrow>
           if length cs \<noteq> length (ds_elements s)
           then (Inl (ConfigurationError ''incorrect number of elements''), s)
           else (case update_elements to_float cs (ds_elements s) of (r, es) \<Rightarrow> (r, s\<lparr>ds_elements := es\<rparr>))))))"

record 'f stream_json =
  sj_id :: int
  sj_name :: "string option"
  sj_description :: "string option"
  sj_datatype :: string
  sj_keep_us :: int
  sj_decimate :: bool
  sj_is_configured :: bool
  sj_is_source :: "bool option"
  sj_is_destination :: "bool option"
  sj_elements :: "'f element_json list"

text \<open>\<open>to_json\<close>, the fields that \<open>from_json\<close> reads.\<close>

definition stream_to_json :: "'f data_stream \<Rightarrow> 'f stream_json" where
  "stream_to_json s =
     \<lparr>sj_id = ds_id s, sj_name = Some (ds_name s), sj_description = ds_description s,
      sj_datatype = py_lower (datatype_name (ds_datatype s)), sj_keep_us = ds_keep_us s,
      sj_decimate = ds_decimate s, sj_is_configured = ds_is_configured s, sj_is_source = ds_is_source s,
      sj_is_destination = ds_is_destination s,
      sj_elements = map element_to_json (sort_key el_index (ds_elements s))\<rparr>"

fun elements_from_json :: "nat \<Rightarrow> 'f element_json list \<Rightarrow> 'f element list res" where
  "elements_from_json i [] = Inr []"
| "elements_from_json i (j # js) =
     bindE (element_from_json (j\<lparr>ej_index := i\<rparr>)) (\<lambda>e.
     bindE (elements_from_json (Suc i) js) (\<lambda>es. Inr (e # es)))"

definition stream_from_json :: "int \<Rightarrow> 'f stream_json \<Rightarrow> 'f data_stream res" where
  "stream_from_json now j =
     bindE (elements_from_json 0 (sj_elements j)) (\<lambda>els.
     bindE (validate_name (sj_name j)) (\<lambda>name.
     bindE (validate_datatype (py_upper (sj_datatype j))) (\<lambda>ty.
     Inr \<lparr>ds_id = sj_id j, ds_name = name, ds_description = sj_description j, ds_datatype = ty,
          ds_decimate = sj_decimate j, ds_keep_us = sj_keep_us j, ds_is_configured = sj_is_configured j,
          ds_is_source = sj_is_source j, ds_is_destination = sj_is_destination j, ds_elements = els,
          ds_folder = None, ds_updated = now, ds_remote = None\<rparr>)))"

text \<open>The sections of the elements are those whose name starts with \<open>Element\<close> and a digit.\<close>

definition is_element_section :: "string \<Rightarrow> bool" where
  "is_element_section sec =
     (starts_with ''Element'' sec \<and> 7 < length sec \<and> is_digit (sec ! 7))"

fun config_elements :: "(string \<Rightarrow> 'f::{linorder,zero,one} res) \<Rightarrow> nat \<Rightarrow> config_file \<Rightarrow> 'f element list res" where
  "config_elements flt i [] = Inr []"
| "config_elements flt i ((sec, s) # cs) =
     (if is_element_section sec then
        (case element_from_config flt s of
           Inl (ConfigurationError m) \<Rightarrow> Inl (ConfigurationError ''element <%s> %s'')
         | Inl e \<Rightarrow> Inl e
         | Inr e \<Rightarrow> bindE (config_elements flt (Suc i) cs) (\<lambda>es. Inr (e\<lparr>el_index := i\<rparr> # es)))
      else config_elements flt i cs)"

definition stream_from_config :: "(int \<Rightarrow> int \<Rightarrow> int) \<Rightarrow> (string \<Rightarrow> 'f::{linorder,zero,one} res) \<Rightarrow> int \<Rightarrow> config_file
    \<Rightarrow> 'f data_stream res" where
  "stream_from_config fmul flt now config =
     (case map_of config ''Main'' of
        None \<Rightarrow> Inl (ConfigurationError ''Missing section [%s]'')
      | Some main \<Rightarrow>
          bindE (on_key_error (ConfigurationError ''[Main] missing %s'')
            (bindE (bindE (setting main ''datatype'') validate_datatype) (\<lambda>ty.
             bindE (validate_keep fmul (setting_or main ''keep'' ''all'')) (\<lambda>keep_us.
             bindE (get_boolean main ''decimate'' True) (\<lambda>decimate.
             bindE (bindE (setting main ''name'') (\<lambda>n. validate_name (Some n))) (\<lambda>name.
             Inr \<lparr>ds_id = 0, ds_name = name, ds_description = Some (setting_or main ''description'' ''''),
                  ds_datatype = ty, ds_decimate = decimate, ds_keep_us = keep_us, ds_is_configured = False,
                  ds_is_source = None, ds_is_destination = None, ds_elements = [], ds_folder = None,
                  ds_updated = now, ds_remote = None\<rparr>))))))
            (\<lambda>s. bindE (config_elements flt 0 config)
              (\<lambda>els. if els = [] then Inl (ConfigurationError ''missing element configurations, must have at least one'')
                     else Inr (s\<lparr>ds_elements := els\<rparr>))))"

section \<open>Event streams\<close>

record event_stream =
  vs_id :: int
  vs_name :: string
  vs_description :: "string option"
  vs_event_fields :: "(string \<times> string) list"
  vs_chunk_duration_us :: int
  vs_keep_us :: int
  vs_folder :: "int option"
  vs_updated :: int

text \<open>
  \<open>validate_event_fields\<close>: \<open>categories\<close> is the result of \<open>json.loads\<close> on the text between the first and the
  second colon, \<open>None\<close> when this is no list of strings.
\<close>

definition validate_event_field :: "(string \<Rightarrow> string list option) \<Rightarrow> string \<Rightarrow> unit res" where
  "validate_event_field categories dt =
     (let pieces = py_split (CHR '':'') dt; ty = hd pieces
      in if ty \<notin> set [''string'', ''numeric'', ''category'']
         then Inl (ConfigurationError ''invalid value in event_fields, must be [numeric|string|category:cat1,cat2,...]'')
         else if ty = ''category'' then
           (if length pieces < 2 \<or> (case categories (pieces ! 1) of None \<Rightarrow> True | Some cs \<Rightarrow> cs = [])
            then Inl (ConfigurationError ''invalid value in event_fields, category type must a have JSON list of categories after a :'')
            else Inr ())
         else Inr ())"

definition validate_event_fields :: "(string \<Rightarrow> string list option) \<Rightarrow> (string \<times> string) list
    \<Rightarrow> (string \<times> string) list res" where
  "validate_event_fields categories evf =
     bindE (mapE (\<lambda>(k, dt). validate_event_field categories dt) evf) (\<lambda>_. Inr evf)"

text \<open>A JSON value that is to become an integer: an integer, a string, or neither.\<close>

datatype json_int = JInt int | JStr string | JNull

definition to_int :: "json_int \<Rightarrow> int res" where
  "to_int v = (case v of JInt i \<Rightarrow> Inr i
     | JStr s \<Rightarrow> (case py_int s of None \<Rightarrow> Inl PyValueError | Some i \<Rightarrow> Inr i)
     | JNull \<Rightarrow> Inl PyTypeError)"

definition validate_chunk_duration :: "json_int \<Rightarrow> int res" where
  "validate_chunk_duration v =
     (case to_int v of
        Inl e \<Rightarrow> Inl (ConfigurationError ''invalid chunk_duration_us, must be an integer'')
      | Inr d \<Rightarrow> if d < 0 then Inl (ConfigurationError ''invalid chunk_duration_us, must be > 0'') else Inr d)"

definition validate_keep_us :: "json_int \<Rightarrow> int res" where
  "validate_keep_us v =
     (case to_int v of
        Inl e \<Rightarrow> Inl (ConfigurationError ''invalid keep_us, must be an integer'')
      | Inr d \<Rightarrow> if d < -1 then Inl (ConfigurationError ''invalid keep_us, must be -1 (KEEP_ALL) or >= 0'') else Inr d)"

record event_stream_attrs =
  va_name :: "string option option"
  va_description :: "string option option"
  va_event_fields :: "(string \<times> string) list option"
  va_chunk_duration_us :: "json_int option"
  va_keep_us :: "json_int option"

definition event_attrs_given :: "event_stream_attrs \<Rightarrow> bool" where
  "event_attrs_given a = (va_name a \<noteq> None \<or> va_description a \<noteq> None \<or> va_event_fields a \<noteq> None
     \<or> va_chunk_duration_us a \<noteq> None \<or> va_keep_us a \<noteq> None)"

definition update_event_stream :: "(string \<Rightarrow> string list option) \<Rightarrow> event_stream_attrs \<Rightarrow> (event_stream, unit) act" where
  "update_event_stream categories a =
     seqA (assign (va_name a) validate_name (\<lambda>x s. s\<lparr>vs_name := x\<rparr>)) (\<lambda>_.
     seqA (assign (va_description a) Inr (\<lambda>x s. s\<lparr>vs_description := x\<rparr>)) (\<lambda>_.
     seqA (assign (va_event_fields a) (validate_event_fields categories) (\<lambda>x s. s\<lparr>vs_event_fields := x\<rparr>)) (\<lambda>_.
     seqA (assign (va_chunk_duration_us a) validate_chunk_duration (\<lambda>x s. s\<lparr>vs_chunk_duration_us := x\<rparr>)) (\<lambda>_.
     assign (va_keep_us a) validate_keep_us (\<lambda>x s. s\<lparr>vs_keep_us := x\<rparr>)))))"

record event_stream_json =
  vj_id :: int
  vj_name :: "string option"
  vj_description :: "string option"
  vj_event_fields :: "(string \<times> string) list"
  vj_chunk_duration_us :: json_int
  vj_keep_us :: json_int

definition event_stream_from_json :: "(string \<Rightarrow> string list option) \<Rightarrow> int \<Rightarrow> event_stream_json \<Rightarrow> event_stream res" where
  "event_stream_from_json categories now j =
     bindE (validate_name (vj_name j)) (\<lambda>name.
     bindE (validate_event_fields categories (vj_event_fields j)) (\<lambda>evf.
     bindE (validate_chunk_duration (vj_chunk_duration_us j)) (\<lambda>chunk.
     bindE (validate_keep_us (vj_keep_us j)) (\<lambda>keep.
     Inr \<lparr>vs_id = vj_id j, vs_name = name, vs_description = vj_description j, vs_event_fields = evf,
          vs_chunk_duration_us = chunk, vs_keep_us = keep, vs_folder = None, vs_updated = now\<rparr>))))"

definition event_stream_to_json :: "event_stream \<Rightarrow> event_stream_json" where
  "event_stream_to_json s =
     \<lparr>vj_id = vs_id s, vj_name = Some (vs_name s), vj_description = vs_description s,
      vj_event_fields = vs_event_fields s, vj_chunk_duration_us = JInt (vs_chunk_duration_us s),
      vj_keep_us = JInt (vs_keep_us s)\<rparr>"

section \<open>From JSON and back\<close>

lemma type_names:
  "validate_type (py_upper (display_type_name DISCRETE)) = Inr DISCRETE"
  "validate_type (py_upper (display_type_name CONTINUOUS)) = Inr CONTINUOUS"
  "validate_type (py_upper (display_type_name EVENT)) = Inr EVENT"
  by code_simp+

lemma validate_type_name [simp]: "validate_type (py_upper (display_type_name d)) = Inr d"
  by (cases d) (simp_all only: type_names)

lemma datatype_names:
  "validate_datatype (py_upper (py_lower (datatype_name FLOAT64))) = Inr FLOAT64"
  "validate_datatype (py_upper (py_lower (datatype_name FLOAT32))) = Inr FLOAT32"
  "validate_datatype (py_upper (py_lower (datatype_name INT64))) = Inr INT64"
  "validate_datatype (py_upper (py_lower (datatype_name INT32))) = Inr INT32"
  "validate_datatype (py_upper (py_lower (datatype_name INT16))) = Inr INT16"
  by code_simp+

lemma validate_datatype_name [simp]: "validate_datatype (py_upper (py_lower (datatype_name d))) = Inr d"
  by (cases d) (simp_all only: datatype_names)

definition valid_name :: "string \<Rightarrow> bool" where
  "valid_name s = (s \<noteq> [] \<and> CHR ''/'' \<notin> set s)"

lemma validate_name_iff: "validate_name (Some s) = Inr n \<longleftrightarrow> n = s \<and> valid_name s"
  by (auto simp: validate_name_def valid_name_def)

lemma validate_name_Some: "valid_name s \<Longrightarrow> validate_name (Some s) = Inr s"
  by (simp add: validate_name_iff)

lemma validate_name_valid: "validate_name n = Inr s \<Longrightarrow> valid_name s"
  by (auto simp: validate_name_def valid_name_def split: option.splits if_splits)

text \<open>What the JSON form makes of an element: it has a display type.\<close>

definition shown_element :: "'f element \<Rightarrow> 'f element" where
  "shown_element e = e\<lparr>el_display_type := Some (case el_display_type e of None \<Rightarrow> CONTINUOUS | Some d \<Rightarrow> d)\<rparr>"

lemma element_json_round_trip:
  "el_name e \<noteq> [] \<Longrightarrow> element_from_json ((element_to_json e)\<lparr>ej_index := i\<rparr>) = Inr ((shown_element e)\<lparr>el_index := i\<rparr>)"
  by (simp add: element_from_json_def element_to_json_def validate_element_name_def shown_element_def)

lemma elements_json_round_trip:
  "list_all (\<lambda>e. el_name e \<noteq> []) es \<Longrightarrow>
   elements_from_json i (map element_to_json es) = Inr (map2 (\<lambda>e i. (shown_element e)\<lparr>el_index := i\<rparr>) es [i..<i + length es])"
proof (induction es arbitrary: i)
  case (Cons e es)
  have "[i..<i + length (e # es)] = i # [Suc i..<Suc i + length es]" by (simp add: upt_conv_Cons del: upt_Suc)
  then show ?case using Cons by (simp add: element_json_round_trip del: upt_Suc)
qed simp

lemma stream_from_to_json:
  assumes "valid_name (ds_name s)" "list_all (\<lambda>e. el_name e \<noteq> []) (ds_elements s)"
    and "map el_index (sort_key el_index (ds_elements s)) = [0..<length (ds_elements s)]"
  shows "stream_from_json now (stream_to_json s)
    = Inr (s\<lparr>ds_elements := map shown_element (sort_key el_index (ds_elements s)), ds_folder := None,
             ds_updated := now, ds_remote := None\<rparr>)"
proof -
  let ?es = "sort_key el_index (ds_elements s)"
  have names: "list_all (\<lambda>e. el_name e \<noteq> []) ?es" using assms(2) by (simp add: list_all_iff)
  have "map2 (\<lambda>e i. (shown_element e)\<lparr>el_index := i\<rparr>) ?es [0..<length ?es] = map shown_element ?es"
  proof (rule nth_equalityI)
    fix i
    assume i: "i < length (map2 (\<lambda>e i. (shown_element e)\<lparr>el_index := i\<rparr>) ?es [0..<length ?es])"
    then have "map el_index ?es ! i = i" unfolding assms(3) by simp
    then show "map2 (\<lambda>e i. (shown_element e)\<lparr>el_index := i\<rparr>) ?es [0..<length ?es] ! i = map shown_element ?es ! i"
      using i by (simp add: shown_element_def)
  qed simp
  then have "elements_from_json 0 (map element_to_json ?es) = Inr (map shown_element ?es)"
    using elements_json_round_trip [OF names, of 0] by simp
  then show ?thesis
    using validate_name_Some [OF assms(1)] by (simp add: stream_from_json_def stream_to_json_def)
qed

text \<open>
  C28.  The JSON form of a data stream with proper names and with elements numbered from zero is read back as
  the same stream, up to what the form does not hold (the folder, the time of the last change, the remote
  node): its elements in the order of their indices, each with a display type.
\<close>

theorem stream_json_round_trip:
  assumes "valid_name (ds_name s)" "list_all (\<lambda>e. el_name e \<noteq> []) (ds_elements s)"
    and "map el_index (sort_key el_index (ds_elements s)) = [0..<length (ds_elements s)]"
  shows "stream_from_json now (stream_to_json s)
    = Inr (s\<lparr>ds_elements := map shown_element (sort_key el_index (ds_elements s)), ds_folder := None,
             ds_updated := now, ds_remote := None\<rparr>)"
  using assms by (rule stream_from_to_json)

definition demo_element :: "nat \<Rightarrow> string \<Rightarrow> int element" where
  "demo_element i n = \<lparr>el_id = None, el_index = i, el_name = n, el_units = None, el_plottable = Some True,
     el_display_type = None, el_offset = 0, el_scale_factor = 1, el_default_max = None, el_default_min = None\<rparr>"

definition demo_stream :: "int data_stream" where
  "demo_stream = \<lparr>ds_id = 1, ds_name = ''s'', ds_description = None, ds_datatype = INT16, ds_decimate = True,
     ds_keep_us = -1, ds_is_configured = False, ds_is_source = Some False, ds_is_destination = Some False,
     ds_elements = [demo_element 1 ''y'', demo_element 0 ''x''], ds_folder = Some 2, ds_updated = 5, ds_remote = None\<rparr>"

lemma stream_json_round_trip_witness:
  "stream_from_json 9 (stream_to_json demo_stream)
    = Inr (demo_stream\<lparr>ds_elements := map shown_element [demo_element 0 ''x'', demo_element 1 ''y''], ds_folder := None,
             ds_updated := 9\<rparr>)"
  using stream_json_round_trip [of demo_stream 9]
  by (simp add: demo_stream_def demo_element_def valid_name_def upt_rec)

section \<open>Merging configurations\<close>

lemma merge_element_same: "merge_element a b = Inr (u, a') \<Longrightarrow> element_eq a' b \<and> (\<not> u \<longrightarrow> a' = a)"
  by (auto simp: merge_element_def element_eq_def split: if_splits)

lemma merge_element_again: "merge_element a b = Inr (u, a') \<Longrightarrow> merge_element a' b = Inr (False, a')"
  by (auto simp: merge_element_def element_eq_def split: if_splits)

lemma merge_elements_index: "merge_elements as bs = Inr (u, as') \<Longrightarrow> map el_index as' = map el_index as"
proof (induction as bs arbitrary: u as' rule: merge_elements.induct)
  case (1 a as b bs)
  then obtain ua a' us as1 where "merge_element a b = Inr (ua, a')" "merge_elements as bs = Inr (us, as1)" "as' = a' # as1"
    by (auto simp: res_simps split: prod.splits)
  moreover then have "el_index a' = el_index a" by (auto simp: merge_element_def split: if_splits)
  ultimately show ?case using 1(1) by auto
qed auto

lemma merge_elements_again:
  "merge_elements as bs = Inr (u, as') \<Longrightarrow> merge_elements as' bs = Inr (False, as')"
proof (induction as bs arbitrary: u as' rule: merge_elements.induct)
  case (1 a as b bs)
  then obtain ua a' us as1 where "merge_element a b = Inr (ua, a')" "merge_elements as bs = Inr (us, as1)" "as' = a' # as1"
    by (auto simp: res_simps split: prod.splits)
  moreover then have "merge_element a' b = Inr (False, a')" "merge_elements as1 bs = Inr (False, as1)"
    using merge_element_again 1(1) by auto
  ultimately show ?case by simp
qed auto

lemma merge_stream_result:
  assumes "merge_stream now a b = Inr (u, a')"
  obtains c els where "length (ds_elements a) = length (ds_elements b)"
    "merge_elements (sort_key el_index (ds_elements a)) (sort_key el_index (ds_elements b)) = Inr (c, els)"
    "a' = (a\<lparr>ds_elements := els, ds_keep_us := ds_keep_us b, ds_decimate := ds_decimate b,
      ds_description := ds_description b, ds_is_configured := ds_is_configured b,
      ds_is_destination := ds_is_destination b, ds_is_source := ds_is_source b,
      ds_updated := (if u then now else ds_updated a)\<rparr>)"
proof -
  have len: "length (ds_elements a) = length (ds_elements b)"
    using assms by (auto simp: merge_stream_def split: if_splits)
  obtain x where "merge_elements (sort_key el_index (ds_elements a)) (sort_key el_index (ds_elements b)) = Inr x"
    using assms len by (auto simp: merge_stream_def res_simps simp del: split_paired_Ex)
  then obtain c els where m: "merge_elements (sort_key el_index (ds_elements a)) (sort_key el_index (ds_elements b)) = Inr (c, els)"
    by (cases x) simp
  let ?a = "a\<lparr>ds_elements := els, ds_keep_us := ds_keep_us b, ds_decimate := ds_decimate b,
    ds_description := ds_description b, ds_is_configured := ds_is_configured b,
    ds_is_destination := ds_is_destination b, ds_is_source := ds_is_source b\<rparr>"
  have "a' = (if u then ?a\<lparr>ds_updated := now\<rparr> else ?a)"
    using assms unfolding merge_stream_def m Let_def by (simp only: len not_True_eq_False if_False simp_thms
        bindE.simps prod.case sum.inject prod.inject) metis
  then show thesis by (intro that [OF len m]) (cases u; simp)
qed

text \<open>
  Merging a stream with a configuration is idempotent: a second merge with the same configuration finds
  nothing to change and leaves the stream as it is.  The first one reports no change exactly if every element
  equals its counterpart and the settings of the stream are those of the configuration.
\<close>

lemma merge_stream_idempotent:
  assumes "merge_stream now a b = Inr (u, a')"
  shows "merge_stream later a' b = Inr (False, a')"
proof -
  from assms obtain c els where len: "length (ds_elements a) = length (ds_elements b)"
    and m: "merge_elements (sort_key el_index (ds_elements a)) (sort_key el_index (ds_elements b)) = Inr (c, els)"
    and a': "a' = (a\<lparr>ds_elements := els, ds_keep_us := ds_keep_us b, ds_decimate := ds_decimate b,
      ds_description := ds_description b, ds_is_configured := ds_is_configured b,
      ds_is_destination := ds_is_destination b, ds_is_source := ds_is_source b,
      ds_updated := (if u then now else ds_updated a)\<rparr>)"
    by (rule merge_stream_result)
  have idx: "map el_index els = map el_index (sort_key el_index (ds_elements a))"
    by (rule merge_elements_index [OF m])
  then have "length els = length (ds_elements b)" using len by (metis length_map length_sort)
  moreover have "sort_key el_index els = els"
    using idx by (metis sort_key_id_if_sorted sorted_sort_key)
  ultimately show ?thesis
    using merge_elements_again [OF m] a' by (simp add: merge_stream_def Let_def)
qed

lemma merge_stream_idempotent_witness:
  "merge_stream 8 (demo_stream\<lparr>ds_keep_us := 7, ds_elements := [demo_element 0 ''z''], ds_updated := 6\<rparr>)
      (demo_stream\<lparr>ds_keep_us := 7, ds_elements := [demo_element 0 ''z'']\<rparr>)
    = Inr (False, demo_stream\<lparr>ds_keep_us := 7, ds_elements := [demo_element 0 ''z''], ds_updated := 6\<rparr>)"
proof -
  have "merge_element (demo_element 0 ''x'') (demo_element 0 ''z'') = Inr (True, demo_element 0 ''z'')"
    by (simp add: merge_element_def element_eq_def demo_element_def)
  then have "merge_stream 6 (demo_stream\<lparr>ds_elements := [demo_element 0 ''x'']\<rparr>)
      (demo_stream\<lparr>ds_keep_us := 7, ds_elements := [demo_element 0 ''z'']\<rparr>)
    = Inr (True, demo_stream\<lparr>ds_keep_us := 7, ds_elements := [demo_element 0 ''z''], ds_updated := 6\<rparr>)"
    by (simp add: merge_stream_def demo_stream_def Let_def)
  then show ?thesis by (rule merge_stream_idempotent)
qed

end
