(* ===== verification/Catalogue.thy ===== *)
theory Catalogue
  imports Streams
begin

text \<open>
  The catalogue of folders and streams: \<open>models/folder.py\<close>.  The tables of the database are lists of rows;
  the children and streams of a folder are the rows that refer to its id.  Recursions along the parents or
  the children of a folder take fuel; lemmas below show that the number of folders is enough.
\<close>

section \<open>Folders\<close>

record folder =
  fd_id :: int
  fd_name :: string
  fd_description :: "string option"
  fd_parent :: "int option"
  fd_updated :: int

record 'f catalog =
  ct_folders :: "folder list"
  ct_data :: "'f data_stream list"
  ct_events :: "event_stream list"
  ct_folder_seq :: int
  ct_data_seq :: int
  ct_event_seq :: int

datatype stream_ref = DataRef int | EventRef int

definition get_folder :: "'f catalog \<Rightarrow> int \<Rightarrow> folder option" where
  "get_folder c i = List.find (\<lambda>f. fd_id f = i) (ct_folders c)"

definition get_data :: "'f catalog \<Rightarrow> int \<Rightarrow> 'f data_stream option" where
  "get_data c i = List.find (\<lambda>s. ds_id s = i) (ct_data c)"

definition get_event :: "'f catalog \<Rightarrow> int \<Rightarrow> event_stream option" where
  "get_event c i = List.find (\<lambda>s. vs_id s = i) (ct_events c)"

definition children :: "'f catalog \<Rightarrow> int \<Rightarrow> folder list" where
  "children c i = filter (\<lambda>f. fd_parent f = Some i) (ct_folders c)"

definition data_in :: "'f catalog \<Rightarrow> int \<Rightarrow> 'f data_stream list" where
  "data_in c i = filter (\<lambda>s. ds_folder s = Some i) (ct_data c)"

definition events_in :: "'f catalog \<Rightarrow> int \<Rightarrow> event_stream list" where
  "events_in c i = filter (\<lambda>s. vs_folder s = Some i) (ct_events c)"

definition update_folder :: "int \<Rightarrow> (folder \<Rightarrow> folder) \<Rightarrow> 'f catalog \<Rightarrow> 'f catalog" where
  "update_folder i g c = c\<lparr>ct_folders := map (\<lambda>f. if fd_id f = i then g f else f) (ct_folders c)\<rparr>"

definition update_data :: "int \<Rightarrow> ('f data_stream \<Rightarrow> 'f data_stream) \<Rightarrow> 'f catalog \<Rightarrow> 'f catalog" where
  "update_data i g c = c\<lparr>ct_data := map (\<lambda>s. if ds_id s = i then g s else s) (ct_data c)\<rparr>"

definition update_event :: "int \<Rightarrow> (event_stream \<Rightarrow> event_stream) \<Rightarrow> 'f catalog \<Rightarrow> 'f catalog" where
  "update_event i g c = c\<lparr>ct_events := map (\<lambda>s. if vs_id s = i then g s else s) (ct_events c)\<rparr>"

text \<open>The names of the streams of a folder, data streams first.\<close>

definition stream_names :: "'f catalog \<Rightarrow> int \<Rightarrow> string list" where
  "stream_names c i = map ds_name (data_in c i) @ map vs_name (events_in c i)"

definition stream_in_folder :: "'f catalog \<Rightarrow> int \<Rightarrow> string \<Rightarrow> stream_ref option" where
  "stream_in_folder c i name =
     (case List.find (\<lambda>s. ds_name s = name) (data_in c i) of
        Some s \<Rightarrow> Some (DataRef (ds_id s))
      | None \<Rightarrow>
          (case List.find (\<lambda>s. vs_name s = name) (events_in c i) of
             Some s \<Rightarrow> Some (EventRef (vs_id s))
           | None \<Rightarrow> None))"

text \<open>\<open>find_stream_by_segments\<close>, on the first segment and the others.\<close>

fun find_stream_by_segments :: "'f catalog \<Rightarrow> int \<Rightarrow> string \<Rightarrow> string list \<Rightarrow> stream_ref option" where
  "find_stream_by_segments c i seg [] = stream_in_folder c i seg"
| "find_stream_by_segments c i seg (t # ts) =
     (case List.find (\<lambda>f. fd_name f = seg) (children c i) of
        Some f \<Rightarrow> find_stream_by_segments c (fd_id f) t ts
      | None \<Rightarrow> None)"

fun contains_streams :: "nat \<Rightarrow> 'f catalog \<Rightarrow> int \<Rightarrow> bool" where
  "contains_streams 0 c i = False"
| "contains_streams (Suc n) c i =
     (data_in c i \<noteq> [] \<or> events_in c i \<noteq> [] \<or> list_ex (\<lambda>f. contains_streams n c (fd_id f)) (children c i))"

fun folder_locked :: "nat \<Rightarrow> 'f catalog \<Rightarrow> folder \<Rightarrow> bool" where
  "folder_locked 0 c f = False"
| "folder_locked (Suc n) c f =
     (fd_parent f = None \<or> list_ex (folder_locked n c) (children c (fd_id f))
      \<or> list_ex ds_locked (data_in c (fd_id f)))"

definition locked :: "'f catalog \<Rightarrow> folder \<Rightarrow> bool" where
  "locked c f = folder_locked (length (ct_folders c)) c f"

text \<open>\<open>touch\<close>: the folder and all folders above it.\<close>

fun touch_up :: "nat \<Rightarrow> int \<Rightarrow> int \<Rightarrow> 'f catalog \<Rightarrow> 'f catalog" where
  "touch_up 0 now i c = c"
| "touch_up (Suc n) now i c =
     (case get_folder c i of
        None \<Rightarrow> c
      | Some f \<Rightarrow>
          (let c' = update_folder i (\<lambda>f. f\<lparr>fd_updated := now\<rparr>) c
           in case fd_parent f of None \<Rightarrow> c' | Some p \<Rightarrow> touch_up n now p c'))"

definition touch_folder :: "int \<Rightarrow> int \<Rightarrow> 'f catalog \<Rightarrow> 'f catalog" where
  "touch_folder now i c = touch_up (length (ct_folders c)) now i c"

definition touch_data :: "int \<Rightarrow> int \<Rightarrow> 'f catalog \<Rightarrow> 'f catalog" where
  "touch_data now i c =
     (let c' = update_data i (\<lambda>s. s\<lparr>ds_updated := now\<rparr>) c
      in case get_data c i of
           Some s \<Rightarrow> (case ds_folder s of Some p \<Rightarrow> touch_folder now p c' | None \<Rightarrow> c')
         | None \<Rightarrow> c')"

definition touch_event :: "int \<Rightarrow> int \<Rightarrow> 'f catalog \<Rightarrow> 'f catalog" where
  "touch_event now i c =
     (let c' = update_event i (\<lambda>s. s\<lparr>vs_updated := now\<rparr>) c
      in case get_event c i of
           Some s \<Rightarrow> (case vs_folder s of Some p \<Rightarrow> touch_folder now p c' | None \<Rightarrow> c')
         | None \<Rightarrow> c')"

record folder_attrs =
  fa_name :: "string option option"
  fa_description :: "string option option"

definition update_folder_attributes :: "folder_attrs \<Rightarrow> (folder, unit) act" where
  "update_folder_attributes a =
     seqA (assign (fa_name a) validate_name (\<lambda>x f. f\<lparr>fd_name := x\<rparr>)) (\<lambda>_.
     assign (fa_description a) Inr (\<lambda>x f. f\<lparr>fd_description := x\<rparr>))"

section \<open>Paths\<close>

definition new_folder :: "int \<Rightarrow> int option \<Rightarrow> string \<Rightarrow> 'f catalog \<Rightarrow> int \<times> 'f catalog" where
  "new_folder now parent name c =
     (let i = ct_folder_seq c + 1
      in (i, c\<lparr>ct_folders := ct_folders c @ [\<lparr>fd_id = i, fd_name = name, fd_description = None,
                 fd_parent = parent, fd_updated = now\<rparr>], ct_folder_seq := i\<rparr>))"

definition root :: "int \<Rightarrow> ('f catalog, int) act" where
  "root now c =
     (case filter (\<lambda>f. fd_parent f = None) (ct_folders c) of
        [] \<Rightarrow> (case new_folder now None ''root'' c of (i, c') \<Rightarrow> (Inr i, c'))
      | [f] \<Rightarrow> (Inr (fd_id f), c)
      | _ \<Rightarrow> (Inl MultipleResultsFound, c))"

text \<open>
  \<open>find\<close>: the recursion joins the remaining segments to a path and splits them again; here it is on the
  segments.
\<close>

fun find_segments :: "int \<Rightarrow> bool \<Rightarrow> int \<Rightarrow> string list \<Rightarrow> ('f catalog, int option) act" where
  "find_segments now create parent [] c = (Inr (Some parent), c)"
| "find_segments now create parent (name # ns) c =
     (case filter (\<lambda>f. fd_parent f = Some parent \<and> fd_name f = name) (ct_folders c) of
        [] \<Rightarrow>
          if \<not> create then (Inr None, c)
          else (case new_folder now (Some parent) name c of (i, c') \<Rightarrow> find_segments now create i ns c')
      | [f] \<Rightarrow> find_segments now create (fd_id f) ns c
      | _ \<Rightarrow> (Inl MultipleResultsFound, c))"

definition find_folder :: "int \<Rightarrow> bool \<Rightarrow> string \<Rightarrow> ('f catalog, int option) act" where
  "find_folder now create path =
     (if path = [] \<or> hd path \<noteq> CHR ''/'' then raiseA (ConfigurationError ''invalid path [%s]'')
      else seqA (root now) (\<lambda>r.
        if path = ''/'' then pureA (Some r)
        else
          (let segs = tl (py_split (CHR ''/'') path)
           in if [] \<in> set segs then raiseA (ConfigurationError ''invalid path [%s]'')
              else find_segments now create r segs)))"

datatype stream_kind = AnyStream | DataKind | EventKind

definition is_kind :: "stream_kind \<Rightarrow> stream_ref \<Rightarrow> bool" where
  "is_kind k r =
     (case k of
        AnyStream \<Rightarrow> True
      | DataKind \<Rightarrow> (case r of DataRef i \<Rightarrow> True | EventRef i \<Rightarrow> False)
      | EventKind \<Rightarrow> (case r of DataRef i \<Rightarrow> False | EventRef i \<Rightarrow> True))"

definition find_stream_by_path :: "int \<Rightarrow> stream_kind \<Rightarrow> string \<Rightarrow> ('f catalog, stream_ref option) act" where
  "find_stream_by_path now kind path =
     seqA (root now) (\<lambda>r c.
       (let segs = py_split (CHR ''/'') (drop 1 path)
        in case find_stream_by_segments c r (hd segs) (tl segs) of
             Some s \<Rightarrow> (Inr (if is_kind kind s then Some s else None), c)
           | None \<Rightarrow> (Inr None, c)))"

text \<open>\<open>_get_path\<close> and \<open>get_stream_path\<close>.\<close>

fun path_up :: "nat \<Rightarrow> 'f catalog \<Rightarrow> int \<Rightarrow> string \<Rightarrow> string option" where
  "path_up 0 c i path = None"
| "path_up (Suc n) c i path =
     (case get_folder c i of
        None \<Rightarrow> None
      | Some f \<Rightarrow>
          (case fd_parent f of
             None \<Rightarrow> Some (CHR ''/'' # path)
           | Some p \<Rightarrow> path_up n c p (fd_name f @ CHR ''/'' # path)))"

definition get_stream_path :: "'f catalog \<Rightarrow> stream_ref \<Rightarrow> string option" where
  "get_stream_path c r =
     (let n = length (ct_folders c)
      in case r of
           DataRef i \<Rightarrow>
             (case get_data c i of
                None \<Rightarrow> None
              | Some s \<Rightarrow>
                  (case ds_remote s of
                     Some (node, path) \<Rightarrow> Some (''['' @ node @ ''] '' @ path)
                   | None \<Rightarrow> (case ds_folder s of None \<Rightarrow> None | Some p \<Rightarrow> path_up n c p (ds_name s))))
         | EventRef i \<Rightarrow>
             (case get_event c i of
                None \<Rightarrow> None
              | Some s \<Rightarrow> (case vs_folder s of None \<Rightarrow> None | Some p \<Rightarrow> path_up n c p (vs_name s))))"

section \<open>Well-formed catalogues\<close>

text \<open>
  The skeleton of a catalogue: ids, parents and names of its folders, and its streams of both kinds with
  name and folder.
\<close>

type_synonym skeleton = "(int \<times> int option \<times> string) list \<times> (stream_ref \<times> string \<times> int option) list"

definition folders_of :: "'f catalog \<Rightarrow> (int \<times> int option \<times> string) list" where
  "folders_of c = map (\<lambda>f. (fd_id f, fd_parent f, fd_name f)) (ct_folders c)"

definition streams_of :: "'f catalog \<Rightarrow> (stream_ref \<times> string \<times> int option) list" where
  "streams_of c = map (\<lambda>s. (DataRef (ds_id s), ds_name s, ds_folder s)) (ct_data c)
     @ map (\<lambda>s. (EventRef (vs_id s), vs_name s, vs_folder s)) (ct_events c)"

text \<open>A folder from which the parents lead to a root, with the names on the way down.\<close>

inductive at_path :: "(int \<times> int option \<times> string) list \<Rightarrow> string list \<Rightarrow> int \<Rightarrow> bool" for F where
  top: "(i, None, n) \<in> set F \<Longrightarrow> at_path F [] i"
| below: "at_path F ns p \<Longrightarrow> (i, Some p, n) \<in> set F \<Longrightarrow> at_path F (ns @ [n]) i"

text \<open>
  Ids are unique; there is at most one root; every folder hangs below it; siblings have different names, and
  so have the streams of a folder, data or event; no name is empty or contains a slash; the folder of a
  stream exists.
\<close>

definition tree_ok :: "(int \<times> int option \<times> string) list \<Rightarrow> (stream_ref \<times> string \<times> int option) list \<Rightarrow> bool" where
  "tree_ok F S =
     (distinct (map fst F) \<and> (\<forall>i j x. (i, x) \<in> set F \<longrightarrow> (j, x) \<in> set F \<longrightarrow> i = j)
      \<and> (\<forall>i j m n. (i, None, m) \<in> set F \<longrightarrow> (j, None, n) \<in> set F \<longrightarrow> i = j)
      \<and> (\<forall>i x. (i, x) \<in> set F \<longrightarrow> (\<exists>ns. at_path F ns i)) \<and> (\<forall>i p n. (i, Some p, n) \<in> set F \<longrightarrow> valid_name n)
      \<and> distinct (map fst S) \<and> (\<forall>r s x. (r, x) \<in> set S \<longrightarrow> (s, x) \<in> set S \<longrightarrow> r = s)
      \<and> (\<forall>r n p. (r, n, p) \<in> set S \<longrightarrow> valid_name n)
      \<and> (\<forall>r n p. (r, n, p) \<in> set S \<longrightarrow> (\<exists>i. p = Some i \<and> i \<in> fst ` set F)))"

definition seqs_ok :: "'f catalog \<Rightarrow> bool" where
  "seqs_ok c = ((\<forall>i \<in> fst ` set (folders_of c). i \<le> ct_folder_seq c)
     \<and> (\<forall>i. DataRef i \<in> fst ` set (streams_of c) \<longrightarrow> i \<le> ct_data_seq c)
     \<and> (\<forall>i. EventRef i \<in> fst ` set (streams_of c) \<longrightarrow> i \<le> ct_event_seq c))"

definition catalog_ok :: "'f catalog \<Rightarrow> bool" where
  "catalog_ok c = (tree_ok (folders_of c) (streams_of c) \<and> seqs_ok c)"

section \<open>Facts on well-formed trees\<close>

lemma tree_okD:
  assumes "tree_ok F S"
  shows "distinct (map fst F)" "(i, x) \<in> set F \<Longrightarrow> (j, x) \<in> set F \<Longrightarrow> i = j"
    and "(i, None, m) \<in> set F \<Longrightarrow> (j, None, n) \<in> set F \<Longrightarrow> i = j"
    and "(i, x) \<in> set F \<Longrightarrow> \<exists>ns. at_path F ns i" and "(i, Some q, n) \<in> set F \<Longrightarrow> valid_name n"
    and "distinct (map fst S)" "(r, y) \<in> set S \<Longrightarrow> (s, y) \<in> set S \<Longrightarrow> r = s"
    and "(r, n, p) \<in> set S \<Longrightarrow> valid_name n" and "(r, n, p) \<in> set S \<Longrightarrow> \<exists>i. p = Some i \<and> i \<in> fst ` set F"
  using assms unfolding tree_ok_def by (elim conjE, metis)+

lemma tree_okI:
  assumes "distinct (map fst F)" "\<And>i j x. (i, x) \<in> set F \<Longrightarrow> (j, x) \<in> set F \<Longrightarrow> i = j"
    and "\<And>i j m n. (i, None, m) \<in> set F \<Longrightarrow> (j, None, n) \<in> set F \<Longrightarrow> i = j"
    and "\<And>i x. (i, x) \<in> set F \<Longrightarrow> \<exists>ns. at_path F ns i" and "\<And>i q n. (i, Some q, n) \<in> set F \<Longrightarrow> valid_name n"
    and "distinct (map fst S)" "\<And>r s y. (r, y) \<in> set S \<Longrightarrow> (s, y) \<in> set S \<Longrightarrow> r = s"
    and "\<And>r n p. (r, n, p) \<in> set S \<Longrightarrow> valid_name n"
    and "\<And>r n p. (r, n, p) \<in> set S \<Longrightarrow> \<exists>i. p = Some i \<and> i \<in> fst ` set F"
  shows "tree_ok F S"
  using assms unfolding tree_ok_def by blast

lemma at_path_mem: "at_path F ns i \<Longrightarrow> \<exists>p n. (i, p, n) \<in> set F"
  by (induction rule: at_path.induct) auto

lemma row_unique: "distinct (map fst F) \<Longrightarrow> (i, x) \<in> set F \<Longrightarrow> (i, y) \<in> set F \<Longrightarrow> x = y"
  by (metis eq_key_imp_eq_value)

lemma at_path_unique:
  assumes "distinct (map fst F)" "at_path F ns i" "at_path F ms i"
  shows "ns = ms"
  using assms(2,3)
proof (induction arbitrary: ms rule: at_path.induct)
  case (top i n)
  from top.prems show ?case
  proof cases
    case (below ns p n')
    then show ?thesis using row_unique [OF assms(1)] top.hyps by blast
  qed simp
next
  case (below ns p i n)
  from below.prems show ?case
  proof cases
    case top
    then show ?thesis using row_unique [OF assms(1)] below.hyps(2) by blast
  next
    case (below ns' p' n')
    then have "p' = p" "n' = n" using row_unique [OF assms(1)] \<open>(i, Some p, n) \<in> set F\<close> by blast+
    then show ?thesis using below below.IH by blast
  qed
qed

lemma at_path_prefix: "at_path F ns i \<Longrightarrow> k \<le> length ns \<Longrightarrow> \<exists>j. at_path F (take k ns) j"
proof (induction rule: at_path.induct)
  case (below ns p i n)
  then show ?case by (cases "k = length (ns @ [n])") (auto intro: at_path.below)
qed (auto intro: at_path.top)

lemma at_path_length:
  assumes "distinct (map fst F)" "at_path F ns i"
  shows "length ns < length F"
proof -
  define g where "g k = (SOME j. at_path F (take k ns) j)" for k
  have g: "at_path F (take k ns) (g k)" if "k \<le> length ns" for k
    unfolding g_def using at_path_prefix [OF assms(2) that] by (rule someI_ex)
  have "inj_on g {..length ns}"
  proof (rule inj_onI)
    fix k l
    assume kl: "k \<in> {..length ns}" "l \<in> {..length ns}" "g k = g l"
    then have "take k ns = take l ns" using at_path_unique [OF assms(1)] g by (metis atMost_iff)
    then show "k = l" using kl by (metis atMost_iff length_take min.absorb2)
  qed
  moreover have "g ` {..length ns} \<subseteq> fst ` set F" 
  proof
    fix x
    assume "x \<in> g ` {..length ns}"
    then obtain k where "k \<le> length ns" "x = g k" by auto
    then obtain p n where "(x, p, n) \<in> set F" using at_path_mem [OF g] by blast
    then show "x \<in> fst ` set F" by force
  qed
  ultimately have "card {..length ns} \<le> card (fst ` set F)" by (meson card_inj_on_le finite_imageI finite_set)
  also have "\<dots> \<le> length F" by (metis card_length length_map list.set_map)
  finally show ?thesis by simp
qed

section \<open>Down and up a path\<close>

lemma find_Some_mem: "List.find P xs = Some x \<Longrightarrow> x \<in> set xs \<and> P x"
  by (metis find_Some_iff nth_mem)

lemma find_exists: "x \<in> set xs \<Longrightarrow> P x \<Longrightarrow> \<exists>y. List.find P xs = Some y"
  by (metis find_None_iff option.exhaust)

lemma folders_of_mem: "(i, p, n) \<in> set (folders_of c) \<longleftrightarrow> (\<exists>f \<in> set (ct_folders c). fd_id f = i \<and> fd_parent f = p \<and> fd_name f = n)"
  by (auto simp: folders_of_def)

lemma get_folder_row:
  assumes "distinct (map fst (folders_of c))" "(i, p, n) \<in> set (folders_of c)"
  shows "\<exists>f. get_folder c i = Some f \<and> fd_id f = i \<and> fd_parent f = p \<and> fd_name f = n"
proof -
  from assms(2) obtain f where f: "f \<in> set (ct_folders c)" "fd_id f = i" by (auto simp: folders_of_mem)
  then obtain g where g: "get_folder c i = Some g" "g \<in> set (ct_folders c)" "fd_id g = i"
    unfolding get_folder_def using find_exists [of f "ct_folders c" "\<lambda>f. fd_id f = i"] find_Some_mem by force
  then have "(i, fd_parent g, fd_name g) \<in> set (folders_of c)" by (auto simp: folders_of_mem)
  then show ?thesis using row_unique [OF assms(1)] assms(2) g by blast
qed

fun descend :: "'f catalog \<Rightarrow> int \<Rightarrow> string list \<Rightarrow> int option" where
  "descend c i [] = Some i"
| "descend c i (t # ts) =
     (case List.find (\<lambda>f. fd_name f = t) (children c i) of Some f \<Rightarrow> descend c (fd_id f) ts | None \<Rightarrow> None)"

lemma descend_append:
  "descend c i (xs @ ys) = (case descend c i xs of Some j \<Rightarrow> descend c j ys | None \<Rightarrow> None)"
  by (induction xs arbitrary: i) (auto split: option.splits)

lemma find_stream_descend:
  "find_stream_by_segments c i (hd (ns @ [s])) (tl (ns @ [s])) =
   (case descend c i ns of Some j \<Rightarrow> stream_in_folder c j s | None \<Rightarrow> None)"
proof (induction ns arbitrary: i)
  case (Cons n ns)
  then show ?case by (cases ns) (auto split: option.splits)
qed simp

lemma descend_child:
  assumes "tree_ok (folders_of c) S" "(i, Some p, n) \<in> set (folders_of c)"
  shows "descend c p [n] = Some i"
proof -
  obtain f where f: "f \<in> set (children c p)" "fd_id f = i" "fd_name f = n"
    using assms(2) by (auto simp: folders_of_mem children_def)
  then obtain g where g: "List.find (\<lambda>f. fd_name f = n) (children c p) = Some g" "g \<in> set (children c p)" "fd_name g = n"
    using find_exists [of f "children c p" "\<lambda>f. fd_name f = n"] find_Some_mem by force
  then have "(fd_id g, Some p, n) \<in> set (folders_of c)" by (auto simp: folders_of_mem children_def)
  then have "fd_id g = i"
    by (rule tree_okD(2) [OF assms(1) _ assms(2)])
  then show ?thesis using g by simp
qed

lemma distinct_singleton: "distinct (map g xs) \<Longrightarrow> (\<And>x. x \<in> set xs \<Longrightarrow> g x = r) \<Longrightarrow> y \<in> set xs \<Longrightarrow> xs = [y]"
  by (cases xs; cases "tl xs") auto

lemma root_of:
  assumes "tree_ok (folders_of c) S" "(r, None, n) \<in> set (folders_of c)"
  shows "root now c = (Inr r, c)"
proof -
  let ?T = "filter (\<lambda>f. fd_parent f = None) (ct_folders c)"
  obtain f where f: "f \<in> set ?T" "fd_id f = r" using assms(2) by (auto simp: folders_of_mem)
  have d: "distinct (map fd_id ?T)"
    using tree_okD(1) [OF assms(1)] by (simp add: folders_of_def distinct_map_filter comp_def)
  have r: "fd_id g = r" if "g \<in> set ?T" for g
    by (rule tree_okD(3) [OF assms(1) _ assms(2)]) (use that in \<open>auto simp: folders_of_mem\<close>)
  have "?T = [f]" by (rule distinct_singleton [OF d r f(1)])
  then show ?thesis using f by (simp add: root_def)
qed

lemma at_path_descend:
  assumes "at_path (folders_of c) ns i" "tree_ok (folders_of c) S"
  shows "\<exists>r n. (r, None, n) \<in> set (folders_of c) \<and> descend c r ns = Some i"
  using assms(1)
proof (induction rule: at_path.induct)
  case (below ns p i n)
  then show ?case using descend_child [OF assms(2) below.hyps(2)] by (auto simp: descend_append)
qed auto

lemma py_join_last: "py_join sep (ns @ [m @ sep @ x]) = py_join sep (ns @ [m, x])"
proof (induction ns)
  case (Cons n ns)
  then show ?case by (cases ns) auto
qed simp

lemma path_up_at_path:
  assumes "distinct (map fst (folders_of c))" "at_path (folders_of c) ns i" "length ns < n"
  shows "path_up n c i path = Some (CHR ''/'' # py_join ''/'' (ns @ [path]))"
  using assms(2,3)
proof (induction arbitrary: n path rule: at_path.induct)
  case (top i m)
  then obtain n' where "n = Suc n'" by (cases n) auto
  then show ?case using get_folder_row [OF assms(1) top.hyps] by auto
next
  case (below ns p i m)
  then obtain n' where n: "n = Suc n'" "length ns < n'" by (cases n) auto
  have "py_join ''/'' (ns @ [m @ CHR ''/'' # path]) = py_join ''/'' ((ns @ [m]) @ [path])"
    using py_join_last [of "''/''" ns m path] by simp
  then show ?case using get_folder_row [OF assms(1) below.hyps(2)] n below.IH [OF n(2)] by auto
qed

section \<open>Paths of streams\<close>

definition local_streams :: "'f catalog \<Rightarrow> bool" where
  "local_streams c = (\<forall>s \<in> set (ct_data c). ds_remote s = None)"

lemma data_row:
  assumes "tree_ok F (streams_of c)" "(DataRef i, n, p) \<in> set (streams_of c)"
  shows "\<exists>s. get_data c i = Some s \<and> s \<in> set (ct_data c) \<and> ds_id s = i \<and> ds_name s = n \<and> ds_folder s = p"
proof -
  obtain s where s: "s \<in> set (ct_data c)" "ds_id s = i" using assms(2) by (auto simp: streams_of_def)
  then obtain g where g: "get_data c i = Some g" "g \<in> set (ct_data c)" "ds_id g = i"
    unfolding get_data_def using find_exists [of s "ct_data c" "\<lambda>s. ds_id s = i"] find_Some_mem by force
  then have "(DataRef i, ds_name g, ds_folder g) \<in> set (streams_of c)" by (auto simp: streams_of_def)
  then show ?thesis using row_unique [OF tree_okD(6) [OF assms(1)]] assms(2) g by blast
qed

lemma event_row':
  assumes "tree_ok F (streams_of c)" "(EventRef i, n, p) \<in> set (streams_of c)"
  shows "\<exists>s. get_event c i = Some s \<and> s \<in> set (ct_events c) \<and> vs_id s = i \<and> vs_name s = n \<and> vs_folder s = p"
proof -
  obtain s where s: "s \<in> set (ct_events c)" "vs_id s = i" using assms(2) by (auto simp: streams_of_def)
  then obtain g where g: "get_event c i = Some g" "g \<in> set (ct_events c)" "vs_id g = i"
    unfolding get_event_def using find_exists [of s "ct_events c" "\<lambda>s. vs_id s = i"] find_Some_mem by force
  then have "(EventRef i, vs_name g, vs_folder g) \<in> set (streams_of c)" by (auto simp: streams_of_def)
  then show ?thesis using row_unique [OF tree_okD(6) [OF assms(1)]] assms(2) g by blast
qed

lemma stream_in_folder_iff:
  assumes "tree_ok F (streams_of c)"
  shows "stream_in_folder c i name = Some r \<longleftrightarrow> (r, name, Some i) \<in> set (streams_of c)"
proof
  assume "stream_in_folder c i name = Some r"
  then show "(r, name, Some i) \<in> set (streams_of c)"
    by (auto simp: stream_in_folder_def streams_of_def data_in_def events_in_def
        split: option.splits dest!: find_Some_mem)
next
  assume r: "(r, name, Some i) \<in> set (streams_of c)"
  have u: "r' = r" if "(r', name, Some i) \<in> set (streams_of c)" for r'
    by (rule tree_okD(7) [OF assms that r])
  have d: "r = DataRef (ds_id s)" if "List.find (\<lambda>s. ds_name s = name) (data_in c i) = Some s" for s
    by (rule u [symmetric]) (use find_Some_mem [OF that] in \<open>auto simp: streams_of_def data_in_def\<close>)
  have e: "r = EventRef (vs_id s)" if "List.find (\<lambda>s. vs_name s = name) (events_in c i) = Some s" for s
    by (rule u [symmetric]) (use find_Some_mem [OF that] in \<open>auto simp: streams_of_def events_in_def\<close>)
  have "\<not> (List.find (\<lambda>s. ds_name s = name) (data_in c i) = None \<and> List.find (\<lambda>s. vs_name s = name) (events_in c i) = None)"
    using r by (auto simp: find_None_iff streams_of_def data_in_def events_in_def)
  then show "stream_in_folder c i name = Some r"
    using d e by (auto simp: stream_in_folder_def split: option.split)
qed

lemma at_path_names: "tree_ok F S \<Longrightarrow> at_path F ns i \<Longrightarrow> n \<in> set ns \<Longrightarrow> valid_name n"
  by (rotate_tac, induction rule: at_path.induct) (auto dest: tree_okD(5))

text \<open>
  C27.  In a well-formed catalogue every local stream has a path, and looking the path up gives the stream
  back: the names on the path are split again where they were joined, and no other folder or stream, of
  either kind, answers to them.  The lookup does not change the catalogue.
\<close>

theorem stream_path_round_trip:
  assumes "catalog_ok c" "local_streams c" "(r, name, Some i) \<in> set (streams_of c)" "is_kind k r"
  shows "\<exists>ns. at_path (folders_of c) ns i \<and> get_stream_path c r = Some (CHR ''/'' # py_join ''/'' (ns @ [name]))
     \<and> find_stream_by_path now k (CHR ''/'' # py_join ''/'' (ns @ [name])) c = (Inr (Some r), c)"
proof -
  have ok: "tree_ok (folders_of c) (streams_of c)" using assms(1) by (simp add: catalog_ok_def)
  obtain ns where ns: "at_path (folders_of c) ns i"
    using tree_okD(4,9) [OF ok] assms(3) by fastforce
  have len: "length ns < length (ct_folders c)"
    using at_path_length [OF tree_okD(1) [OF ok] ns] by (simp add: folders_of_def)
  note up = path_up_at_path [OF tree_okD(1) [OF ok] ns len, of name]
  have path: "get_stream_path c r = Some (CHR ''/'' # py_join ''/'' (ns @ [name]))"
  proof (cases r)
    case (DataRef j)
    then obtain s where "get_data c j = Some s" "s \<in> set (ct_data c)" "ds_name s = name" "ds_folder s = Some i"
      using data_row [OF ok] assms(3) by blast
    then show ?thesis using DataRef up assms(2) by (auto simp: get_stream_path_def local_streams_def)
  next
    case (EventRef j)
    then obtain s where "get_event c j = Some s" "vs_name s = name" "vs_folder s = Some i"
      using event_row' [OF ok] assms(3) by blast
    then show ?thesis using EventRef up by (auto simp: get_stream_path_def)
  qed
  have "valid_name w" if "w \<in> set (ns @ [name])" for w
    using that at_path_names [OF ok ns] tree_okD(8) [OF ok assms(3)] by auto
  then have split: "py_split (CHR ''/'') (py_join ''/'' (ns @ [name])) = ns @ [name]"
    by (intro py_split_join) (auto simp: valid_name_def)
  obtain rt n where rt: "(rt, None, n) \<in> set (folders_of c)" "descend c rt ns = Some i"
    using at_path_descend [OF ns ok] by blast
  have "find_stream_by_path now k (CHR ''/'' # py_join ''/'' (ns @ [name])) c = (Inr (Some r), c)"
    using root_of [OF ok rt(1)] rt(2) find_stream_descend [of c rt ns name] assms(4)
      stream_in_folder_iff [OF ok, of i name r] assms(3)
    by (simp add: find_stream_by_path_def seqA_def split)
  then show ?thesis using ns path by blast
qed

definition demo_catalog :: "int catalog" where
  "demo_catalog = \<lparr>ct_folders = [\<lparr>fd_id = 1, fd_name = ''root'', fd_description = None, fd_parent = None, fd_updated = 0\<rparr>,
       \<lparr>fd_id = 2, fd_name = ''a'', fd_description = None, fd_parent = Some 1, fd_updated = 0\<rparr>],
     ct_data = [demo_stream], ct_events = [], ct_folder_seq = 2, ct_data_seq = 1, ct_event_seq = 0\<rparr>"

lemma demo_catalog_folders: "folders_of demo_catalog = [(1, None, ''root''), (2, Some 1, ''a'')]"
  "streams_of demo_catalog = [(DataRef 1, ''s'', Some 2)]"
  by (simp_all add: demo_catalog_def folders_of_def streams_of_def demo_stream_def)

lemma demo_paths: "at_path [(1, None, ''root''), (2, Some 1, ''a'')] [] 1"
  "at_path [(1, None, ''root''), (2, Some 1, ''a'')] [''a''] 2"
proof -
  show t: "at_path [(1, None, ''root''), (2, Some 1, ''a'')] [] 1" by (rule at_path.top [where n = "''root''"]) simp
  show "at_path [(1, None, ''root''), (2, Some 1, ''a'')] [''a''] 2"
    using at_path.below [OF t, of 2 "''a''"] by simp
qed

lemma demo_catalog_ok: "catalog_ok demo_catalog" "local_streams demo_catalog"
proof -
  have "tree_ok [(1, None, ''root''), (2, Some 1, ''a'')] [(DataRef 1, ''s'', Some 2)]"
    by (rule tree_okI) (use demo_paths in \<open>auto simp: valid_name_def\<close>)
  then show "catalog_ok demo_catalog"
    by (simp add: catalog_ok_def seqs_ok_def demo_catalog_folders) (simp add: demo_catalog_def)
  show "local_streams demo_catalog" by (simp add: local_streams_def demo_catalog_def demo_stream_def)
qed

lemma stream_path_round_trip_witness:
  "get_stream_path demo_catalog (DataRef 1) = Some ''/a/s''
   \<and> find_stream_by_path 0 DataKind ''/a/s'' demo_catalog = (Inr (Some (DataRef 1)), demo_catalog)"
proof -
  obtain ns where ns: "at_path (folders_of demo_catalog) ns 2"
    "get_stream_path demo_catalog (DataRef 1) = Some (CHR ''/'' # py_join ''/'' (ns @ [''s'']))"
    "find_stream_by_path 0 DataKind (CHR ''/'' # py_join ''/'' (ns @ [''s''])) demo_catalog = (Inr (Some (DataRef 1)), demo_catalog)"
    using stream_path_round_trip [OF demo_catalog_ok, of "DataRef 1" "''s''" 2 DataKind 0]
    by (auto simp: demo_catalog_folders is_kind_def)
  have "ns = [''a'']"
    by (rule at_path_unique [OF _ ns(1)]) (use demo_paths(2) in \<open>simp_all add: demo_catalog_folders\<close>)
  then show ?thesis using ns(2,3) by simp
qed

end
