(* ===== verification/Catalogue_Tree.thy ===== *)
theory Catalogue_Tree
  imports Catalogue
begin

text \<open>
  Changes of a catalogue that keep it well-formed: on the skeleton, and then for the updates of
  \<open>Catalogue\<close> that the handlers are made of.
\<close>

text \<open>The row with a key replaced.\<close>

definition put_row :: "'k \<Rightarrow> 'v \<Rightarrow> ('k \<times> 'v) list \<Rightarrow> ('k \<times> 'v) list" where
  "put_row k v = map (\<lambda>x. (fst x, if fst x = k then v else snd x))"

lemma put_row_fst [simp]: "map fst (put_row k v xs) = map fst xs"
  by (simp add: put_row_def comp_def)

lemma put_row_keys [simp]: "fst ` set (put_row k v xs) = fst ` set xs"
  by (metis list.set_map put_row_fst)

lemma put_row_mem:
  "(j, x) \<in> set (put_row k v xs) \<longleftrightarrow> (if j = k then x = v \<and> k \<in> fst ` set xs else (j, x) \<in> set xs)"
  by (force simp: put_row_def image_iff)

section \<open>Streams\<close>

lemma tree_add_stream:
  assumes "tree_ok F S" "r \<notin> fst ` set S" "\<And>s. (s, n, Some d) \<notin> set S" "valid_name n" "d \<in> fst ` set F"
  shows "tree_ok F (S @ [(r, n, Some d)])"
  by (rule tree_okI) (use assms tree_okD [OF assms(1)] in \<open>auto simp: image_iff\<close>)

lemma tree_streams_cong:
  assumes "tree_ok F S" "set S = set S'" "length S = length S'"
  shows "tree_ok F S'"
proof -
  have "distinct (map fst S')"
    using tree_okD(6) [OF assms(1)] assms(2,3) by (metis card_distinct distinct_card length_map list.set_map)
  then show ?thesis using tree_okD [OF assms(1)] assms(2) by (intro tree_okI) auto
qed

lemma tree_update_stream:
  assumes "tree_ok F S" "valid_name n" "d \<in> fst ` set F" "\<And>s. s \<noteq> r \<Longrightarrow> (s, n, Some d) \<notin> set S"
  shows "tree_ok F (put_row r (n, Some d) S)"
proof (rule tree_okI)
  fix r1 r2 y
  assume "(r1, y) \<in> set (put_row r (n, Some d) S)" "(r2, y) \<in> set (put_row r (n, Some d) S)"
  then show "r1 = r2" using assms(4) tree_okD(7) [OF assms(1)] by (auto simp: put_row_mem split: if_splits)
next
  fix r1 m p
  assume "(r1, m, p) \<in> set (put_row r (n, Some d) S)"
  then show "valid_name m" "\<exists>i. p = Some i \<and> i \<in> fst ` set F"
    using assms(2,3) tree_okD(8,9) [OF assms(1)] by (auto simp: put_row_mem split: if_splits)
qed (use tree_okD [OF assms(1)] in auto)

lemma tree_filter_streams: "tree_ok F S \<Longrightarrow> tree_ok F (filter P S)"
  by (rule tree_okI) (auto dest: tree_okD intro: distinct_map_filter)

section \<open>Folders\<close>

lemma at_path_mono: "at_path F ns i \<Longrightarrow> set F \<subseteq> set G \<Longrightarrow> at_path G ns i"
  by (induction rule: at_path.induct) (auto intro: at_path.intros)

lemma at_path_anchor: "tree_ok F S \<Longrightarrow> p \<in> fst ` set F \<Longrightarrow> \<exists>ns. at_path F ns p"
  using tree_okD(4) by fastforce

lemma at_path_root: "at_path F ns i \<Longrightarrow> \<exists>r n. (r, None, n) \<in> set F"
  by (induction rule: at_path.induct) auto

lemma tree_parent: "tree_ok F S \<Longrightarrow> (i, Some p, n) \<in> set F \<Longrightarrow> p \<in> fst ` set F"
proof -
  assume ok: "tree_ok F S" and i: "(i, Some p, n) \<in> set F"
  obtain ns where "at_path F ns i" using tree_okD(4) [OF ok i] by blast
  then show "p \<in> fst ` set F"
  proof cases
    case (below ms q m)
    then have "q = p" using row_unique [OF tree_okD(1) [OF ok]] i by blast
    then show ?thesis using at_path_mem [OF below(2)] by force
  next
    case (top m)
    then show ?thesis using row_unique [OF tree_okD(1) [OF ok]] i by blast
  qed
qed

lemma tree_add_folder:
  assumes "tree_ok F S" "i \<notin> fst ` set F" "p \<in> fst ` set F" "valid_name n" "\<And>j. (j, Some p, n) \<notin> set F"
  shows "tree_ok (F @ [(i, Some p, n)]) S"
proof -
  let ?G = "F @ [(i, Some p, n)]"
  have old: "\<exists>ns. at_path ?G ns j" if "at_path F ms j" for j ms
    using at_path_mono [OF that, of ?G] by auto
  obtain ns where "at_path F ns p" using at_path_anchor [OF assms(1,3)] by blast
  then have new: "at_path ?G (ns @ [n]) i"
    using at_path_mono [of F ns p ?G] at_path.below [of ?G ns p i n] by auto
  show ?thesis
  proof (rule tree_okI)
    fix j x
    assume "(j, x) \<in> set ?G"
    then show "\<exists>ns. at_path ?G ns j" using new old tree_okD(4) [OF assms(1), of j x] by auto
  next
    fix r m q
    assume "(r, m, q) \<in> set S"
    then show "\<exists>k. q = Some k \<and> k \<in> fst ` set ?G" using tree_okD(9) [OF assms(1)] by fastforce
  qed (use assms tree_okD [OF assms(1)] in \<open>auto simp: image_iff\<close>)
qed

lemma tree_no_root: "tree_ok F S \<Longrightarrow> (\<And>i n. (i, None, n) \<notin> set F) \<Longrightarrow> F = [] \<and> S = []"
proof -
  assume ok: "tree_ok F S" and none: "\<And>i n. (i, None, n) \<notin> set F"
  have F: "F = []"
  proof (rule ccontr)
    assume "F \<noteq> []"
    then obtain i x where "(i, x) \<in> set F" by (cases F) auto
    then show False using tree_okD(4) [OF ok] at_path_root none by blast
  qed
  moreover have "S = []"
  proof (rule ccontr)
    assume "S \<noteq> []"
    then obtain r n p where "(r, n, p) \<in> set S" by (cases S) auto
    then show False using tree_okD(9) [OF ok] F by fastforce
  qed
  ultimately show ?thesis ..
qed

lemma tree_add_root: "tree_ok [(i, None, n)] []"
proof (rule tree_okI)
  fix j x
  assume "(j, x) \<in> set [(i, None, n)]"
  then show "\<exists>ns. at_path [(i, None, n)] ns j" using at_path.top [of i n "[(i, None, n)]"] by auto
qed auto

text \<open>Renaming and moving a folder.  The way up from the destination must not pass the folder.\<close>

lemma tree_change_folder:
  assumes "tree_ok F S" "(i, Some q, m) \<in> set F" "valid_name n" "\<And>j. j \<noteq> i \<Longrightarrow> (j, Some p, n) \<notin> set F"
    and "\<exists>ns. at_path (put_row i (Some p, n) F) ns p"
  shows "tree_ok (put_row i (Some p, n) F) S"
proof -
  let ?G = "put_row i (Some p, n) F"
  have "i \<in> fst ` set F" using assms(2) by force
  then have mem: "(j, x) \<in> set ?G \<longleftrightarrow> (if j = i then x = (Some p, n) else (j, x) \<in> set F)" for j x
    by (simp add: put_row_mem)
  have i: "\<exists>ns. at_path ?G ns i" using assms(5) at_path.below [of ?G _ p i n] mem by auto
  have old: "\<exists>ms. at_path ?G ms j" if "at_path F ns j" for ns j
    using that
  proof (induction rule: at_path.induct)
    case (top j m')
    then show ?case using i at_path.top [of j m' ?G] mem by (cases "j = i") auto
  next
    case (below ns k j m')
    then show ?case using i at_path.below [of ?G _ k j m'] mem by (cases "j = i") auto
  qed
  show ?thesis
  proof (rule tree_okI)
    fix j k m n
    assume "(j, None, m) \<in> set ?G" "(k, None, n) \<in> set ?G"
    then show "j = k" using tree_okD(3) [OF assms(1)] mem by (auto split: if_splits)
  next
    fix j k x
    assume "(j, x) \<in> set ?G" "(k, x) \<in> set ?G"
    then show "j = k" using tree_okD(2) [OF assms(1)] assms(4) unfolding mem by (auto split: if_splits)
  next
    fix j x
    assume "(j, x) \<in> set ?G"
    then show "\<exists>ns. at_path ?G ns j" using i old tree_okD(4) [OF assms(1), of j x] unfolding mem by (auto split: if_splits)
  next
    fix j q' m'
    assume "(j, Some q', m') \<in> set ?G"
    then show "valid_name m'" using assms(3) tree_okD(5) [OF assms(1)] unfolding mem by (auto split: if_splits)
  qed (use tree_okD [OF assms(1)] in auto)
qed

lemma tree_remove_folder:
  assumes "tree_ok F S" "\<And>j n. (j, Some i, n) \<notin> set F" "\<And>r n. (r, n, Some i) \<notin> set S"
  shows "tree_ok (filter (\<lambda>x. fst x \<noteq> i) F) S"
proof -
  let ?G = "filter (\<lambda>x. fst x \<noteq> i) F"
  have old: "j \<noteq> i \<longrightarrow> at_path ?G ns j" if "at_path F ns j" for ns j
    using that
  proof (induction rule: at_path.induct)
    case (below ns p j n)
    then show ?case using assms(2) [of j n] by (cases "p = i") (auto intro: at_path.below)
  qed (auto intro: at_path.top)
  have "\<exists>k. p = Some k \<and> k \<in> fst ` set ?G" if "(r, n, p) \<in> set S" for r n p
    using tree_okD(9) [OF assms(1) that] assms(3) that by fastforce
  moreover have "\<exists>ns. at_path ?G ns j" if "(j, x) \<in> set ?G" for j x
    using old tree_okD(4) [OF assms(1), of j x] that by auto
  ultimately show ?thesis
    by (intro tree_okI) (use tree_okD [OF assms(1)] in \<open>auto intro: distinct_map_filter\<close>)
qed

section \<open>The skeleton after an update\<close>

lemma folders_of_simps [simp]:
  "folders_of (update_data i g c) = folders_of c" "folders_of (update_event i h c) = folders_of c"
  by (simp_all add: folders_of_def update_data_def update_event_def)

lemma streams_of_update_folder [simp]: "streams_of (update_folder i g c) = streams_of c"
  by (simp add: streams_of_def update_folder_def)

lemma update_fields [simp]:
  "ct_folder_seq (update_folder i g c) = ct_folder_seq c" "ct_data_seq (update_folder i g c) = ct_data_seq c"
  "ct_event_seq (update_folder i g c) = ct_event_seq c" "ct_data (update_folder i g c) = ct_data c"
  "ct_events (update_folder i g c) = ct_events c"
  "ct_folder_seq (update_data i h c) = ct_folder_seq c" "ct_data_seq (update_data i h c) = ct_data_seq c"
  "ct_event_seq (update_data i h c) = ct_event_seq c" "ct_folders (update_data i h c) = ct_folders c"
  "ct_events (update_data i h c) = ct_events c"
  "ct_folder_seq (update_event i k c) = ct_folder_seq c" "ct_data_seq (update_event i k c) = ct_data_seq c"
  "ct_event_seq (update_event i k c) = ct_event_seq c" "ct_folders (update_event i k c) = ct_folders c"
  "ct_data (update_event i k c) = ct_data c"
  by (simp_all add: update_folder_def update_data_def update_event_def)

text \<open>Touching changes times only.\<close>

lemma update_folder_skeleton:
  "(\<And>f. fd_id (g f) = fd_id f \<and> fd_parent (g f) = fd_parent f \<and> fd_name (g f) = fd_name f) \<Longrightarrow>
   folders_of (update_folder i g c) = folders_of c"
  by (simp add: folders_of_def update_folder_def)

lemma touch_up_skeleton [simp]:
  "folders_of (touch_up n now i c) = folders_of c" "streams_of (touch_up n now i c) = streams_of c"
  "ct_data (touch_up n now i c) = ct_data c" "ct_events (touch_up n now i c) = ct_events c"
  "seqs_ok (touch_up n now i c) = seqs_ok c"
proof (induction n now i c rule: touch_up.induct)
  case (2 n now i c)
  let ?c = "update_folder i (\<lambda>f. f\<lparr>fd_updated := now\<rparr>) c"
  have f: "folders_of ?c = folders_of c" by (rule update_folder_skeleton) simp
  then have u: "folders_of ?c = folders_of c" "seqs_ok ?c = seqs_ok c" "ct_data ?c = ct_data c" "ct_events ?c = ct_events c"
    by (simp_all add: seqs_ok_def)
  {
    case 1 show ?case using 2(1) u by (simp add: Let_def split: option.split)
  next
    case 2 show ?case using "2.IH"(2) by (simp add: Let_def split: option.split)
  next
    case 3 show ?case using "2.IH"(3) u by (simp add: Let_def split: option.split)
  next
    case 4 show ?case using "2.IH"(4) u by (simp add: Let_def split: option.split)
  next
    case 5 show ?case using "2.IH"(5) u by (simp add: Let_def split: option.split)
  }
qed simp_all

lemma touch_folder_skeleton [simp]:
  "folders_of (touch_folder now i c) = folders_of c" "streams_of (touch_folder now i c) = streams_of c"
  "ct_data (touch_folder now i c) = ct_data c" "ct_events (touch_folder now i c) = ct_events c"
  "seqs_ok (touch_folder now i c) = seqs_ok c" "catalog_ok (touch_folder now i c) = catalog_ok c"
  by (simp_all add: touch_folder_def catalog_ok_def)

lemma touch_up_seqs [simp]:
  "ct_folder_seq (touch_up n now i c) = ct_folder_seq c" "ct_data_seq (touch_up n now i c) = ct_data_seq c"
  "ct_event_seq (touch_up n now i c) = ct_event_seq c"
  by (induction n now i c rule: touch_up.induct) (simp_all add: Let_def split: option.split)

lemma touch_folder_seqs [simp]:
  "ct_folder_seq (touch_folder now i c) = ct_folder_seq c" "ct_data_seq (touch_folder now i c) = ct_data_seq c"
  "ct_event_seq (touch_folder now i c) = ct_event_seq c"
  by (simp_all add: touch_folder_def)

lemma update_data_same:
  "(\<And>s. ds_id (g s) = ds_id s \<and> ds_name (g s) = ds_name s \<and> ds_folder (g s) = ds_folder s) \<Longrightarrow>
   streams_of (update_data i g c) = streams_of c"
  by (simp add: streams_of_def update_data_def)

lemma update_event_same:
  "(\<And>s. vs_id (g s) = vs_id s \<and> vs_name (g s) = vs_name s \<and> vs_folder (g s) = vs_folder s) \<Longrightarrow>
   streams_of (update_event i g c) = streams_of c"
  by (simp add: streams_of_def update_event_def)

lemma touch_data_skeleton [simp]:
  "folders_of (touch_data now i c) = folders_of c" "streams_of (touch_data now i c) = streams_of c"
  "catalog_ok (touch_data now i c) = catalog_ok c"
proof -
  let ?c = "update_data i (\<lambda>s. s\<lparr>ds_updated := now\<rparr>) c"
  have u: "streams_of ?c = streams_of c" by (rule update_data_same) simp
  then have "catalog_ok ?c = catalog_ok c" by (simp add: catalog_ok_def seqs_ok_def)
  then show "folders_of (touch_data now i c) = folders_of c" "streams_of (touch_data now i c) = streams_of c"
    "catalog_ok (touch_data now i c) = catalog_ok c"
    using u by (simp_all add: touch_data_def Let_def split: option.split)
qed

lemma touch_event_skeleton [simp]:
  "folders_of (touch_event now i c) = folders_of c" "streams_of (touch_event now i c) = streams_of c"
  "catalog_ok (touch_event now i c) = catalog_ok c"
proof -
  let ?c = "update_event i (\<lambda>s. s\<lparr>vs_updated := now\<rparr>) c"
  have u: "streams_of ?c = streams_of c" by (rule update_event_same) simp
  then have "catalog_ok ?c = catalog_ok c" by (simp add: catalog_ok_def seqs_ok_def)
  then show "folders_of (touch_event now i c) = folders_of c" "streams_of (touch_event now i c) = streams_of c"
    "catalog_ok (touch_event now i c) = catalog_ok c"
    using u by (simp_all add: touch_event_def Let_def split: option.split)
qed

lemma catalog_okD: "catalog_ok c \<Longrightarrow> tree_ok (folders_of c) (streams_of c)" "catalog_ok c \<Longrightarrow> seqs_ok c"
  by (simp_all add: catalog_ok_def)

lemma distinct_data_ids: "catalog_ok c \<Longrightarrow> distinct (map ds_id (ct_data c))"
proof -
  assume "catalog_ok c"
  then have "distinct (map fst (streams_of c))" by (rule tree_okD(6) [OF catalog_okD(1)])
  then have "distinct (map DataRef (map ds_id (ct_data c)))" by (simp add: streams_of_def comp_def)
  then show ?thesis by (simp only: distinct_map)
qed

lemma distinct_event_ids: "catalog_ok c \<Longrightarrow> distinct (map vs_id (ct_events c))"
proof -
  assume "catalog_ok c"
  then have "distinct (map fst (streams_of c))" by (rule tree_okD(6) [OF catalog_okD(1)])
  then have "distinct (map EventRef (map vs_id (ct_events c)))" by (simp add: streams_of_def comp_def)
  then show ?thesis by (simp only: distinct_map)
qed

lemma same_id: "distinct (map f xs) \<Longrightarrow> x \<in> set xs \<Longrightarrow> y \<in> set xs \<Longrightarrow> f x = f y \<Longrightarrow> x = y"
  by (simp add: distinct_map inj_on_def)

lemma get_dataD: "get_data c i = Some s \<Longrightarrow> s \<in> set (ct_data c) \<and> ds_id s = i"
  unfolding get_data_def by (drule find_Some_mem)

lemma get_eventD: "get_event c i = Some s \<Longrightarrow> s \<in> set (ct_events c) \<and> vs_id s = i"
  unfolding get_event_def by (drule find_Some_mem)

lemma get_folderD: "get_folder c i = Some f \<Longrightarrow> f \<in> set (ct_folders c) \<and> fd_id f = i"
  unfolding get_folder_def by (drule find_Some_mem)

lemma get_folder_mem: "get_folder c i = Some f \<Longrightarrow> (i, fd_parent f, fd_name f) \<in> set (folders_of c)"
  by (drule get_folderD) (auto simp: folders_of_mem)

lemma get_folder_ids: "get_folder c i \<noteq> None \<longleftrightarrow> i \<in> fst ` set (folders_of c)"
  by (force simp: get_folder_def find_None_iff folders_of_def image_image)

lemma streams_update_data:
  assumes "catalog_ok c" "get_data c i = Some s" "ds_id (g s) = i"
  shows "streams_of (update_data i g c) = put_row (DataRef i) (ds_name (g s), ds_folder (g s)) (streams_of c)"
proof -
  have "x = s" if "x \<in> set (ct_data c)" "ds_id x = i" for x
    using same_id [OF distinct_data_ids [OF assms(1)]] that get_dataD [OF assms(2)] by metis
  then show ?thesis using assms(3) by (auto simp: streams_of_def update_data_def put_row_def)
qed

lemma streams_update_event:
  assumes "catalog_ok c" "get_event c i = Some s" "vs_id (g s) = i"
  shows "streams_of (update_event i g c) = put_row (EventRef i) (vs_name (g s), vs_folder (g s)) (streams_of c)"
proof -
  have "x = s" if "x \<in> set (ct_events c)" "vs_id x = i" for x
    using same_id [OF distinct_event_ids [OF assms(1)]] that get_eventD [OF assms(2)] by metis
  then show ?thesis using assms(3) by (auto simp: streams_of_def update_event_def put_row_def)
qed

lemma folders_update_folder:
  assumes "catalog_ok c" "get_folder c i = Some f" "fd_id (g f) = i"
  shows "folders_of (update_folder i g c) = put_row i (fd_parent (g f), fd_name (g f)) (folders_of c)"
proof -
  have "distinct (map fd_id (ct_folders c))"
    using tree_okD(1) [OF catalog_okD(1) [OF assms(1)]] by (simp add: folders_of_def comp_def)
  then have "x = f" if "x \<in> set (ct_folders c)" "fd_id x = i" for x
    using same_id that get_folderD [OF assms(2)] by metis
  then show ?thesis using assms(3) by (auto simp: folders_of_def update_folder_def put_row_def)
qed

lemma stream_names_mem: "n \<in> set (stream_names c d) \<longleftrightarrow> (\<exists>r. (r, n, Some d) \<in> set (streams_of c))"
  by (force simp: stream_names_def data_in_def events_in_def streams_of_def)

lemma update_data_ok:
  assumes "catalog_ok c" "get_data c i = Some s" "ds_id (g s) = i" "ds_folder (g s) = Some d" "valid_name (ds_name (g s))"
    and "d \<in> fst ` set (folders_of c)" "\<And>r. r \<noteq> DataRef i \<Longrightarrow> (r, ds_name (g s), Some d) \<notin> set (streams_of c)"
  shows "catalog_ok (update_data i g c)"
  using tree_update_stream [OF catalog_okD(1) [OF assms(1)] assms(5,6), of "DataRef i"] assms(4,7)
    streams_update_data [OF assms(1,2), of g, OF assms(3)] catalog_okD(2) [OF assms(1)]
  by (simp add: catalog_ok_def seqs_ok_def)

lemma update_event_ok:
  assumes "catalog_ok c" "get_event c i = Some s" "vs_id (g s) = i" "vs_folder (g s) = Some d" "valid_name (vs_name (g s))"
    and "d \<in> fst ` set (folders_of c)" "\<And>r. r \<noteq> EventRef i \<Longrightarrow> (r, vs_name (g s), Some d) \<notin> set (streams_of c)"
  shows "catalog_ok (update_event i g c)"
  using tree_update_stream [OF catalog_okD(1) [OF assms(1)] assms(5,6), of "EventRef i"] assms(4,7)
    streams_update_event [OF assms(1,2), of g, OF assms(3)] catalog_okD(2) [OF assms(1)]
  by (simp add: catalog_ok_def seqs_ok_def)

lemma new_folder_ok:
  assumes "catalog_ok c" "p \<in> fst ` set (folders_of c)" "valid_name n" "\<And>j. (j, Some p, n) \<notin> set (folders_of c)"
    "new_folder now (Some p) n c = (i, c')"
  shows "catalog_ok c'" "folders_of c' = folders_of c @ [(i, Some p, n)]" "ct_data c' = ct_data c" "ct_events c' = ct_events c"
proof -
  have i: "i = ct_folder_seq c + 1"
    and c': "c' = c\<lparr>ct_folders := ct_folders c @ [\<lparr>fd_id = i, fd_name = n, fd_description = None,
                 fd_parent = Some p, fd_updated = now\<rparr>], ct_folder_seq := i\<rparr>"
    using assms(5) by (auto simp: new_folder_def Let_def)
  show f: "folders_of c' = folders_of c @ [(i, Some p, n)]" and d: "ct_data c' = ct_data c" "ct_events c' = ct_events c"
    by (simp_all add: c' folders_of_def)
  have s: "streams_of c' = streams_of c" using d by (simp add: streams_of_def)
  have seq: "j \<le> ct_folder_seq c" if "j \<in> fst ` set (folders_of c)" for j
    using catalog_okD(2) [OF assms(1)] that by (auto simp: seqs_ok_def)
  then have "i \<notin> fst ` set (folders_of c)" using i by force
  then have "tree_ok (folders_of c') (streams_of c')"
    unfolding f s by (intro tree_add_folder catalog_okD(1) [OF assms(1)] assms(2-4))
  moreover have "\<forall>j \<in> fst ` set (folders_of c'). j \<le> i" using seq i unfolding f by force
  then have "seqs_ok c'" using catalog_okD(2) [OF assms(1)] unfolding seqs_ok_def s by (simp add: c')
  ultimately show "catalog_ok c'" by (simp add: catalog_ok_def)
qed

lemma root_ok:
  assumes "catalog_ok c" "root now c = (r, c')"
  shows "\<exists>i. r = Inr i \<and> i \<in> fst ` set (folders_of c') \<and> catalog_ok c' \<and> set (folders_of c) \<subseteq> set (folders_of c')
     \<and> ct_data c' = ct_data c \<and> ct_events c' = ct_events c"
proof (cases "\<exists>i n. (i, None, n) \<in> set (folders_of c)")
  case True
  then show ?thesis using root_of [OF catalog_okD(1) [OF assms(1)]] assms by force
next
  case False
  then have e: "folders_of c = []" "streams_of c = []"
    using tree_no_root [OF catalog_okD(1) [OF assms(1)]] by auto
  then have "ct_folders c = []" "ct_data c = []" "ct_events c = []"
    by (simp_all add: folders_of_def streams_of_def)
  then show ?thesis using assms tree_add_root [of "ct_folder_seq c + 1" "''root''"]
    by (auto simp: root_def new_folder_def Let_def catalog_ok_def seqs_ok_def folders_of_def streams_of_def)
qed

text \<open>Looking up or creating a folder only adds folders.\<close>

definition grows :: "'f catalog \<Rightarrow> 'f catalog \<Rightarrow> bool" where
  "grows c c' = (catalog_ok c' \<and> set (folders_of c) \<subseteq> set (folders_of c') \<and> ct_data c' = ct_data c \<and> ct_events c' = ct_events c)"

lemma growsD: "grows c c' \<Longrightarrow> catalog_ok c'" "grows c c' \<Longrightarrow> streams_of c' = streams_of c"
  "grows c c' \<Longrightarrow> i \<in> fst ` set (folders_of c) \<Longrightarrow> i \<in> fst ` set (folders_of c')"
  "grows c c' \<Longrightarrow> x \<in> set (folders_of c) \<Longrightarrow> x \<in> set (folders_of c')"
  "grows c c' \<Longrightarrow> get_data c' = get_data c" "grows c c' \<Longrightarrow> get_event c' = get_event c"
  by (auto simp: grows_def streams_of_def get_data_def get_event_def)

lemma grows_trans: "grows a b \<Longrightarrow> grows b c \<Longrightarrow> grows a c"
  by (auto simp: grows_def)

lemma grows_folder:
  assumes "grows c c'" "get_folder c i = Some f"
  shows "\<exists>f'. get_folder c' i = Some f' \<and> fd_id f' = i \<and> fd_parent f' = fd_parent f \<and> fd_name f' = fd_name f"
  by (rule get_folder_row [OF tree_okD(1) [OF catalog_okD(1) [OF growsD(1) [OF assms(1)]]]])
    (rule growsD(4) [OF assms(1) get_folder_mem [OF assms(2)]])

lemma root_grows:
  assumes "catalog_ok c"
  shows "\<exists>i c1. root now c = (Inr i, c1) \<and> i \<in> fst ` set (folders_of c1) \<and> grows c c1"
proof -
  obtain r c1 where "root now c = (r, c1)" by fastforce
  from root_ok [OF assms this] this show ?thesis unfolding grows_def by blast
qed

lemma find_segments_ok:
  assumes "catalog_ok c" "p \<in> fst ` set (folders_of c)" "list_all valid_name ns" "find_segments now create p ns c = (r, c')"
  shows "grows c c' \<and> (\<forall>i. r = Inr (Some i) \<longrightarrow> i \<in> fst ` set (folders_of c')) \<and> (create \<longrightarrow> r \<noteq> Inr None)"
  using assms
proof (induction now create p ns c rule: find_segments.induct)
  case (1 now create parent c)
  then show ?case by (auto simp: grows_def)
next
  case (2 now create parent name ns c)
  let ?fs = "filter (\<lambda>f. fd_parent f = Some parent \<and> fd_name f = name) (ct_folders c)"
  show ?case
  proof (cases ?fs)
    case Nil
    show ?thesis
    proof (cases create)
      case True
      obtain i c1 where n: "new_folder now (Some parent) name c = (i, c1)" by (cases "new_folder now (Some parent) name c")
      have free: "(j, Some parent, name) \<notin> set (folders_of c)" for j
        using Nil by (auto simp: folders_of_def filter_empty_conv)
      note new = new_folder_ok [OF 2(3,4) _ free n]
      have vn: "valid_name name" "list_all valid_name ns" using 2(5) by simp_all
      have g: "grows c c1" "i \<in> fst ` set (folders_of c1)" using new [OF vn(1)] by (auto simp: grows_def)
      have nn: "\<not> \<not> create" using True by simp
      have "find_segments now create i ns c1 = (r, c')" using 2(6) Nil True n by simp
      from 2(1) [OF Nil nn n [symmetric] growsD(1) [OF g(1)] g(2) vn(2) this] g(1)
      show ?thesis using grows_trans by blast
    next
      case False
      then show ?thesis using 2(3,6) Nil by (auto simp: grows_def)
    qed
  next
    case (Cons f fs)
    then have f: "fd_id f \<in> fst ` set (folders_of c)"
      using Cons_eq_filterD [OF Cons [symmetric]] by (force simp: folders_of_def)
    show ?thesis
    proof (cases fs)
      case Nil
      then show ?thesis using 2(2) [of f "[]"] 2(3,5,6) f Cons by simp
    next
      case (Cons g gs)
      then show ?thesis using 2(3,6) \<open>?fs = f # fs\<close> by (auto simp: grows_def)
    qed
  qed
qed

lemma find_folder_ok:
  assumes "catalog_ok c" "find_folder now create path c = (r, c')"
  shows "grows c c' \<and> (\<forall>i. r = Inr (Some i) \<longrightarrow> i \<in> fst ` set (folders_of c')) \<and> (create \<longrightarrow> r \<noteq> Inr None)"
proof -
  have self: "grows c c" using assms(1) by (simp add: grows_def)
  obtain i c1 where r: "root now c = (Inr i, c1)" "i \<in> fst ` set (folders_of c1)" "grows c c1"
    using root_grows [OF assms(1)] by blast
  have names: "list_all valid_name (tl (py_split (CHR ''/'') path))" if "[] \<notin> set (tl (py_split (CHR ''/'') path))"
    unfolding list_all_iff
  proof
    fix w
    assume w: "w \<in> set (tl (py_split (CHR ''/'') path))"
    then have "w \<in> set (py_split (CHR ''/'') path)" by (metis list.sel(2) list.set_sel(2))
    then show "valid_name w" using py_split_no_sep w that by (auto simp: valid_name_def)
  qed
  show ?thesis
  proof (cases "path = [] \<or> hd path \<noteq> CHR ''/''")
    case True
    then show ?thesis using assms(2) self by (auto simp: find_folder_def)
  next
    case False
    show ?thesis
    proof (cases "path = ''/'' \<or> [] \<in> set (tl (py_split (CHR ''/'') path))")
      case True
      then show ?thesis using assms(2) False r by (auto simp: find_folder_def seqA_def Let_def split: if_splits)
    next
      case ok: False
      then have f: "find_segments now create i (tl (py_split (CHR ''/'') path)) c1 = (r, c')"
        using assms(2) False r by (simp add: find_folder_def seqA_def Let_def)
      have "list_all valid_name (tl (py_split (CHR ''/'') path))" using names ok by blast
      from find_segments_ok [OF growsD(1) [OF r(3)] r(2) this f] show ?thesis using grows_trans [OF r(3)] by blast
    qed
  qed
qed

lemma find_stream_ok:
  assumes "catalog_ok c" "find_stream_by_path now kind path c = (r, c')"
  shows "grows c c'"
proof -
  obtain i c1 where r: "root now c = (Inr i, c1)" "grows c c1"
    using root_grows [OF assms(1)] by blast
  then show ?thesis using assms(2)
    by (auto simp: find_stream_by_path_def seqA_def Let_def split: option.splits)
qed

end
