(* ===== verification/Catalogue_Handlers.thy ===== *)
theory Catalogue_Handlers
  imports Catalogue_Tree
begin

text \<open>
  The handlers that change the catalogue: \<open>controllers/folder_controller.py\<close>, \<open>stream_controller.py\<close> and
  \<open>event_controller.py\<close>.  All handlers share one session of the database: the committed catalogue and the
  catalogue as the session sees it, which a rollback resets.  An exception that a handler does not turn into
  an answer leaves the changes of the session in place.
\<close>

section \<open>Sessions\<close>

record 'f session =
  se_db :: "'f catalog"
  se_work :: "'f catalog"
  se_destroyed :: "stream_ref list"
  se_created :: "int list"

type_synonym ('f, 'a) handler = "('f session, 'a) act"

definition commit :: "('f, unit) handler" where
  "commit = modifyA (\<lambda>s. s\<lparr>se_db := se_work s\<rparr>)"

definition rollback :: "('f, unit) handler" where
  "rollback = modifyA (\<lambda>s. s\<lparr>se_work := se_db s\<rparr>)"

definition on_work :: "('f catalog, 'a) act \<Rightarrow> ('f, 'a) handler" where
  "on_work f s = (case f (se_work s) of (r, c) \<Rightarrow> (r, s\<lparr>se_work := c\<rparr>))"

definition change :: "('f catalog \<Rightarrow> 'f catalog) \<Rightarrow> ('f, unit) handler" where
  "change f = modifyA (\<lambda>s. s\<lparr>se_work := f (se_work s)\<rparr>)"

definition destroy_data :: "stream_ref \<Rightarrow> ('f, unit) handler" where
  "destroy_data r = modifyA (\<lambda>s. s\<lparr>se_destroyed := se_destroyed s @ [r]\<rparr>)"

definition view :: "('f catalog \<Rightarrow> ('f, 'a) handler) \<Rightarrow> ('f, 'a) handler" where
  "view f s = f (se_work s) s"

definition bad :: "string \<Rightarrow> ('f, 'a) handler" where
  "bad reason = raiseA (HTTPBadRequest reason)"

definition rollback_bad :: "string \<Rightarrow> ('f, 'a) handler" where
  "rollback_bad reason = seqA rollback (\<lambda>_. bad reason)"

text \<open>\<open>except (ValueError, ConfigurationError): db.rollback(); raise HTTPBadRequest\<close>.\<close>

fun is_input_error :: "exn \<Rightarrow> bool" where
  "is_input_error PyValueError = True"
| "is_input_error (ConfigurationError m) = True"
| "is_input_error e = False"

definition rollback_on_input_error :: "string \<Rightarrow> ('f, 'a) handler \<Rightarrow> ('f, 'a) handler" where
  "rollback_on_input_error reason h s =
     (case h s of
        (Inl e, s') \<Rightarrow> if is_input_error e then rollback_bad reason s' else (Inl e, s')
      | r \<Rightarrow> r)"

text \<open>The errors of taking the JSON of a new stream apart, with the answers to them; others are passed on.\<close>

definition rollback_on_json_error :: "exn \<Rightarrow> ('f, 'a) handler" where
  "rollback_on_json_error e =
     (case e of
        PyTypeError \<Rightarrow> rollback_bad ''Invalid stream JSON: %r''
      | PyValueError \<Rightarrow> rollback_bad ''Invalid stream JSON: %r''
      | ConfigurationError m \<Rightarrow> rollback_bad ''Invalid stream specification: %s''
      | PyKeyError k \<Rightarrow> rollback_bad ''Invalid or missing stream attribute: %s''
      | _ \<Rightarrow> raiseA e)"

section \<open>Finding what a request names\<close>

datatype locator = ByPath string | ById int | Unspecified

definition ref_id :: "stream_ref \<Rightarrow> int" where
  "ref_id r = (case r of DataRef i \<Rightarrow> i | EventRef i \<Rightarrow> i)"

definition locate_data :: "int \<Rightarrow> string \<Rightarrow> locator \<Rightarrow> ('f, 'f data_stream) handler" where
  "locate_data now reason l =
     seqA
       (case l of
          ByPath p \<Rightarrow> seqA (on_work (find_stream_by_path now DataKind p)) (\<lambda>r. pureA (map_option ref_id r))
        | ById i \<Rightarrow> pureA (Some i)
        | Unspecified \<Rightarrow> bad reason)
       (\<lambda>i. view (\<lambda>c. case Option.bind i (get_data c) of
          None \<Rightarrow> raiseA (HTTPNotFound ''stream does not exist'') | Some s \<Rightarrow> pureA s))"

definition locate_event :: "int \<Rightarrow> locator \<Rightarrow> ('f, event_stream) handler" where
  "locate_event now l =
     seqA
       (case l of
          ByPath p \<Rightarrow> seqA (on_work (find_stream_by_path now EventKind p)) (\<lambda>r. pureA (map_option ref_id r))
        | ById i \<Rightarrow> pureA (Some i)
        | Unspecified \<Rightarrow> bad ''specify an id or a path'')
       (\<lambda>i. view (\<lambda>c. case Option.bind i (get_event c) of
          None \<Rightarrow> raiseA (HTTPNotFound ''stream does not exist'') | Some s \<Rightarrow> pureA s))"

definition locate_folder :: "int \<Rightarrow> string \<Rightarrow> locator \<Rightarrow> ('f, folder) handler" where
  "locate_folder now reason l =
     seqA
       (case l of
          ByPath p \<Rightarrow> on_work (find_folder now False p)
        | ById i \<Rightarrow> pureA (Some i)
        | Unspecified \<Rightarrow> bad reason)
       (\<lambda>i. view (\<lambda>c. case Option.bind i (get_folder c) of
          None \<Rightarrow> raiseA (HTTPNotFound ''folder does not exist'') | Some f \<Rightarrow> pureA f))"

text \<open>
  The destination of a move: found or created.  An unknown id gives \<open>None\<close>, on which the next access to an
  attribute fails.
\<close>

definition destination :: "int \<Rightarrow> locator \<Rightarrow> ('f, int) handler" where
  "destination now l =
     (case l of
        ByPath p \<Rightarrow>
          (\<lambda>s. case on_work (find_folder now True p) s of
             (Inl (ConfigurationError m), s') \<Rightarrow> (Inl (HTTPBadRequest ''Destination error: %s''), s')
           | (Inl e, s') \<Rightarrow> (Inl e, s')
           | (Inr None, s') \<Rightarrow> (Inl PyAttributeError, s')
           | (Inr (Some d), s') \<Rightarrow> (Inr d, s'))
      | ById i \<Rightarrow> view (\<lambda>c. if get_folder c i = None then raiseA PyAttributeError else pureA i)
      | Unspecified \<Rightarrow> bad ''specify a destination'')"

section \<open>Data streams\<close>

definition stream_move :: "int \<Rightarrow> locator \<Rightarrow> locator \<Rightarrow> ('f, unit) handler" where
  "stream_move now src dest =
     seqA (locate_data now ''specify a source id or a path'' src) (\<lambda>s.
     if ds_locked s then bad ''locked streams cannot be moved''
     else
       seqA (destination now dest) (\<lambda>d. view (\<lambda>c.
       if ds_name s \<in> set (stream_names c d)
       then rollback_bad ''stream with the same name exists in the destination folder''
       else
         seqA (change (\<lambda>c. touch_folder now d (update_data (ds_id s) (\<lambda>s. s\<lparr>ds_folder := Some d\<rparr>)
                             (touch_data now (ds_id s) c))))
           (\<lambda>_. commit))))"

text \<open>
  \<open>create\<close>: the stream given in the body, or the error of taking the JSON apart.
\<close>

definition add_data :: "int \<Rightarrow> 'f data_stream \<Rightarrow> 'f catalog \<Rightarrow> 'f catalog" where
  "add_data d s c =
     (let i = ct_data_seq c + 1
      in c\<lparr>ct_data := ct_data c @ [s\<lparr>ds_id := i, ds_folder := Some d\<rparr>], ct_data_seq := i\<rparr>)"

definition clean_stream :: "'f data_stream \<Rightarrow> 'f data_stream" where
  "clean_stream s = s\<lparr>ds_is_configured := False, ds_is_destination := Some False, ds_is_source := Some False,
     ds_elements := map (\<lambda>e. e\<lparr>el_id := None\<rparr>) (ds_elements s)\<rparr>"

definition check_new_stream :: "'f data_stream \<Rightarrow> 'f data_stream res" where
  "check_new_stream s =
     (if ds_elements s = [] then Inl (ConfigurationError ''stream must have at least one element'')
      else if \<not> distinct (map el_name (ds_elements s)) then Inl (ConfigurationError ''element names must be unique'')
      else Inr (clean_stream s))"

definition stream_create :: "int \<Rightarrow> 'f stream_json res option \<Rightarrow> locator \<Rightarrow> ('f, unit) handler" where
  "stream_create now body dest =
     (case body of
        None \<Rightarrow> bad ''provide a stream''
      | Some j \<Rightarrow>
          seqA (destination now dest) (\<lambda>d. view (\<lambda>c.
            case bindE (bindE j (stream_from_json now)) check_new_stream of
              Inl e \<Rightarrow> rollback_on_json_error e
            | Inr s \<Rightarrow>
                if ds_name s \<in> set (stream_names c d)
                then rollback_bad ''Invalid stream specification: %s''
                else seqA (change (\<lambda>c. touch_data now (ct_data_seq c + 1) (add_data d s c))) (\<lambda>_. commit))))"

text \<open>
  \<open>update\<close>: the names of the other streams of the folder are those of the streams with another id,
  whatever their kind.
\<close>

definition other_names :: "'f catalog \<Rightarrow> int \<Rightarrow> int \<Rightarrow> string list" where
  "other_names c d i = map ds_name (filter (\<lambda>s. ds_id s \<noteq> i) (data_in c d))
     @ map vs_name (filter (\<lambda>s. vs_id s \<noteq> i) (events_in c d))"

definition work_stream :: "int \<Rightarrow> ('f data_stream, unit) act \<Rightarrow> ('f, unit) handler" where
  "work_stream i f =
     on_work (\<lambda>c. case get_data c i of
        None \<Rightarrow> (Inl PyAttributeError, c)
      | Some s \<Rightarrow> (case f s of (r, s') \<Rightarrow> (r, update_data i (\<lambda>_. s') c)))"

definition stream_update :: "int \<Rightarrow> ('v \<Rightarrow> 'f::linorder res) \<Rightarrow> int option \<Rightarrow> 'v stream_attrs option \<Rightarrow> ('f, unit) handler" where
  "stream_update now to_float i attrs =
     (case i of
        None \<Rightarrow> bad ''Invalid request: specify id''
      | Some i \<Rightarrow> view (\<lambda>c0. case get_data c0 i of
            None \<Rightarrow> raiseA (HTTPNotFound ''stream does not exist'')
          | Some s \<Rightarrow>
              if ds_locked s then bad ''stream is locked''
              else
                (case attrs of
                   None \<Rightarrow> bad ''Invalid request: specify stream as JSON''
                 | Some a \<Rightarrow>
                     rollback_on_input_error ''Invalid stream specification: %s''
                       (seqA (work_stream i (update_stream to_float a)) (\<lambda>_.
                        seqA (whenA (stream_attrs_given a) (change (touch_data now i))) (\<lambda>_. view (\<lambda>c.
                          case Option.bind (get_data c i) (\<lambda>s. map_option (\<lambda>d. (s, d)) (ds_folder s)) of
                            None \<Rightarrow> raiseA PyAttributeError
                          | Some (s, d) \<Rightarrow>
                              if ds_name s \<in> set (other_names c d i)
                              then raiseA (ConfigurationError ''stream with the same name exists in the folder'')
                              else commit)))))))"

definition remove_data :: "int \<Rightarrow> 'f catalog \<Rightarrow> 'f catalog" where
  "remove_data i c = c\<lparr>ct_data := filter (\<lambda>s. ds_id s \<noteq> i) (ct_data c)\<rparr>"

definition stream_delete :: "int \<Rightarrow> locator \<Rightarrow> ('f, unit) handler" where
  "stream_delete now l =
     seqA (locate_data now ''specify an id or a path'' l) (\<lambda>s.
     if ds_locked s \<or> ds_active s then bad ''locked streams cannot be deleted''
     else
       seqA (destroy_data (DataRef (ds_id s))) (\<lambda>_.
       case ds_folder s of
         None \<Rightarrow> raiseA PyAttributeError
       | Some d \<Rightarrow> seqA (change (\<lambda>c. remove_data (ds_id s) (touch_folder now d c))) (\<lambda>_. commit)))"

section \<open>Event streams\<close>

definition event_move :: "int \<Rightarrow> locator \<Rightarrow> locator \<Rightarrow> ('f, unit) handler" where
  "event_move now src dest =
     seqA (locate_event now src) (\<lambda>s.
     seqA (destination now dest) (\<lambda>d. view (\<lambda>c.
       if vs_name s \<in> set (stream_names c d)
       then rollback_bad ''stream with the same name exists in the destination folder''
       else
         (case vs_folder s of
            None \<Rightarrow> raiseA PyAttributeError
          | Some old \<Rightarrow>
              seqA (change (\<lambda>c. touch_folder now d (update_event (vs_id s) (\<lambda>s. s\<lparr>vs_folder := Some d\<rparr>)
                                  (touch_folder now old c))))
                (\<lambda>_. commit)))))"

definition add_event :: "int \<Rightarrow> event_stream \<Rightarrow> 'f catalog \<Rightarrow> 'f catalog" where
  "add_event d s c =
     (let i = ct_event_seq c + 1
      in c\<lparr>ct_events := ct_events c @ [s\<lparr>vs_id := i, vs_folder := Some d\<rparr>], ct_event_seq := i\<rparr>)"

definition event_create :: "(string \<Rightarrow> string list option) \<Rightarrow> int \<Rightarrow> event_stream_json res option \<Rightarrow> locator \<Rightarrow> ('f, unit) handler" where
  "event_create categories now body dest =
     (case body of
        None \<Rightarrow> bad ''provide a stream''
      | Some j \<Rightarrow>
          seqA (destination now dest) (\<lambda>d. view (\<lambda>c.
            case bindE j (event_stream_from_json categories now) of
              Inl e \<Rightarrow> rollback_on_json_error e
            | Inr s \<Rightarrow>
                if vs_name s \<in> set (stream_names c d)
                then rollback_bad ''Invalid stream specification: %s''
                else
                  seqA (change (\<lambda>c. touch_event now (ct_event_seq c + 1) (add_event d s c))) (\<lambda>_.
                  seqA commit (\<lambda>_. modifyA (\<lambda>s. s\<lparr>se_created := se_created s @ [ct_event_seq c + 1]\<rparr>))))))"

definition work_event :: "int \<Rightarrow> (event_stream, unit) act \<Rightarrow> ('f, unit) handler" where
  "work_event i f =
     on_work (\<lambda>c. case get_event c i of
        None \<Rightarrow> (Inl PyAttributeError, c)
      | Some s \<Rightarrow> (case f s of (r, s') \<Rightarrow> (r, update_event i (\<lambda>_. s') c)))"

definition event_update :: "(string \<Rightarrow> string list option) \<Rightarrow> int \<Rightarrow> int option \<Rightarrow> event_stream_attrs option \<Rightarrow> ('f, unit) handler" where
  "event_update categories now i attrs =
     (case i of
        None \<Rightarrow> bad ''Invalid request: specify id''
      | Some i \<Rightarrow> view (\<lambda>c0. case get_event c0 i of
            None \<Rightarrow> raiseA (HTTPNotFound ''stream does not exist'')
          | Some s \<Rightarrow>
                (case attrs of
                   None \<Rightarrow> bad ''Invalid request: specify stream as JSON''
                 | Some a \<Rightarrow>
                     rollback_on_input_error ''Invalid stream specification: %s''
                       (seqA (work_event i (update_event_stream categories a)) (\<lambda>_.
                        seqA (whenA (event_attrs_given a) (change (touch_event now i))) (\<lambda>_. view (\<lambda>c.
                          case Option.bind (get_event c i) (\<lambda>s. map_option (\<lambda>d. (s, d)) (vs_folder s)) of
                            None \<Rightarrow> raiseA PyAttributeError
                          | Some (s, d) \<Rightarrow>
                              if vs_name s \<in> set (other_names c d i)
                              then raiseA (ConfigurationError ''stream with the same name exists in the folder'')
                              else commit)))))))"

definition remove_event :: "int \<Rightarrow> 'f catalog \<Rightarrow> 'f catalog" where
  "remove_event i c = c\<lparr>ct_events := filter (\<lambda>s. vs_id s \<noteq> i) (ct_events c)\<rparr>"

definition event_delete :: "int \<Rightarrow> locator \<Rightarrow> ('f, unit) handler" where
  "event_delete now l =
     seqA (locate_event now l) (\<lambda>s.
     seqA (destroy_data (EventRef (vs_id s))) (\<lambda>_.
       case vs_folder s of
         None \<Rightarrow> raiseA PyAttributeError
       | Some d \<Rightarrow> seqA (change (\<lambda>c. remove_event (vs_id s) (touch_folder now d c))) (\<lambda>_. commit)))"

section \<open>Folders\<close>

text \<open>Is folder \<open>i\<close> at or above the folder \<open>p\<close>?\<close>

fun above :: "nat \<Rightarrow> 'f catalog \<Rightarrow> int \<Rightarrow> int option \<Rightarrow> bool" where
  "above n c i None = False"
| "above 0 c i (Some p) = False"
| "above (Suc n) c i (Some p) = (p = i \<or> above n c i (Option.bind (get_folder c p) fd_parent))"

text \<open>
  \<open>move\<close>; \<open>circular\<close> says whether the flush of the session finds a circular dependency.
\<close>

definition folder_move :: "('f catalog \<Rightarrow> bool) \<Rightarrow> int \<Rightarrow> locator \<Rightarrow> locator \<Rightarrow> ('f, unit) handler" where
  "folder_move circular now src dest =
     seqA (locate_folder now ''specify an id or a path'' src) (\<lambda>f. view (\<lambda>c0.
     if locked c0 f then bad ''folder is locked''
     else
       seqA (destination now dest) (\<lambda>d. view (\<lambda>c.
       if fd_name f \<in> set (map fd_name (children c d))
       then rollback_bad ''a folder with this name is in the destination folder''
       else if above (length (ct_folders c)) c (fd_id f) (Option.bind (get_folder c d) fd_parent)
       then rollback_bad ''cannot place a parent in a child folder''
       else
         (let c' = update_folder (fd_id f) (\<lambda>f. f\<lparr>fd_parent := Some d\<rparr>)
                     (touch_folder now d (touch_folder now (fd_id f) c))
          in if circular c' then rollback_bad ''cannot place a parent in a child folder''
             else seqA (change (\<lambda>_. c')) (\<lambda>_. commit))))))"

definition work_folder :: "int \<Rightarrow> (folder, unit) act \<Rightarrow> ('f, unit) handler" where
  "work_folder i f =
     on_work (\<lambda>c. case get_folder c i of
        None \<Rightarrow> (Inl PyAttributeError, c)
      | Some x \<Rightarrow> (case f x of (r, x') \<Rightarrow> (r, update_folder i (\<lambda>_. x') c)))"

definition folder_update :: "int \<Rightarrow> int option \<Rightarrow> folder_attrs option \<Rightarrow> ('f, unit) handler" where
  "folder_update now i attrs =
     (case i of
        None \<Rightarrow> bad ''Invalid request: specify id''
      | Some i \<Rightarrow> view (\<lambda>c0. case get_folder c0 i of
            None \<Rightarrow> raiseA (HTTPNotFound ''folder does not exist'')
          | Some f \<Rightarrow>
              if locked c0 f then bad ''folder is locked''
              else
                (case attrs of
                   None \<Rightarrow> bad ''Invalid request: specify folder as JSON''
                 | Some a \<Rightarrow>
                     rollback_on_input_error ''error: %s''
                       (seqA (work_folder i (update_folder_attributes a)) (\<lambda>_. view (\<lambda>c.
                          case Option.bind (get_folder c i) (\<lambda>f. map_option (\<lambda>p. (f, p)) (fd_parent f)) of
                            None \<Rightarrow> raiseA PyAttributeError
                          | Some (f, p) \<Rightarrow>
                              if fd_name f \<in> set (map fd_name (filter (\<lambda>g. fd_id g \<noteq> i) (children c p)))
                              then rollback_bad ''a folder with this name is in the destination folder''
                              else seqA (change (touch_folder now i)) (\<lambda>_. commit)))))))"

fun delete_data_streams :: "'f data_stream list \<Rightarrow> ('f, unit) handler" where
  "delete_data_streams [] = pureA ()"
| "delete_data_streams (s # ss) =
     (if ds_locked s then bad ''cannot delete folder with locked streams''
      else seqA (destroy_data (DataRef (ds_id s))) (\<lambda>_. seqA (change (remove_data (ds_id s))) (\<lambda>_. delete_data_streams ss)))"

fun delete_event_streams :: "event_stream list \<Rightarrow> ('f, unit) handler" where
  "delete_event_streams [] = pureA ()"
| "delete_event_streams (s # ss) =
     seqA (destroy_data (EventRef (vs_id s))) (\<lambda>_. seqA (change (remove_event (vs_id s))) (\<lambda>_. delete_event_streams ss))"

definition delete_streams :: "int \<Rightarrow> ('f, unit) handler" where
  "delete_streams i = view (\<lambda>c. seqA (delete_data_streams (data_in c i)) (\<lambda>_. delete_event_streams (events_in c i)))"

definition remove_folder :: "int \<Rightarrow> 'f catalog \<Rightarrow> 'f catalog" where
  "remove_folder i c = c\<lparr>ct_folders := filter (\<lambda>f. fd_id f \<noteq> i) (ct_folders c)\<rparr>"

text \<open>\<open>_recursive_delete\<close>, on the ids of the folders; the fuel bounds the depth, as Python's stack does.\<close>

function recursive_delete :: "nat \<Rightarrow> int list \<Rightarrow> ('f, unit) handler" where
  "recursive_delete n [] = pureA ()"
| "recursive_delete 0 (i # is) = raiseA PyRecursionError"
| "recursive_delete (Suc n) (i # is) =
     seqA (delete_streams i) (\<lambda>_.
     seqA (view (\<lambda>c. recursive_delete n (map fd_id (children c i)))) (\<lambda>_.
     seqA (change (remove_folder i)) (\<lambda>_. recursive_delete (Suc n) is)))"
  by pat_completeness auto
termination by (relation "measures [\<lambda>(n, is). n, \<lambda>(n, is). length is]") auto

definition folder_delete :: "int \<Rightarrow> bool \<Rightarrow> locator \<Rightarrow> ('f, unit) handler" where
  "folder_delete now recursive l =
     seqA (locate_folder now ''specify an id or a path'' l) (\<lambda>f. view (\<lambda>c.
     if locked c f then bad ''folder is locked''
     else if \<not> recursive \<and> children c (fd_id f) \<noteq> []
     then bad ''specify [recursive] or remove child folders first''
     else
       seqA (whenA recursive (recursive_delete (length (ct_folders c)) (map fd_id (children c (fd_id f))))) (\<lambda>_.
       seqA (delete_streams (fd_id f)) (\<lambda>_.
       case fd_parent f of
         None \<Rightarrow> raiseA PyAttributeError
       | Some p \<Rightarrow> seqA (change (\<lambda>c. touch_folder now p (remove_folder (fd_id f) c))) (\<lambda>_. commit)))))"

end
