(* ===== verification/Catalogue_Safety.thy ===== *)
theory Catalogue_Safety
  imports Catalogue_Handlers
begin

text \<open>
  The handlers of \<open>Catalogue_Handlers\<close> keep both catalogues of the session well-formed.  The proofs use
  triples: from a state with the precondition, a handler that returns ends in the postcondition, and one
  that answers with an HTTP error leaves well-formed catalogues.
\<close>

section \<open>Triples\<close>

definition session_ok :: "'f session \<Rightarrow> bool" where
  "session_ok s = (catalog_ok (se_db s) \<and> catalog_ok (se_work s))"

fun is_http :: "exn \<Rightarrow> bool" where
  "is_http (HTTPBadRequest m) = True"
| "is_http (HTTPNotFound m) = True"
| "is_http HTTPForbidden = True"
| "is_http e = False"

fun post :: "('a \<Rightarrow> 'f session \<Rightarrow> bool) \<Rightarrow> 'a res \<Rightarrow> 'f session \<Rightarrow> bool" where
  "post Q (Inr x) s = Q x s"
| "post Q (Inl e) s = (catalog_ok (se_db s) \<and> (is_http e \<longrightarrow> session_ok s))"

definition triple :: "('f session \<Rightarrow> bool) \<Rightarrow> ('f, 'a) handler \<Rightarrow> ('a \<Rightarrow> 'f session \<Rightarrow> bool) \<Rightarrow> bool" where
  "triple P h Q = (\<forall>s. P s \<longrightarrow> post Q (fst (h s)) (snd (h s)))"

lemma tripleI: "(\<And>s r s'. P s \<Longrightarrow> h s = (r, s') \<Longrightarrow> post Q r s') \<Longrightarrow> triple P h Q"
  by (simp add: triple_def)

lemma tripleD: "triple P h Q \<Longrightarrow> P s \<Longrightarrow> h s = (r, s') \<Longrightarrow> post Q r s'"
  unfolding triple_def by (metis fst_conv snd_conv)

lemma session_okD: "session_ok s \<Longrightarrow> catalog_ok (se_db s)" "session_ok s \<Longrightarrow> catalog_ok (se_work s)"
  by (simp_all add: session_ok_def)

lemma post_session_ok [simp]: "session_ok s \<Longrightarrow> post (\<lambda>_. session_ok) r s"
  by (cases r) (auto dest: session_okD)

lemma post_db: "post (\<lambda>_. session_ok) r s \<Longrightarrow> catalog_ok (se_db s)"
  by (cases r) (auto dest: session_okD)

lemma triple_seq:
  assumes "triple P f R" "\<And>x. triple (R x) (g x) Q"
  shows "triple P (seqA f g) Q"
proof (rule tripleI)
  fix s r s'
  assume P: "P s" and r: "seqA f g s = (r, s')"
  obtain r1 s1 where f: "f s = (r1, s1)" by fastforce
  note 1 = tripleD [OF assms(1) P f]
  show "post Q r s'"
  proof (cases r1)
    case (Inl e)
    then show ?thesis using 1 r f by (auto simp: seqA_def)
  next
    case (Inr x)
    then have "R x s1" "g x s1 = (r, s')" using 1 r f by (auto simp: seqA_def)
    then show ?thesis by (rule tripleD [OF assms(2)])
  qed
qed

lemma triple_pre: "triple P h Q \<Longrightarrow> (\<And>s. P' s \<Longrightarrow> P s) \<Longrightarrow> triple P' h Q"
  by (simp add: triple_def)

lemma triple_pure: "(\<And>s. P s \<Longrightarrow> Q x s) \<Longrightarrow> triple P (pureA x) Q"
  by (simp add: triple_def)

lemma triple_raise: "(\<And>s. P s \<Longrightarrow> session_ok s) \<Longrightarrow> triple P (raiseA e) Q"
  by (simp add: triple_def session_ok_def)

lemma triple_crash: "\<not> is_http e \<Longrightarrow> (\<And>s. P s \<Longrightarrow> catalog_ok (se_db s)) \<Longrightarrow> triple P (raiseA e) Q"
  by (simp add: triple_def)

lemma triple_bad: "(\<And>s. P s \<Longrightarrow> session_ok s) \<Longrightarrow> triple P (bad reason) Q"
  by (simp add: bad_def triple_raise)

text \<open>A fact on the catalogue at the start may be used at the end.\<close>

lemma triple_fixed:
  "triple P h R \<Longrightarrow> (\<And>s. P s \<Longrightarrow> A) \<Longrightarrow> triple P h (\<lambda>x s. A \<and> R x s)"
  unfolding triple_def
proof (intro allI impI)
  fix s
  assume h: "\<forall>s. P s \<longrightarrow> post R (fst (h s)) (snd (h s))" and A: "\<And>s. P s \<Longrightarrow> A" and P: "P s"
  have A: A using A [OF P] .
  have "post R (fst (h s)) (snd (h s))" using h P by simp
  then show "post (\<lambda>x s. A \<and> R x s) (fst (h s)) (snd (h s))" using A by (cases "fst (h s)") auto
qed

lemma triple_view: "(\<And>c. triple (\<lambda>s. P s \<and> se_work s = c) (f c) Q) \<Longrightarrow> triple P (view f) Q"
  by (simp add: triple_def view_def)

lemma triple_if: "(b \<Longrightarrow> triple P f Q) \<Longrightarrow> (\<not> b \<Longrightarrow> triple P g Q) \<Longrightarrow> triple P (if b then f else g) Q"
  by simp

lemma triple_option:
  "(v = None \<Longrightarrow> triple P f Q) \<Longrightarrow> (\<And>x. v = Some x \<Longrightarrow> triple P (g x) Q) \<Longrightarrow>
   triple P (case v of None \<Rightarrow> f | Some x \<Rightarrow> g x) Q"
  by (cases v) simp_all

lemma triple_modify: "(\<And>s. P s \<Longrightarrow> Q () (f s)) \<Longrightarrow> triple P (modifyA f) Q"
  by (simp add: triple_def)

lemma triple_change: "(\<And>s. P s \<Longrightarrow> Q () (s\<lparr>se_work := f (se_work s)\<rparr>)) \<Longrightarrow> triple P (change f) Q"
  by (simp add: change_def triple_modify)

lemma triple_commit: "(\<And>s. P s \<Longrightarrow> catalog_ok (se_work s)) \<Longrightarrow> triple P commit (\<lambda>_. session_ok)"
  by (simp add: commit_def triple_modify session_ok_def)

lemma triple_rollback_bad: "(\<And>s. P s \<Longrightarrow> catalog_ok (se_db s)) \<Longrightarrow> triple P (rollback_bad reason) Q"
  by (simp add: rollback_bad_def rollback_def bad_def triple_def seqA_def session_ok_def)

lemma triple_destroy: "(\<And>s. P s \<Longrightarrow> Q () (s\<lparr>se_destroyed := se_destroyed s @ [r]\<rparr>)) \<Longrightarrow> triple P (destroy_data r) Q"
  by (simp add: destroy_data_def triple_modify)

lemma session_ok_destroyed [simp]: "session_ok (s\<lparr>se_destroyed := x\<rparr>) = session_ok s" "session_ok (s\<lparr>se_created := y\<rparr>) = session_ok s"
  by (simp_all add: session_ok_def)

lemma triple_input_error:
  assumes "triple P h Q"
  shows "triple P (rollback_on_input_error reason h) Q"
proof (rule tripleI)
  fix s r s'
  assume P: "P s" and r: "rollback_on_input_error reason h s = (r, s')"
  obtain r1 s1 where h: "h s = (r1, s1)" by fastforce
  note 1 = tripleD [OF assms P h]
  show "post Q r s'"
  proof (cases "\<exists>e. r1 = Inl e \<and> is_input_error e")
    case True
    then show ?thesis using r h 1
      by (auto simp: rollback_on_input_error_def rollback_bad_def rollback_def bad_def session_ok_def seqA_def)
  next
    case False
    then have "r = r1" "s' = s1" using r h by (auto simp: rollback_on_input_error_def split: sum.splits)
    then show ?thesis using 1 by simp
  qed
qed

section \<open>Finding\<close>

lemma locate_data_ok: "triple session_ok (locate_data now reason l) (\<lambda>x s. session_ok s \<and> get_data (se_work s) (ds_id x) = Some x)"
proof -
  have l: "triple session_ok (case l of
          ByPath p \<Rightarrow> seqA (on_work (find_stream_by_path now DataKind p)) (\<lambda>r. pureA (map_option ref_id r))
        | ById i \<Rightarrow> pureA (Some i) | Unspecified \<Rightarrow> bad reason) (\<lambda>_. session_ok)"
    by (cases l)
      (auto simp: triple_def seqA_def on_work_def session_ok_def bad_def grows_def
        split: prod.splits sum.splits dest: find_stream_ok)
  show ?thesis unfolding locate_data_def
    by (rule triple_seq [OF l], rule triple_view)
      (auto simp: triple_def split: option.splits simp: bind_eq_Some_conv dest: get_dataD session_okD)
qed

lemma locate_event_ok: "triple session_ok (locate_event now l) (\<lambda>x s. session_ok s \<and> get_event (se_work s) (vs_id x) = Some x)"
proof -
  have l: "triple session_ok (case l of
          ByPath p \<Rightarrow> seqA (on_work (find_stream_by_path now EventKind p)) (\<lambda>r. pureA (map_option ref_id r))
        | ById i \<Rightarrow> pureA (Some i) | Unspecified \<Rightarrow> bad ''specify an id or a path'') (\<lambda>_. session_ok)"
    by (cases l)
      (auto simp: triple_def seqA_def on_work_def session_ok_def bad_def grows_def
        split: prod.splits sum.splits dest: find_stream_ok)
  show ?thesis unfolding locate_event_def
    by (rule triple_seq [OF l], rule triple_view)
      (auto simp: triple_def split: option.splits simp: bind_eq_Some_conv dest: get_eventD session_okD)
qed

lemma locate_folder_ok: "triple session_ok (locate_folder now reason l) (\<lambda>x s. session_ok s \<and> get_folder (se_work s) (fd_id x) = Some x)"
proof -
  have l: "triple session_ok (case l of ByPath p \<Rightarrow> on_work (find_folder now False p) | ById i \<Rightarrow> pureA (Some i)
      | Unspecified \<Rightarrow> bad reason) (\<lambda>_. session_ok)"
    by (cases l)
      (auto simp: triple_def on_work_def bad_def grows_def intro!: post_session_ok
        split: prod.splits dest: find_folder_ok, auto simp: session_ok_def grows_def dest: find_folder_ok)
  show ?thesis unfolding locate_folder_def
    by (rule triple_seq [OF l], rule triple_view)
      (auto simp: triple_def split: option.splits simp: bind_eq_Some_conv dest: get_folderD session_okD)
qed

lemma destination_ok:
  "triple (\<lambda>s. session_ok s \<and> se_work s = c) (destination now l)
     (\<lambda>d s. session_ok s \<and> grows c (se_work s) \<and> d \<in> fst ` set (folders_of (se_work s)))"
proof (cases l)
  case (ByPath p)
  show ?thesis unfolding ByPath
  proof (rule tripleI)
    fix s r s'
    assume s: "session_ok s \<and> se_work s = c" and r: "destination now (ByPath p) s = (r, s')"
    obtain r1 c1 where f: "find_folder now True p c = (r1, c1)" by fastforce
    then have g: "grows c c1" "\<forall>i. r1 = Inr (Some i) \<longrightarrow> i \<in> fst ` set (folders_of c1)"
      using find_folder_ok [of c now True p r1 c1] s by (auto simp: session_ok_def)
    then have "session_ok (s\<lparr>se_work := c1\<rparr>)" "catalog_ok (se_db s)" using s growsD(1) by (simp_all add: session_ok_def)
    moreover have "on_work (find_folder now True p) s = (r1, s\<lparr>se_work := c1\<rparr>)" using f s by (simp add: on_work_def)
    ultimately show "post (\<lambda>d s. session_ok s \<and> grows c (se_work s) \<and> d \<in> fst ` set (folders_of (se_work s))) r s'"
      using r g by (auto simp: destination_def simp del: grows_def split: sum.splits option.splits exn.splits) force
  qed
next
  case (ById i)
  then show ?thesis
    by (auto simp: triple_def destination_def view_def session_ok_def grows_def simp flip: get_folder_ids)
next
  case Unspecified
  then show ?thesis by (auto simp: destination_def intro!: triple_bad)
qed

text \<open>What holds of a catalogue and is kept when folders are added holds after a destination is found.\<close>

lemma destination_frame:
  assumes "\<And>c c'. grows c c' \<Longrightarrow> I c \<Longrightarrow> I c'"
  shows "triple (\<lambda>s. session_ok s \<and> I (se_work s)) (destination now l)
     (\<lambda>d s. (session_ok s \<and> I (se_work s)) \<and> d \<in> fst ` set (folders_of (se_work s)))"
proof (rule tripleI)
  fix s r s'
  assume s: "session_ok s \<and> I (se_work s)" and h: "destination now l s = (r, s')"
  then have "post (\<lambda>d t. session_ok t \<and> grows (se_work s) (se_work t) \<and> d \<in> fst ` set (folders_of (se_work t))) r s'"
    using tripleD [OF destination_ok _ h] by blast
  then show "post (\<lambda>d s. (session_ok s \<and> I (se_work s)) \<and> d \<in> fst ` set (folders_of (se_work s))) r s'"
    using assms s by (cases r) auto
qed

lemma destination_only: "triple session_ok (destination now l) (\<lambda>d s. session_ok s \<and> d \<in> fst ` set (folders_of (se_work s)))"
  using destination_frame [of "\<lambda>_. True"] by simp

lemma triple_change_commit:
  "(\<And>s. P s \<Longrightarrow> catalog_ok (f (se_work s))) \<Longrightarrow> triple P (seqA (change f) (\<lambda>_. commit)) (\<lambda>_. session_ok)"
  by (simp add: triple_def change_def commit_def seqA_def session_ok_def)

section \<open>Streams\<close>

lemma find_map_same: "(\<And>x. P (f x) = P x) \<Longrightarrow> List.find P (map f xs) = map_option f (List.find P xs)"
  by (induction xs) auto

lemma get_update_data: "(\<And>x. ds_id x = i \<Longrightarrow> ds_id (g x) = i) \<Longrightarrow> get_data (update_data i g c) i = map_option g (get_data c i)"
proof -
  assume g: "\<And>x. ds_id x = i \<Longrightarrow> ds_id (g x) = i"
  have "get_data (update_data i g c) i = map_option (\<lambda>x. if ds_id x = i then g x else x) (get_data c i)"
    unfolding get_data_def update_data_def by (simp, rule find_map_same) (use g in auto)
  then show ?thesis by (cases "get_data c i") (auto dest: get_dataD)
qed

lemma get_update_event: "(\<And>x. vs_id x = i \<Longrightarrow> vs_id (g x) = i) \<Longrightarrow> get_event (update_event i g c) i = map_option g (get_event c i)"
proof -
  assume g: "\<And>x. vs_id x = i \<Longrightarrow> vs_id (g x) = i"
  have "get_event (update_event i g c) i = map_option (\<lambda>x. if vs_id x = i then g x else x) (get_event c i)"
    unfolding get_event_def update_event_def by (simp, rule find_map_same) (use g in auto)
  then show ?thesis by (cases "get_event c i") (auto dest: get_eventD)
qed

lemma get_touch_folder [simp]: "get_data (touch_folder now p c) = get_data c" "get_event (touch_folder now p c) = get_event c"
  by (simp_all add: get_data_def get_event_def fun_eq_iff)

lemma get_touch_data: "get_data (touch_data now i c) i = map_option (\<lambda>s. s\<lparr>ds_updated := now\<rparr>) (get_data c i)"
  by (simp add: touch_data_def Let_def get_update_data split: option.split)

lemma get_touch_event: "get_event (touch_event now i c) i = map_option (\<lambda>s. s\<lparr>vs_updated := now\<rparr>) (get_event c i)"
  by (simp add: touch_event_def Let_def get_update_event split: option.split)

lemma data_stream_row: "get_data c i = Some s \<Longrightarrow> (DataRef i, ds_name s, ds_folder s) \<in> set (streams_of c)"
  by (drule get_dataD) (auto simp: streams_of_def)

lemma event_stream_row: "get_event c i = Some s \<Longrightarrow> (EventRef i, vs_name s, vs_folder s) \<in> set (streams_of c)"
  by (drule get_eventD) (auto simp: streams_of_def)

lemma stream_name_valid: "catalog_ok c \<Longrightarrow> get_data c i = Some s \<Longrightarrow> valid_name (ds_name s)"
  "catalog_ok c \<Longrightarrow> get_event c i = Some e \<Longrightarrow> valid_name (vs_name e)"
  by (meson catalog_okD(1) tree_okD(8) data_stream_row event_stream_row)+

lemma move_data_ok:
  assumes "catalog_ok c" "get_data c i = Some s" "d \<in> fst ` set (folders_of c)" "ds_name s \<notin> set (stream_names c d)"
  shows "catalog_ok (touch_folder now d (update_data i (\<lambda>s. s\<lparr>ds_folder := Some d\<rparr>) (touch_data now i c)))"
  unfolding touch_folder_skeleton
  by (rule update_data_ok [where s = "s\<lparr>ds_updated := now\<rparr>" and d = d])
    (use assms stream_name_valid(1) [OF assms(1,2)] get_dataD [OF assms(2)] in
      \<open>auto simp: get_touch_data stream_names_mem\<close>)

lemma move_event_ok:
  assumes "catalog_ok c" "get_event c i = Some s" "d \<in> fst ` set (folders_of c)" "vs_name s \<notin> set (stream_names c d)"
  shows "catalog_ok (touch_folder now d (update_event i (\<lambda>s. s\<lparr>vs_folder := Some d\<rparr>) (touch_folder now old c)))"
  unfolding touch_folder_skeleton
  by (rule update_event_ok [where s = s and d = d])
    (use assms stream_name_valid(2) [OF assms(1,2)] get_eventD [OF assms(2)] in
      \<open>auto simp: stream_names_mem\<close>)

lemma stream_move_ok: "triple session_ok (stream_move now src dest) (\<lambda>_. session_ok)"
  unfolding stream_move_def
  apply (rule triple_seq [OF locate_data_ok])
  apply (intro triple_if triple_bad, simp)
  apply (rule triple_seq [OF destination_frame])
   apply (simp add: growsD(5))
  apply (intro triple_view triple_if triple_rollback_bad triple_change_commit)
   apply (simp add: session_ok_def)
  apply (rule move_data_ok)
     apply (simp_all add: session_ok_def)
  done

lemma event_move_ok: "triple session_ok (event_move now src dest) (\<lambda>_. session_ok)"
  unfolding event_move_def
  apply (rule triple_seq [OF locate_event_ok])
  apply (rule triple_seq [OF destination_frame])
   apply (simp add: growsD(6))
  apply (intro triple_view triple_if triple_rollback_bad)
   apply (simp add: session_ok_def)
  apply (rule triple_option, rule triple_crash, simp, simp add: session_ok_def)
  apply (rule triple_change_commit, rule move_event_ok)
     apply (simp_all add: session_ok_def)
  done

section \<open>Creating streams\<close>

lemma add_data_ok:
  assumes "catalog_ok c" "d \<in> fst ` set (folders_of c)" "valid_name (ds_name s)" "ds_name s \<notin> set (stream_names c d)"
  shows "catalog_ok (touch_data now i (add_data d s c))"
proof -
  let ?j = "ct_data_seq c + 1"
  let ?c = "add_data d s c"
  have seq: "k \<le> ct_data_seq c" if "DataRef k \<in> fst ` set (streams_of c)" for k
    using catalog_okD(2) [OF assms(1)] that by (auto simp: seqs_ok_def)
  then have "DataRef ?j \<notin> fst ` set (streams_of c)" by force
  then have "tree_ok (folders_of c) (streams_of c @ [(DataRef ?j, ds_name s, Some d)])"
    using assms by (intro tree_add_stream catalog_okD(1)) (auto simp: stream_names_mem)
  then have "tree_ok (folders_of c) (streams_of ?c)"
    by (rule tree_streams_cong) (auto simp: streams_of_def add_data_def Let_def)
  moreover have "folders_of ?c = folders_of c" by (simp add: folders_of_def add_data_def Let_def)
  moreover have "seqs_ok ?c" using catalog_okD(2) [OF assms(1)]
    by (auto simp: seqs_ok_def streams_of_def folders_of_def add_data_def Let_def image_Un image_image)
  ultimately have "catalog_ok ?c" unfolding catalog_ok_def by simp
  then show ?thesis by simp
qed

lemma add_event_ok:
  assumes "catalog_ok c" "d \<in> fst ` set (folders_of c)" "valid_name (vs_name s)" "vs_name s \<notin> set (stream_names c d)"
  shows "catalog_ok (touch_event now i (add_event d s c))"
proof -
  let ?j = "ct_event_seq c + 1"
  let ?c = "add_event d s c"
  have seq: "k \<le> ct_event_seq c" if "EventRef k \<in> fst ` set (streams_of c)" for k
    using catalog_okD(2) [OF assms(1)] that by (auto simp: seqs_ok_def)
  then have "EventRef ?j \<notin> fst ` set (streams_of c)" by force
  then have "tree_ok (folders_of c) (streams_of c @ [(EventRef ?j, vs_name s, Some d)])"
    using assms by (intro tree_add_stream catalog_okD(1)) (auto simp: stream_names_mem)
  then have "tree_ok (folders_of c) (streams_of ?c)"
    by (rule tree_streams_cong) (auto simp: streams_of_def add_event_def Let_def)
  moreover have "folders_of ?c = folders_of c" by (simp add: folders_of_def add_event_def Let_def)
  moreover have "seqs_ok ?c" using catalog_okD(2) [OF assms(1)]
    by (auto simp: seqs_ok_def streams_of_def folders_of_def add_event_def Let_def image_Un image_image)
  ultimately have "catalog_ok ?c" unfolding catalog_ok_def by simp
  then show ?thesis by simp
qed

lemma new_stream_name: "bindE (bindE j (stream_from_json now)) check_new_stream = Inr s \<Longrightarrow> valid_name (ds_name s)"
  by (auto simp: res_simps stream_from_json_def check_new_stream_def clean_stream_def
      split: if_splits dest!: validate_name_valid)

lemma new_event_name: "bindE j (event_stream_from_json cats now) = Inr s \<Longrightarrow> valid_name (vs_name s)"
  by (auto simp: res_simps event_stream_from_json_def dest!: validate_name_valid)

lemma triple_sum:
  "(\<And>e. v = Inl e \<Longrightarrow> triple P (f e) Q) \<Longrightarrow> (\<And>x. v = Inr x \<Longrightarrow> triple P (g x) Q) \<Longrightarrow>
   triple P (case v of Inl e \<Rightarrow> f e | Inr x \<Rightarrow> g x) Q"
  by (cases v) simp_all

lemma triple_json_error: "(\<And>s. P s \<Longrightarrow> session_ok s) \<Longrightarrow> triple P (rollback_on_json_error e) Q"
proof -
  assume P: "\<And>s. P s \<Longrightarrow> session_ok s"
  have "triple P (rollback_bad m) Q" for m by (rule triple_rollback_bad) (use P session_okD in blast)
  moreover have "triple P (raiseA e) Q" by (rule triple_raise) (rule P)
  ultimately show ?thesis by (cases e) (simp_all add: rollback_on_json_error_def del: act_simps)
qed

lemma stream_create_ok: "triple session_ok (stream_create now body dest) (\<lambda>_. session_ok)"
  unfolding stream_create_def
  apply (rule triple_option, rule triple_bad, simp)
  apply (rule triple_seq [OF destination_only], rule triple_view, rule triple_sum)
   apply (rule triple_json_error, simp)
  apply (rule triple_if, rule triple_rollback_bad, simp add: session_ok_def)
  apply (rule triple_change_commit, rule add_data_ok)
     apply (auto simp: session_ok_def dest: new_stream_name)
  done

lemma event_create_ok: "triple session_ok (event_create cats now body dest) (\<lambda>_. session_ok)"
  unfolding event_create_def
  apply (rule triple_option, rule triple_bad, simp)
  apply (rule triple_seq [OF destination_only], rule triple_view, rule triple_sum)
   apply (rule triple_json_error, simp)
  apply (rule triple_if, rule triple_rollback_bad, simp add: session_ok_def)
  apply (rule triple_seq [where R = "\<lambda>_. session_ok"])
   apply (rule triple_change)
   apply (auto simp: session_ok_def simp del: touch_event_skeleton intro!: add_event_ok dest: new_event_name)[1]
  apply (rule triple_seq [where R = "\<lambda>_. session_ok"], rule triple_commit, simp add: session_ok_def)
  apply (rule triple_modify, simp)
  done

section \<open>Updating streams\<close>

text \<open>Steps on a row that keep its id and its folder and do not give it a bad name.\<close>

definition quiet :: "'a res \<Rightarrow> bool" where
  "quiet r = (\<forall>e. r = Inl e \<longrightarrow> \<not> is_http e)"

lemma quiet_simps [simp]: "quiet (Inr x)" "quiet (Inl e) = (\<not> is_http e)"
  by (simp_all add: quiet_def)

lemma quiet_bindE: "quiet m \<Longrightarrow> (\<And>x. quiet (f x)) \<Longrightarrow> quiet (bindE m f)"
  by (cases m) auto

definition stays :: "('s \<Rightarrow> 's \<Rightarrow> bool) \<Rightarrow> ('s, 'a) act \<Rightarrow> bool" where
  "stays R f = (\<forall>s. R s (snd (f s)) \<and> quiet (fst (f s)))"

lemma staysD: "stays R f \<Longrightarrow> f s = (r, s') \<Longrightarrow> R s s' \<and> quiet r"
  unfolding stays_def by (drule spec [of _ s]) simp

lemma stays_seq:
  assumes "stays R f" "\<And>x. stays R (g x)" "transp R"
  shows "stays R (seqA f g)"
  unfolding stays_def
proof
  fix s
  obtain r s1 where f: "f s = (r, s1)" by fastforce
  note 1 = staysD [OF assms(1) f]
  show "R s (snd (seqA f g s)) \<and> quiet (fst (seqA f g s))"
  proof (cases r)
    case (Inl e)
    then show ?thesis using f 1 by (simp add: seqA_def)
  next
    case (Inr x)
    then have "seqA f g s = g x s1" using f by (simp add: seqA_def)
    then show ?thesis using 1 assms(2) [of x] transpD [OF assms(3)] by (auto simp: stays_def)
  qed
qed

lemma stays_assign:
  "(\<And>s. R s s) \<Longrightarrow> (\<And>x y s. check x = Inr y \<Longrightarrow> R s (upd y s)) \<Longrightarrow> (\<And>x. quiet (check x)) \<Longrightarrow> stays R (assign a check upd)"
  by (auto simp: stays_def assign_def quiet_def split: option.split sum.split)

definition same_data :: "'f data_stream \<Rightarrow> 'f data_stream \<Rightarrow> bool" where
  "same_data s t = (ds_id t = ds_id s \<and> ds_folder t = ds_folder s \<and> (valid_name (ds_name s) \<longrightarrow> valid_name (ds_name t)))"

definition same_event :: "event_stream \<Rightarrow> event_stream \<Rightarrow> bool" where
  "same_event s t = (vs_id t = vs_id s \<and> vs_folder t = vs_folder s \<and> (valid_name (vs_name s) \<longrightarrow> valid_name (vs_name t)))"

definition same_folder :: "folder \<Rightarrow> folder \<Rightarrow> bool" where
  "same_folder f g = (fd_id g = fd_id f \<and> fd_parent g = fd_parent f \<and> (valid_name (fd_name f) \<longrightarrow> valid_name (fd_name g)))"

lemma transp_same [simp]: "transp same_data" "transp same_event" "transp same_folder"
  by (auto simp: transp_def same_data_def same_event_def same_folder_def)

lemma quiet_checks [simp]:
  "quiet (validate_name n)" "quiet (validate_element_name m)" "quiet (validate_type y)"
  "quiet (validate_chunk_duration v)" "quiet (validate_keep_us w)"
  by (auto simp: quiet_def validate_name_def validate_element_name_def validate_type_def
      validate_chunk_duration_def validate_keep_us_def Let_def split: option.splits if_splits sum.splits)

lemma quiet_event_fields [simp]: "quiet (validate_event_fields cats evf)"
proof -
  have "quiet (mapE f xs)" if "\<And>x. quiet (f x)" for f :: "string \<times> string \<Rightarrow> unit res" and xs
    by (induction xs) (auto intro!: quiet_bindE that)
  moreover have "quiet (validate_event_field cats x)" for x by (simp add: validate_event_field_def Let_def)
  ultimately show ?thesis unfolding validate_event_fields_def by (intro quiet_bindE) auto
qed

lemma stays_catch: "stays R f \<Longrightarrow> \<not> is_http e \<Longrightarrow> stays R (catch_value_error e f)"
proof -
  assume f: "stays R f" and e: "\<not> is_http e"
  have "quiet r \<Longrightarrow> quiet (on_value_error e r)" for r :: "unit res"
    using e by (cases "(e, r)" rule: on_value_error.cases) auto
  then show ?thesis unfolding stays_def catch_value_error_def
    by (auto split: prod.split dest: staysD [OF f])
qed

lemma update_element_stays: "(\<And>v. quiet (to_float v)) \<Longrightarrow> stays (\<lambda>_ _. True) (update_element to_float a)"
proof -
  assume q: "\<And>v. quiet (to_float v)"
  have "quiet (opt_float to_float v)" for v by (simp add: opt_float_def quiet_bindE q split: option.split)
  moreover have "stays (\<lambda>_ _. True) limits_check" by (simp add: stays_def limits_check_def split: option.split)
  ultimately show ?thesis unfolding update_element_def
    by (intro stays_seq stays_assign stays_catch) (auto simp: q transp_def)
qed

lemma update_elements_quiet:
  assumes "\<And>v. quiet (to_float v)"
  shows "update_elements to_float cs es = (r, es') \<Longrightarrow> quiet r"
proof (induction es arbitrary: es')
  case (Cons e es)
  obtain r1 e1 where 1: "update_element to_float (cs ! el_index e) e = (r1, e1)" by fastforce
  obtain r2 es2 where 2: "update_elements to_float cs es = (r2, es2)" by fastforce
  have "quiet r1" using staysD [OF update_element_stays [OF assms] 1] by simp
  then show ?case using Cons 1 2 by (cases r1) (auto split: if_splits)
qed auto

lemma update_stream_stays:
  assumes "\<And>v. quiet (to_float v)"
  shows "stays same_data (update_stream to_float a)"
  unfolding update_stream_def
  by (intro stays_seq stays_assign transp_same)
    (auto simp: same_data_def stays_def validate_name_valid split: option.split prod.split
      dest: update_elements_quiet [OF assms])

lemma update_event_stream_stays: "stays same_event (update_event_stream cats a)"
  unfolding update_event_stream_def
  by (intro stays_seq stays_assign transp_same) (auto simp: same_event_def validate_name_valid)

lemma update_folder_stays: "stays same_folder (update_folder_attributes a)"
  unfolding update_folder_attributes_def
  by (intro stays_seq stays_assign transp_same) (auto simp: same_folder_def validate_name_valid)

lemma other_names_mem:
  "n \<in> set (other_names c d i) \<longleftrightarrow> (\<exists>r. (r, n, Some d) \<in> set (streams_of c) \<and> r \<noteq> DataRef i \<and> r \<noteq> EventRef i)"
  (is "?l \<longleftrightarrow> ?r")
proof
  assume ?l
  then consider s where "s \<in> set (ct_data c)" "ds_folder s = Some d" "ds_id s \<noteq> i" "ds_name s = n"
    | s where "s \<in> set (ct_events c)" "vs_folder s = Some d" "vs_id s \<noteq> i" "vs_name s = n"
    by (auto simp: other_names_def data_in_def events_in_def)
  then show ?r
  proof cases
    case (1 s)
    then show ?thesis by (intro exI [of _ "DataRef (ds_id s)"]) (force simp: streams_of_def)
  next
    case (2 s)
    then show ?thesis by (intro exI [of _ "EventRef (vs_id s)"]) (force simp: streams_of_def)
  qed
next
  assume ?r
  then show ?l by (auto simp: other_names_def data_in_def events_in_def streams_of_def)
qed

text \<open>No event stream shares folder and id with a data stream.\<close>

definition twin_free :: "'f catalog \<Rightarrow> bool" where
  "twin_free c = (\<forall>i m n p. (DataRef i, m, p) \<in> set (streams_of c) \<longrightarrow> (EventRef i, n, p) \<notin> set (streams_of c))"

lemma twin_freeD: "twin_free c \<Longrightarrow> (DataRef i, m, p) \<in> set (streams_of c) \<Longrightarrow> (EventRef i, n, p) \<notin> set (streams_of c)"
  by (auto simp: twin_free_def)

text \<open>The catalogue with a row replaced, up to times.\<close>

definition changed :: "'f catalog \<Rightarrow> 'f session \<Rightarrow> bool" where
  "changed u t = (catalog_ok (se_db t) \<and> catalog_ok (se_work t) = catalog_ok u \<and> streams_of (se_work t) = streams_of u)"

lemma work_stream_ok:
  assumes "get_data c i = Some s" "stays same_data f"
  shows "triple (\<lambda>t. session_ok t \<and> se_work t = c) (work_stream i f)
     (\<lambda>_ t. \<exists>s'. same_data s s' \<and> changed (update_data i (\<lambda>_. s') c) t)"
proof (rule tripleI)
  fix t r t'
  assume t: "session_ok t \<and> se_work t = c" and h: "work_stream i f t = (r, t')"
  obtain r1 s1 where f: "f s = (r1, s1)" by fastforce
  have "r = r1" "t' = t\<lparr>se_work := update_data i (\<lambda>_. s1) c\<rparr>"
    using h t assms(1) f by (auto simp: work_stream_def on_work_def)
  then show "post (\<lambda>_ t. \<exists>s'. same_data s s' \<and> changed (update_data i (\<lambda>_. s') c) t) r t'"
    using staysD [OF assms(2) f] t by (cases r1) (auto simp: changed_def session_ok_def)
qed

lemma work_event_ok:
  assumes "get_event c i = Some s" "stays same_event f"
  shows "triple (\<lambda>t. session_ok t \<and> se_work t = c) (work_event i f)
     (\<lambda>_ t. \<exists>s'. same_event s s' \<and> changed (update_event i (\<lambda>_. s') c) t)"
proof (rule tripleI)
  fix t r t'
  assume t: "session_ok t \<and> se_work t = c" and h: "work_event i f t = (r, t')"
  obtain r1 s1 where f: "f s = (r1, s1)" by fastforce
  have "r = r1" "t' = t\<lparr>se_work := update_event i (\<lambda>_. s1) c\<rparr>"
    using h t assms(1) f by (auto simp: work_event_def on_work_def)
  then show "post (\<lambda>_ t. \<exists>s'. same_event s s' \<and> changed (update_event i (\<lambda>_. s') c) t) r t'"
    using staysD [OF assms(2) f] t by (cases r1) (auto simp: changed_def session_ok_def)
qed

lemma triple_prod: "(\<And>a b. v = (a, b) \<Longrightarrow> triple P (f a b) Q) \<Longrightarrow> triple P (case v of (a, b) \<Rightarrow> f a b) Q"
  by (cases v) simp

lemma triple_when_change:
  "(\<And>s. P s \<Longrightarrow> P (s\<lparr>se_work := f (se_work s)\<rparr>)) \<Longrightarrow> triple P (whenA b (change f)) (\<lambda>_. P)"
  by (simp add: triple_def whenA_def change_def pureA_def)

lemma renamed_data_ok:
  assumes "catalog_ok c" "get_data c i = Some s" "same_data s s'" "twin_free c"
    and "changed (update_data i (\<lambda>_. s') c) t" "get_data (se_work t) i = Some x" "ds_folder x = Some d"
    and "ds_name x \<notin> set (other_names (se_work t) d i)"
  shows "catalog_ok (se_work t)"
proof -
  note s = data_stream_row [OF assms(2)] get_dataD [OF assms(2)]
  have s': "ds_id s' = i" "ds_folder s' = ds_folder s" "valid_name (ds_name s')"
    using assms(3) s stream_name_valid(1) [OF assms(1,2)] by (auto simp: same_data_def)
  have S: "streams_of (se_work t) = put_row (DataRef i) (ds_name s', ds_folder s') (streams_of c)"
    using assms(5) streams_update_data [OF assms(1,2), of "\<lambda>_. s'"] s' by (simp add: changed_def)
  have x: "ds_name x = ds_name s'" "ds_folder s' = Some d"
    using data_stream_row [OF assms(6)] assms(7) unfolding S by (auto simp: put_row_mem)
  have "(r, ds_name s', Some d) \<notin> set (streams_of c)" if "r \<noteq> DataRef i" for r
  proof
    assume r: "(r, ds_name s', Some d) \<in> set (streams_of c)"
    then have "(r, ds_name x, Some d) \<in> set (streams_of (se_work t))" using that x unfolding S by (simp add: put_row_mem)
    then have "r = EventRef i" using assms(8) that unfolding other_names_mem by blast
    then show False using twin_freeD [OF assms(4) s(1)] r s' x by auto
  qed
  moreover have "d \<in> fst ` set (folders_of c)"
    using tree_okD(9) [OF catalog_okD(1) [OF assms(1)] s(1)] s' x by force
  ultimately have "catalog_ok (update_data i (\<lambda>_. s') c)"
    using s' x by (intro update_data_ok [OF assms(1,2)]) auto
  then show ?thesis using assms(5) by (simp add: changed_def)
qed

lemma renamed_event_ok:
  assumes "catalog_ok c" "get_event c i = Some s" "same_event s s'" "twin_free c"
    and "changed (update_event i (\<lambda>_. s') c) t" "get_event (se_work t) i = Some x" "vs_folder x = Some d"
    and "vs_name x \<notin> set (other_names (se_work t) d i)"
  shows "catalog_ok (se_work t)"
proof -
  note s = event_stream_row [OF assms(2)] get_eventD [OF assms(2)]
  have s': "vs_id s' = i" "vs_folder s' = vs_folder s" "valid_name (vs_name s')"
    using assms(3) s stream_name_valid(2) [OF assms(1,2)] by (auto simp: same_event_def)
  have S: "streams_of (se_work t) = put_row (EventRef i) (vs_name s', vs_folder s') (streams_of c)"
    using assms(5) streams_update_event [OF assms(1,2), of "\<lambda>_. s'"] s' by (simp add: changed_def)
  have x: "vs_name x = vs_name s'" "vs_folder s' = Some d"
    using event_stream_row [OF assms(6)] assms(7) unfolding S by (auto simp: put_row_mem)
  have "(r, vs_name s', Some d) \<notin> set (streams_of c)" if "r \<noteq> EventRef i" for r
  proof
    assume r: "(r, vs_name s', Some d) \<in> set (streams_of c)"
    then have "(r, vs_name x, Some d) \<in> set (streams_of (se_work t))" using that x unfolding S by (simp add: put_row_mem)
    then have "r = DataRef i" using assms(8) that unfolding other_names_mem by blast
    then show False using twin_freeD [OF assms(4)] r s s' x by auto
  qed
  moreover have "d \<in> fst ` set (folders_of c)"
    using tree_okD(9) [OF catalog_okD(1) [OF assms(1)] s(1)] s' x by force
  ultimately have "catalog_ok (update_event i (\<lambda>_. s') c)"
    using s' x by (intro update_event_ok [OF assms(1,2)]) auto
  then show ?thesis using assms(5) by (simp add: changed_def)
qed

lemma changed_touch [simp]:
  "changed u (t\<lparr>se_work := touch_data now i (se_work t)\<rparr>) = changed u t"
  "changed u (t\<lparr>se_work := touch_event now i (se_work t)\<rparr>) = changed u t"
  by (simp_all add: changed_def)

lemma stream_update_ok:
  assumes "\<And>v. quiet (to_float v)"
  shows "triple (\<lambda>t. session_ok t \<and> twin_free (se_work t)) (stream_update now to_float i attrs) (\<lambda>_. session_ok)"
  unfolding stream_update_def
  apply (rule triple_option, rule triple_bad, simp)
  apply (rule triple_view, rule triple_option, rule triple_raise, simp)
  apply (rule triple_if, rule triple_bad, simp)
  apply (rule triple_option, rule triple_bad, simp)
  apply (rule triple_input_error)
  subgoal for i c s a
    apply (rule triple_seq [where R = "\<lambda>_ t. (catalog_ok c \<and> twin_free c)
        \<and> (\<exists>s'. same_data s s' \<and> changed (update_data i (\<lambda>_. s') c) t)"])
     apply (rule triple_fixed [OF triple_pre [OF work_stream_ok [of c i s]]])
        apply (auto simp: update_stream_stays assms session_ok_def)[4]
    apply (rule triple_seq [OF triple_when_change], simp)
    apply (rule triple_view, rule triple_option, rule triple_crash, simp, force simp: changed_def)
    apply (rule triple_prod, rule triple_if, rule triple_crash, simp, force simp: changed_def)
    apply (rule triple_commit, elim conjE exE, rule renamed_data_ok)
           apply (auto simp: bind_eq_Some_conv)
    done
  done

lemma event_update_ok:
  "triple (\<lambda>t. session_ok t \<and> twin_free (se_work t)) (event_update cats now i attrs) (\<lambda>_. session_ok)"
  unfolding event_update_def
  apply (rule triple_option, rule triple_bad, simp)
  apply (rule triple_view, rule triple_option, rule triple_raise, simp)
  apply (rule triple_option, rule triple_bad, simp)
  apply (rule triple_input_error)
  subgoal for i c s a
    apply (rule triple_seq [where R = "\<lambda>_ t. (catalog_ok c \<and> twin_free c)
        \<and> (\<exists>s'. same_event s s' \<and> changed (update_event i (\<lambda>_. s') c) t)"])
     apply (rule triple_fixed [OF triple_pre [OF work_event_ok [of c i s]]])
        apply (auto simp: update_event_stream_stays session_ok_def)[4]
    apply (rule triple_seq [OF triple_when_change], simp)
    apply (rule triple_view, rule triple_option, rule triple_crash, simp, force simp: changed_def)
    apply (rule triple_prod, rule triple_if, rule triple_crash, simp, force simp: changed_def)
    apply (rule triple_commit, elim conjE exE, rule renamed_event_ok)
           apply (auto simp: bind_eq_Some_conv)
    done
  done

section \<open>Deleting streams\<close>

lemma remove_skeleton:
  "folders_of (remove_data i c) = folders_of c" "folders_of (remove_event i c) = folders_of c"
  "streams_of (remove_data i c) = filter (\<lambda>x. fst x \<noteq> DataRef i) (streams_of c)"
  "streams_of (remove_event i c) = filter (\<lambda>x. fst x \<noteq> EventRef i) (streams_of c)"
  by (auto simp: remove_data_def remove_event_def folders_of_def streams_of_def filter_map comp_def)

lemma seqs_ok_less:
  assumes "seqs_ok c" "set (folders_of c') \<subseteq> set (folders_of c)" "set (streams_of c') \<subseteq> set (streams_of c)"
    and "ct_folder_seq c' = ct_folder_seq c" "ct_data_seq c' = ct_data_seq c" "ct_event_seq c' = ct_event_seq c"
  shows "seqs_ok c'"
proof -
  have F: "i \<le> ct_folder_seq c" if "(i, x) \<in> set (folders_of c')" for i x
    using assms(1) subsetD [OF assms(2) that] by (auto simp: seqs_ok_def)
  have S: "r \<in> fst ` set (streams_of c)" if "(r, x) \<in> set (streams_of c')" for r x
    using imageI [OF subsetD [OF assms(3) that], of fst] by simp
  have "i \<le> ct_data_seq c" if "(DataRef i, x) \<in> set (streams_of c')" for i x
    using assms(1) S [OF that] by (simp add: seqs_ok_def)
  moreover have "i \<le> ct_event_seq c" if "(EventRef i, x) \<in> set (streams_of c')" for i x
    using assms(1) S [OF that] by (simp add: seqs_ok_def)
  ultimately show ?thesis unfolding seqs_ok_def assms(4-6) by (auto dest: F)
qed

lemma remove_stream_ok:
  assumes "catalog_ok c"
  shows "catalog_ok (remove_data i c)" "catalog_ok (remove_event i c)"
proof -
  note tree = tree_filter_streams [OF catalog_okD(1) [OF assms]]
  note seqs = seqs_ok_less [OF catalog_okD(2) [OF assms]]
  have "seqs_ok (remove_data i c)" by (rule seqs) (simp_all add: remove_skeleton, simp_all add: remove_data_def)
  moreover have "seqs_ok (remove_event i c)" by (rule seqs) (simp_all add: remove_skeleton, simp_all add: remove_event_def)
  ultimately show "catalog_ok (remove_data i c)" "catalog_ok (remove_event i c)"
    using tree by (simp_all add: catalog_ok_def remove_skeleton)
qed

lemma stream_delete_ok: "triple session_ok (stream_delete now l) (\<lambda>_. session_ok)"
  unfolding stream_delete_def
  apply (rule triple_seq [OF locate_data_ok])
  apply (rule triple_if, rule triple_bad, simp)
  apply (rule triple_seq [where R = "\<lambda>_. session_ok"], rule triple_destroy, simp)
  apply (rule triple_option, rule triple_crash, simp, simp add: session_ok_def)
  apply (rule triple_change_commit, rule remove_stream_ok, simp add: session_ok_def)
  done

lemma event_delete_ok: "triple session_ok (event_delete now l) (\<lambda>_. session_ok)"
  unfolding event_delete_def
  apply (rule triple_seq [OF locate_event_ok])
  apply (rule triple_seq [where R = "\<lambda>_. session_ok"], rule triple_destroy, simp)
  apply (rule triple_option, rule triple_crash, simp, simp add: session_ok_def)
  apply (rule triple_change_commit, rule remove_stream_ok, simp add: session_ok_def)
  done

end
