(* ===== verification/Catalogue_Folders.thy ===== *)
theory Catalogue_Folders
  imports Catalogue_Safety
begin

text \<open>
  The handlers that move, rename and delete folders keep the catalogue well-formed, and with them every
  request on the catalogue.
\<close>

section \<open>Renaming\<close>

lemma work_folder_ok:
  assumes "get_folder c i = Some f" "stays same_folder g"
  shows "triple (\<lambda>t. session_ok t \<and> se_work t = c) (work_folder i g)
     (\<lambda>_ t. \<exists>f'. same_folder f f' \<and> catalog_ok (se_db t) \<and> se_work t = update_folder i (\<lambda>_. f') c)"
proof (rule tripleI)
  fix t r t'
  assume t: "session_ok t \<and> se_work t = c" and h: "work_folder i g t = (r, t')"
  obtain r1 f1 where g: "g f = (r1, f1)" by fastforce
  have "r = r1" "t' = t\<lparr>se_work := update_folder i (\<lambda>_. f1) c\<rparr>"
    using h t assms(1) g by (auto simp: work_folder_def on_work_def)
  then show "post (\<lambda>_ t. \<exists>f'. same_folder f f' \<and> catalog_ok (se_db t) \<and> se_work t = update_folder i (\<lambda>_. f') c) r t'"
    using staysD [OF assms(2) g] t by (cases r1) (auto simp: session_ok_def)
qed

text \<open>The path of a folder is kept when a row changes that the path does not pass.\<close>

lemma at_path_put_row:
  "at_path F ns j \<Longrightarrow> at_path (put_row i v F) ns j \<or> (\<exists>ms ks. at_path F ms i \<and> ns = ms @ ks)"
proof (induction rule: at_path.induct)
  case (top j m)
  then show ?case by (cases "j = i") (auto intro!: at_path.intros simp: put_row_mem)
next
  case (below ns p j m)
  show ?case
  proof (cases "j = i")
    case True
    then show ?thesis using at_path.below [OF below.hyps] by (metis append_Nil2)
  next
    case False
    then have "(j, Some p, m) \<in> set (put_row i v F)" using below.hyps(2) by (simp add: put_row_mem)
    then show ?thesis using below.IH by (auto intro: at_path.below)
  qed
qed

lemma change_folder_ok:
  assumes "catalog_ok c" "get_folder c i = Some f" "fd_id (g f) = i" "fd_parent f = Some q" "fd_parent (g f) = Some p"
    and "valid_name (fd_name (g f))" "\<And>j. j \<noteq> i \<Longrightarrow> (j, Some p, fd_name (g f)) \<notin> set (folders_of c)"
    and "\<exists>ns. at_path (put_row i (Some p, fd_name (g f)) (folders_of c)) ns p"
  shows "catalog_ok (update_folder i g c)"
proof -
  have "tree_ok (put_row i (Some p, fd_name (g f)) (folders_of c)) (streams_of c)"
    using tree_change_folder [OF catalog_okD(1) [OF assms(1)] _ assms(6-8)] get_folder_mem [OF assms(2)] assms(4) by simp
  then show ?thesis
    using folders_update_folder [OF assms(1,2), of g, OF assms(3)] assms(5) catalog_okD(2) [OF assms(1)]
    by (simp add: catalog_ok_def seqs_ok_def)
qed

lemma children_mem: "f \<in> set (children c p) \<longleftrightarrow> f \<in> set (ct_folders c) \<and> fd_parent f = Some p"
  by (auto simp: children_def)

lemma renamed_folder_ok:
  assumes "catalog_ok c" "get_folder c i = Some f" "same_folder f f'"
    and "get_folder (update_folder i (\<lambda>_. f') c) i = Some x" "fd_parent x = Some p"
    and "fd_name x \<notin> set (map fd_name (filter (\<lambda>g. fd_id g \<noteq> i) (children (update_folder i (\<lambda>_. f') c) p)))"
  shows "catalog_ok (update_folder i (\<lambda>_. f') c)"
proof -
  let ?c = "update_folder i (\<lambda>_. f') c"
  note f = get_folderD [OF assms(2)] get_folder_mem [OF assms(2)]
  have f': "fd_id f' = i" "fd_parent f' = fd_parent f" using assms(3) f by (auto simp: same_folder_def)
  have F: "folders_of ?c = put_row i (fd_parent f', fd_name f') (folders_of c)"
    by (rule folders_update_folder [OF assms(1,2)]) (rule f'(1))
  have x: "fd_name x = fd_name f'" "fd_parent f = Some p"
    using get_folder_mem [OF assms(4)] assms(5) f' unfolding F by (auto simp: put_row_mem)
  have row: "(i, Some p, fd_name f) \<in> set (folders_of c)" using f x by simp
  have "valid_name (fd_name f')"
    using assms(3) tree_okD(5) [OF catalog_okD(1) [OF assms(1)] row] by (simp add: same_folder_def)
  moreover have "(j, Some p, fd_name f') \<notin> set (folders_of c)" if "j \<noteq> i" for j
  proof
    assume "(j, Some p, fd_name f') \<in> set (folders_of c)"
    then have "(j, Some p, fd_name f') \<in> set (folders_of ?c)" using that unfolding F by (simp add: put_row_mem)
    then obtain g where g: "g \<in> set (ct_folders ?c)" "fd_id g = j" "fd_parent g = Some p" "fd_name g = fd_name f'"
      by (auto simp: folders_of_mem)
    then have "g \<in> set (filter (\<lambda>g. fd_id g \<noteq> i) (children ?c p))" using that by (simp add: children_mem)
    then have "fd_name x \<in> set (map fd_name (filter (\<lambda>g. fd_id g \<noteq> i) (children ?c p)))"
      using g(4) x(1) by (metis imageI list.set_map)
    then show False using assms(6) by contradiction
  qed
  moreover have "\<exists>ns. at_path (put_row i (Some p, fd_name f') (folders_of c)) ns p"
  proof -
    obtain ns where ns: "at_path (folders_of c) ns p"
      using at_path_anchor tree_parent row catalog_okD(1) [OF assms(1)] by meson
    have "\<not> (\<exists>ms ks. at_path (folders_of c) ms i \<and> ns = ms @ ks)"
    proof (intro notI, elim exE conjE)
      fix ms ks
      assume ms: "at_path (folders_of c) ms i" "ns = ms @ ks"
      have "at_path (folders_of c) (ns @ [fd_name f]) i" by (rule at_path.below [OF ns row])
      then have "ns @ [fd_name f] = ms"
        by (rule at_path_unique [OF tree_okD(1) [OF catalog_okD(1) [OF assms(1)]] _ ms(1)])
      then show False using ms(2) by simp
    qed
    then show ?thesis using at_path_put_row [OF ns] by blast
  qed
  ultimately show ?thesis
    using f' x change_folder_ok [OF assms(1,2), of "\<lambda>_. f'" p p] by simp
qed

lemma folder_update_ok: "triple session_ok (folder_update now i attrs) (\<lambda>_. session_ok)"
  unfolding folder_update_def
  apply (rule triple_option, rule triple_bad, simp)
  apply (rule triple_view, rule triple_option, rule triple_raise, simp)
  apply (rule triple_if, rule triple_bad, simp)
  apply (rule triple_option, rule triple_bad, simp)
  apply (rule triple_input_error)
  subgoal for i c f a
    apply (rule triple_seq [where R = "\<lambda>_ t. catalog_ok c
        \<and> (\<exists>f'. same_folder f f' \<and> catalog_ok (se_db t) \<and> se_work t = update_folder i (\<lambda>_. f') c)"])
     apply (rule triple_fixed [OF triple_pre [OF work_folder_ok [of c i f]]])
        apply (auto simp: update_folder_stays session_ok_def)[4]
    apply (rule triple_view, rule triple_option, rule triple_crash, simp, force)
    apply (rule triple_prod, rule triple_if, rule triple_rollback_bad, force)
    apply (rule triple_change_commit)
    unfolding touch_folder_skeleton
    apply (elim conjE exE, hypsubst, simp only:, rule renamed_folder_ok)
         apply (auto simp: bind_eq_Some_conv)
    done
  done

section \<open>Moving\<close>

text \<open>The flush finds a folder that is its own parent.\<close>

definition finds_loops :: "('f catalog \<Rightarrow> bool) \<Rightarrow> bool" where
  "finds_loops circular = (\<forall>c. \<forall>f \<in> set (ct_folders c). fd_parent f = Some (fd_id f) \<longrightarrow> circular c)"

lemma at_path_above:
  assumes "distinct (map fst (folders_of c))"
  shows "at_path (folders_of c) ns d \<Longrightarrow> length ns < n \<Longrightarrow> \<not> above n c i (Some d) \<Longrightarrow> at_path (put_row i v (folders_of c)) ns d"
proof (induction arbitrary: n rule: at_path.induct)
  case (top j m)
  then obtain k where "n = Suc k" by (cases n) auto
  then show ?case using top by (auto intro!: at_path.top simp: put_row_mem)
next
  case (below ns p j m)
  then obtain k where n: "n = Suc k" "length ns < k" by (cases n) auto
  then have "j \<noteq> i" "\<not> above k c i (Some p)"
    using below.prems(2) get_folder_row [OF assms below.hyps(2)] by auto
  then show ?case using below.IH [OF n(2)] below.hyps(2) by (auto intro!: at_path.below simp: put_row_mem)
qed

lemma move_folder_ok:
  assumes "catalog_ok c" "get_folder c i = Some f" "fd_parent f = Some q" "d \<in> fst ` set (folders_of c)" "d \<noteq> i"
    and "fd_name f \<notin> set (map fd_name (children c d))"
    and "\<not> above (length (ct_folders c)) c i (Option.bind (get_folder c d) fd_parent)"
  shows "catalog_ok (update_folder i (\<lambda>f. f\<lparr>fd_parent := Some d\<rparr>) c)"
proof (rule change_folder_ok [OF assms(1,2), where p = d and q = q])
  note tree = catalog_okD(1) [OF assms(1)]
  note f = get_folderD [OF assms(2)] get_folder_mem [OF assms(2)]
  show "valid_name (fd_name (f\<lparr>fd_parent := Some d\<rparr>))" using tree_okD(5) [OF tree] f assms(3) by simp
  show "(j, Some d, fd_name (f\<lparr>fd_parent := Some d\<rparr>)) \<notin> set (folders_of c)" for j
    using assms(6) by (simp add: folders_of_mem children_def image_iff) metis
  obtain ns where ns: "at_path (folders_of c) ns d" using at_path_anchor [OF tree assms(4)] by blast
  have "length ns < Suc (length (ct_folders c))"
    using at_path_length [OF tree_okD(1) [OF tree] ns] by (simp add: folders_of_def)
  moreover have "\<not> above (Suc (length (ct_folders c))) c i (Some d)" using assms(5,7) by simp
  ultimately have "at_path (put_row i (Some d, fd_name f) (folders_of c)) ns d"
    by (rule at_path_above [OF tree_okD(1) [OF tree] ns])
  then show "\<exists>ns. at_path (put_row i (Some d, fd_name (f\<lparr>fd_parent := Some d\<rparr>)) (folders_of c)) ns d" by auto
qed (use assms(3) get_folderD [OF assms(2)] in simp_all)

text \<open>The look of a folder that touching keeps.\<close>

lemma get_touched:
  assumes "catalog_ok c" "get_folder c i = Some f"
  shows "\<exists>f'. get_folder (touch_folder now j c) i = Some f' \<and> fd_id f' = i \<and> fd_parent f' = fd_parent f \<and> fd_name f' = fd_name f"
proof (rule get_folder_row)
  show "distinct (map fst (folders_of (touch_folder now j c)))"
    using tree_okD(1) [OF catalog_okD(1) [OF assms(1)]] by simp
  show "(i, fd_parent f, fd_name f) \<in> set (folders_of (touch_folder now j c))" using get_folder_mem [OF assms(2)] by simp
qed

lemma moved_touched:
  assumes "catalog_ok c" "get_folder c i = Some f"
  shows "catalog_ok (update_folder i (\<lambda>f. f\<lparr>fd_parent := Some d\<rparr>) (touch_folder now j (touch_folder now k c)))
    = catalog_ok (update_folder i (\<lambda>f. f\<lparr>fd_parent := Some d\<rparr>) c)"
proof -
  let ?g = "\<lambda>f :: folder. f\<lparr>fd_parent := Some d\<rparr>"
  let ?c = "touch_folder now j (touch_folder now k c)"
  have ok: "catalog_ok (touch_folder now k c)" "catalog_ok ?c" using assms(1) by simp_all
  obtain f' where f': "get_folder ?c i = Some f'" "fd_id f' = i" "fd_name f' = fd_name f"
    using get_touched [OF assms] get_touched [OF ok(1)] by metis
  have "folders_of (update_folder i ?g ?c) = folders_of (update_folder i ?g c)"
    using folders_update_folder [OF ok(2) f'(1), of ?g] folders_update_folder [OF assms, of ?g] f' get_folderD [OF assms(2)]
    by simp
  then show ?thesis by (simp add: catalog_ok_def seqs_ok_def)
qed

lemma not_locked_parent: "get_folder c i = Some f \<Longrightarrow> \<not> locked c f \<Longrightarrow> \<exists>q. fd_parent f = Some q"
  by (drule get_folderD, cases "ct_folders c") (auto simp: locked_def)

lemma move_step_ok:
  assumes "finds_loops circular" "get_folder c i = Some f" "catalog_ok c" "fd_parent f = Some q"
    and "d \<in> fst ` set (folders_of c)" "fd_name f \<notin> set (map fd_name (children c d))"
    and "\<not> above (length (ct_folders c)) c i (Option.bind (get_folder c d) fd_parent)"
    and "\<not> circular (update_folder i (\<lambda>f. f\<lparr>fd_parent := Some d\<rparr>) (touch_folder now d (touch_folder now i c)))"
  shows "catalog_ok (update_folder i (\<lambda>f. f\<lparr>fd_parent := Some d\<rparr>) (touch_folder now d (touch_folder now i c)))"
proof -
  let ?g = "\<lambda>f :: folder. f\<lparr>fd_parent := Some d\<rparr>"
  let ?c = "touch_folder now d (touch_folder now i c)"
  have "catalog_ok (touch_folder now i c)" using assms(3) by simp
  then obtain f' where f': "get_folder ?c i = Some f'"
    using get_touched [OF assms(3,2)] get_touched by metis
  then have "?g f' \<in> set (ct_folders (update_folder i ?g ?c))" "fd_id f' = i"
    using get_folderD [OF f'] by (auto simp: update_folder_def)
  then have "d \<noteq> i" using assms(1,8) unfolding finds_loops_def by fastforce
  then show ?thesis
    unfolding moved_touched [OF assms(3,2)] using move_folder_ok [OF assms(3,2,4,5)] assms(6,7) by blast
qed

lemma folder_move_ok:
  assumes "finds_loops circular"
  shows "triple session_ok (folder_move circular now src dest) (\<lambda>_. session_ok)"
  unfolding folder_move_def Let_def
  apply (rule triple_seq [OF locate_folder_ok], rule triple_view)
  apply (rule triple_if, rule triple_bad, simp)
  subgoal for x c0
    apply (rule triple_seq [OF triple_pre [OF destination_frame [where I = "\<lambda>c. \<exists>f q. get_folder c (fd_id x) = Some f
        \<and> fd_id f = fd_id x \<and> fd_parent f = Some q \<and> fd_name f = fd_name x"]]])
      apply (elim exE conjE, drule grows_folder, assumption, force)
     apply (force dest: not_locked_parent)
    apply (intro triple_view triple_if triple_rollback_bad)
       apply (simp_all add: session_ok_def)[3]
    apply (rule triple_change_commit, elim conjE exE, hypsubst)
    apply (erule move_step_ok [OF assms])
         apply (simp_all add: session_ok_def)
    done
  done

section \<open>Deleting\<close>

text \<open>Facts that stay true when rows are removed.\<close>

definition shrinks :: "'f catalog \<Rightarrow> 'f catalog \<Rightarrow> bool" where
  "shrinks c c' = (set (folders_of c') \<subseteq> set (folders_of c) \<and> set (streams_of c') \<subseteq> set (streams_of c))"

definition lasting :: "('f catalog \<Rightarrow> bool) \<Rightarrow> bool" where
  "lasting P = (\<forall>c c'. P c \<longrightarrow> shrinks c c' \<longrightarrow> P c')"

definition stream_gone :: "stream_ref \<Rightarrow> 'f catalog \<Rightarrow> bool" where
  "stream_gone r c = (\<forall>x. (r, x) \<notin> set (streams_of c))"

definition folder_gone :: "int \<Rightarrow> 'f catalog \<Rightarrow> bool" where
  "folder_gone i c = (\<forall>x. (i, x) \<notin> set (folders_of c))"

definition no_streams :: "int \<Rightarrow> 'f catalog \<Rightarrow> bool" where
  "no_streams i c = (\<forall>r n. (r, n, Some i) \<notin> set (streams_of c))"

definition no_children :: "int \<Rightarrow> 'f catalog \<Rightarrow> bool" where
  "no_children i c = (\<forall>j n. (j, Some i, n) \<notin> set (folders_of c))"

lemma lasting_intros [intro]:
  "lasting P \<Longrightarrow> lasting Q \<Longrightarrow> lasting (\<lambda>c. P c \<and> Q c)" "(\<And>i. lasting (R i)) \<Longrightarrow> lasting (\<lambda>c. \<forall>i \<in> A. R i c)"
  "lasting (stream_gone r)" "lasting (folder_gone i)" "lasting (no_streams i)" "lasting (no_children i)" "lasting (\<lambda>c. B)"
  unfolding lasting_def shrinks_def stream_gone_def folder_gone_def no_streams_def no_children_def by blast+

lemma lastingD: "lasting P \<Longrightarrow> P c \<Longrightarrow> shrinks c c' \<Longrightarrow> P c'"
  unfolding lasting_def by blast

lemma shrinks_remove: "shrinks c (remove_data i c)" "shrinks c (remove_event i c)" "shrinks c (remove_folder i c)"
  unfolding shrinks_def remove_skeleton
  by (auto simp: remove_folder_def folders_of_def streams_of_def)

lemma remove_gone: "stream_gone (DataRef i) (remove_data i c)" "stream_gone (EventRef i) (remove_event i c)"
  "folder_gone i (remove_folder i c)"
  unfolding stream_gone_def folder_gone_def remove_skeleton by (auto simp: remove_folder_def folders_of_def)

lemma remove_folder_ok:
  assumes "catalog_ok c" "no_streams i c" "no_children i c"
  shows "catalog_ok (remove_folder i c)"
proof -
  have F: "folders_of (remove_folder i c) = filter (\<lambda>x. fst x \<noteq> i) (folders_of c)"
    by (simp add: remove_folder_def folders_of_def filter_map comp_def)
  have S: "streams_of (remove_folder i c) = streams_of c" by (simp add: remove_folder_def streams_of_def)
  have "tree_ok (folders_of (remove_folder i c)) (streams_of (remove_folder i c))"
    unfolding F S by (rule tree_remove_folder [OF catalog_okD(1) [OF assms(1)]])
      (use assms(2,3) in \<open>simp_all add: no_streams_def no_children_def\<close>)
  moreover have "seqs_ok (remove_folder i c)"
    by (rule seqs_ok_less [OF catalog_okD(2) [OF assms(1)]]) (auto simp: F S, simp_all add: remove_folder_def)
  ultimately show ?thesis by (simp add: catalog_ok_def)
qed

text \<open>Inside a handler that removes rows: the session stays well-formed and \<open>P\<close> stays true.\<close>

abbreviation removing :: "('f catalog \<Rightarrow> bool) \<Rightarrow> 'f session \<Rightarrow> bool" where
  "removing P s \<equiv> session_ok s \<and> P (se_work s)"

lemma triple_post: "triple P h Q \<Longrightarrow> (\<And>x s. Q x s \<Longrightarrow> R x s) \<Longrightarrow> triple P h R"
proof -
  assume h: "triple P h Q" and QR: "\<And>x s. Q x s \<Longrightarrow> R x s"
  have "post Q r s \<Longrightarrow> post R r s" for r s using QR by (cases r) auto
  then show ?thesis using h unfolding triple_def by blast
qed

lemma delete_data_streams_ok:
  "lasting P \<Longrightarrow> triple (removing P) (delete_data_streams ss)
     (\<lambda>_. removing (\<lambda>c. P c \<and> (\<forall>r \<in> set (map (\<lambda>s. DataRef (ds_id s)) ss). stream_gone r c)))"
proof (induction ss arbitrary: P)
  case Nil
  then show ?case by (simp add: triple_def)
next
  case (Cons s ss)
  let ?P = "\<lambda>c. P c \<and> stream_gone (DataRef (ds_id s)) c"
  have "lasting ?P" using Cons.prems by auto
  note IH = Cons.IH [OF this]
  show ?case
    apply simp
    apply (intro conjI impI)
     apply (rule triple_bad, simp)
    apply (rule triple_seq [where R = "\<lambda>_. removing P"], rule triple_destroy, simp)
    apply (rule triple_seq [where R = "\<lambda>_. removing ?P"], rule triple_change)
     apply (auto simp: session_ok_def remove_stream_ok remove_gone intro: lastingD [OF Cons.prems] shrinks_remove)[1]
    apply (rule triple_post [OF IH], auto)
    done
qed

lemma delete_event_streams_ok:
  "lasting P \<Longrightarrow> triple (removing P) (delete_event_streams ss)
     (\<lambda>_. removing (\<lambda>c. P c \<and> (\<forall>r \<in> set (map (\<lambda>s. EventRef (vs_id s)) ss). stream_gone r c)))"
proof (induction ss arbitrary: P)
  case Nil
  then show ?case by (simp add: triple_def)
next
  case (Cons s ss)
  let ?P = "\<lambda>c. P c \<and> stream_gone (EventRef (vs_id s)) c"
  have "lasting ?P" using Cons.prems by auto
  note IH = Cons.IH [OF this]
  show ?case
    apply simp
    apply (rule triple_seq [where R = "\<lambda>_. removing P"], rule triple_destroy, simp)
    apply (rule triple_seq [where R = "\<lambda>_. removing ?P"], rule triple_change)
     apply (auto simp: session_ok_def remove_stream_ok remove_gone intro: lastingD [OF Cons.prems] shrinks_remove)[1]
    apply (rule triple_post [OF IH], auto)
    done
qed

lemma delete_streams_ok:
  assumes "lasting P"
  shows "triple (removing P) (delete_streams i) (\<lambda>_. removing (\<lambda>c. P c \<and> no_streams i c))"
  unfolding delete_streams_def
proof (rule triple_view)
  fix c :: "'a catalog"
  let ?D = "set (map (\<lambda>s. DataRef (ds_id s)) (data_in c i))"
  let ?E = "set (map (\<lambda>s. EventRef (vs_id s)) (events_in c i))"
  define I where "I c' = (\<forall>r n. (r, n, Some i) \<in> set (streams_of c') \<longrightarrow> r \<in> ?D \<union> ?E)" for c' :: "'a catalog"
  have I: "lasting I" unfolding lasting_def shrinks_def I_def by blast
  have 0: "I c" by (force simp: I_def streams_of_def data_in_def events_in_def)
  note 1 = delete_data_streams_ok [OF lasting_intros(1) [OF assms I], of "data_in c i"]
  note 2 = delete_event_streams_ok [of _ "events_in c i"]
  show "triple (\<lambda>s. removing P s \<and> se_work s = c)
      (seqA (delete_data_streams (data_in c i)) (\<lambda>_. delete_event_streams (events_in c i)))
      (\<lambda>_. removing (\<lambda>c. P c \<and> no_streams i c))"
  proof (rule triple_seq [OF triple_pre [OF 1] triple_post [OF 2]])
    show "removing (\<lambda>c. P c \<and> I c) s" if "removing P s \<and> se_work s = c" for s using that 0 by auto
    show "lasting (\<lambda>c. (P c \<and> I c) \<and> (\<forall>r \<in> ?D. stream_gone r c))" using assms I by (intro lasting_intros)
  next
    fix s
    assume s: "removing (\<lambda>c. ((P c \<and> I c) \<and> (\<forall>r \<in> ?D. stream_gone r c)) \<and> (\<forall>r \<in> ?E. stream_gone r c)) s"
    then have "no_streams i (se_work s)" unfolding I_def no_streams_def stream_gone_def by blast
    then show "removing (\<lambda>c. P c \<and> no_streams i c) s" using s by simp
  qed
qed

text \<open>What deletes the listed children of a folder leaves it without children.\<close>

lemma children_gone:
  fixes c :: "'f catalog"
  assumes h: "\<And>Q. lasting Q \<Longrightarrow> triple (removing Q) h
      (\<lambda>_. removing (\<lambda>c'. Q c' \<and> (\<forall>j \<in> set (map fd_id (children c i)). folder_gone j c')))"
    and P: "lasting P"
  shows "triple (\<lambda>s. removing P s \<and> se_work s = c) h (\<lambda>_. removing (\<lambda>c. P c \<and> no_children i c))"
proof -
  define I where "I c' = (\<forall>j m. (j, Some i, m) \<in> set (folders_of c') \<longrightarrow> j \<in> set (map fd_id (children c i)))"
    for c' :: "'f catalog"
  have "lasting I" unfolding lasting_def shrinks_def I_def by blast
  then have "lasting (\<lambda>c. P c \<and> I c)" using P by auto
  note 1 = h [OF this]
  have 0: "I c" by (force simp: I_def folders_of_def children_def)
  show ?thesis
  proof (rule triple_post [OF triple_pre [OF 1]])
    show "removing (\<lambda>c. P c \<and> I c) s" if "removing P s \<and> se_work s = c" for s using that 0 by auto
    fix s
    assume s: "removing (\<lambda>c'. (P c' \<and> I c') \<and> (\<forall>j \<in> set (map fd_id (children c i)). folder_gone j c')) s"
    then have "no_children i (se_work s)" unfolding I_def no_children_def folder_gone_def by blast
    then show "removing (\<lambda>c. P c \<and> no_children i c) s" using s by simp
  qed
qed

lemma recursive_delete_ok:
  "lasting P \<Longrightarrow> triple (removing P) (recursive_delete n js)
     (\<lambda>_. removing (\<lambda>c. P c \<and> (\<forall>j \<in> set js. folder_gone j c)))"
proof (induction n arbitrary: js P)
  case 0
  then show ?case by (cases js) (auto simp: triple_def session_ok_def)
next
  case (Suc n)
  show ?case using Suc.prems
  proof (induction js arbitrary: P)
    case Nil
    then show ?case by (simp add: triple_def)
  next
    case (Cons i js)
    have "lasting (\<lambda>c. P c \<and> no_streams i c)" using Cons.prems by auto
    then have below: "triple (removing (\<lambda>c. P c \<and> no_streams i c)) (view (\<lambda>c. recursive_delete n (map fd_id (children c i))))
        (\<lambda>_. removing (\<lambda>c. (P c \<and> no_streams i c) \<and> no_children i c))"
      by (intro triple_view children_gone Suc.IH)
    have P: "lasting (\<lambda>c. P c \<and> folder_gone i c)" using Cons.prems by auto
    show ?case
      unfolding recursive_delete.simps
      apply (rule triple_seq [OF delete_streams_ok [OF Cons.prems]])
      apply (rule triple_seq [OF below])
      apply (rule triple_seq [where R = "\<lambda>_. removing (\<lambda>c. P c \<and> folder_gone i c)"], rule triple_change)
       apply (auto simp: session_ok_def remove_folder_ok remove_gone intro: lastingD [OF Cons.prems] shrinks_remove)[1]
      apply (rule triple_post [OF Cons.IH [OF P]], auto)
      done
  qed
qed

lemma folder_delete_ok: "triple session_ok (folder_delete now recursive l) (\<lambda>_. session_ok)"
  unfolding folder_delete_def
  apply (rule triple_seq [OF locate_folder_ok], rule triple_view)
  apply (rule triple_if, rule triple_bad, simp)
  apply (rule triple_if, rule triple_bad, simp)
  subgoal for f c
    apply (rule triple_seq [where R = "\<lambda>_. removing (no_children (fd_id f))"])
     apply (cases recursive)
      apply (simp add: whenA_def)
      apply (rule triple_post [OF triple_pre [OF children_gone [where c = c and i = "fd_id f" and P = "\<lambda>_. True"]]])
         apply (erule recursive_delete_ok)
        apply (auto simp: whenA_def pureA_def triple_def no_children_def children_def folders_of_def filter_empty_conv)[4]
    apply (rule triple_seq [OF delete_streams_ok], blast)
    apply (rule triple_option, rule triple_crash, simp, simp add: session_ok_def)
    apply (rule triple_change_commit, unfold touch_folder_skeleton, rule remove_folder_ok)
      apply (auto simp: session_ok_def)
    done
  done

section \<open>Requests\<close>

datatype ('f, 'v) catalogue_request =
    StreamMove locator locator
  | StreamCreate "'f stream_json res option" locator
  | StreamUpdate "int option" "'v stream_attrs option"
  | StreamDelete locator
  | EventMove locator locator
  | EventCreate "event_stream_json res option" locator
  | EventUpdate "int option" "event_stream_attrs option"
  | EventDelete locator
  | FolderMove locator locator
  | FolderUpdate "int option" "folder_attrs option"
  | FolderDelete bool locator

definition serve :: "('v \<Rightarrow> 'f::linorder res) \<Rightarrow> (string \<Rightarrow> string list option) \<Rightarrow> ('f catalog \<Rightarrow> bool) \<Rightarrow> int
    \<Rightarrow> ('f, 'v) catalogue_request \<Rightarrow> ('f, unit) handler" where
  "serve to_float categories circular now rq =
     (case rq of
        StreamMove src dest \<Rightarrow> stream_move now src dest
      | StreamCreate body dest \<Rightarrow> stream_create now body dest
      | StreamUpdate i attrs \<Rightarrow> stream_update now to_float i attrs
      | StreamDelete l \<Rightarrow> stream_delete now l
      | EventMove src dest \<Rightarrow> event_move now src dest
      | EventCreate body dest \<Rightarrow> event_create categories now body dest
      | EventUpdate i attrs \<Rightarrow> event_update categories now i attrs
      | EventDelete l \<Rightarrow> event_delete now l
      | FolderMove src dest \<Rightarrow> folder_move circular now src dest
      | FolderUpdate i attrs \<Rightarrow> folder_update now i attrs
      | FolderDelete recursive l \<Rightarrow> folder_delete now recursive l)"

definition renames_stream :: "('f, 'v) catalogue_request \<Rightarrow> bool" where
  "renames_stream rq = (case rq of StreamUpdate i attrs \<Rightarrow> True | EventUpdate i attrs \<Rightarrow> True | _ \<Rightarrow> False)"

text \<open>The request is answered: with success or with an HTTP error.\<close>

definition answered :: "'a res \<Rightarrow> bool" where
  "answered r = (case r of Inr x \<Rightarrow> True | Inl e \<Rightarrow> is_http e)"

lemma serve_ok:
  assumes "finds_loops circular" "\<And>v. quiet (to_float v)"
  shows "triple (\<lambda>s. session_ok s \<and> (renames_stream rq \<longrightarrow> twin_free (se_work s)))
     (serve to_float categories circular now rq) (\<lambda>_. session_ok)"
  by (cases rq)
    (simp_all add: serve_def renames_stream_def stream_move_ok stream_create_ok stream_update_ok [OF assms(2)]
      stream_delete_ok event_move_ok event_create_ok event_update_ok event_delete_ok folder_move_ok [OF assms(1)]
      folder_update_ok folder_delete_ok)

text \<open>
  C7.  A request to create, move, change or delete a folder, a data stream or an event stream keeps the
  catalogue well-formed: one tree under one root, unique names in every folder, every stream in a folder.
  This holds of the committed catalogue whatever happens, also when the handler fails, and of the catalogue in
  the session whenever the request is answered, with success or an HTTP error.  The flush of the session has to
  find a folder that is its own parent, and a stream may only be renamed while no event stream has the
  id of a data stream in the same folder.
\<close>

theorem serve_keeps_catalogue:
  assumes "finds_loops circular" "\<And>v e. to_float v = Inl e \<Longrightarrow> \<not> is_http e"
    and "session_ok s" "renames_stream rq \<Longrightarrow> twin_free (se_work s)"
    and "serve to_float categories circular now rq s = (r, s')"
  shows "catalog_ok (se_db s') \<and> (answered r \<longrightarrow> session_ok s')"
proof -
  have "post (\<lambda>_. session_ok) r s'"
    by (rule tripleD [OF serve_ok [OF assms(1)] _ assms(5)]) (use assms(2-4) in \<open>auto simp: quiet_def\<close>)
  then show ?thesis by (cases r) (auto simp: answered_def dest: session_okD)
qed

definition demo_session :: "int session" where
  "demo_session = \<lparr>se_db = demo_catalog, se_work = demo_catalog, se_destroyed = [], se_created = []\<rparr>"

lemma serve_keeps_catalogue_witness:
  "catalog_ok (se_db (snd (serve (\<lambda>v :: int. Inr v) (\<lambda>_. None)
      (\<lambda>c. list_ex (\<lambda>f. fd_parent f = Some (fd_id f)) (ct_folders c)) 7
      (StreamMove (ById 1) (ByPath ''/b/c'')) demo_session)))
   \<and> fst (serve (\<lambda>v :: int. Inr v) (\<lambda>_. None)
      (\<lambda>c. list_ex (\<lambda>f. fd_parent f = Some (fd_id f)) (ct_folders c)) 7
      (StreamMove (ById 1) (ByPath ''/b/c'')) demo_session) = Inr ()"
proof -
  let ?circ = "\<lambda>c :: int catalog. list_ex (\<lambda>f. fd_parent f = Some (fd_id f)) (ct_folders c)"
  let ?rq = "StreamMove (ById 1) (ByPath ''/b/c'') :: (int, int) catalogue_request"
  obtain r s' where h: "serve (\<lambda>v :: int. Inr v) (\<lambda>_. None) ?circ 7 ?rq demo_session = (r, s')" by fastforce
  have 1: "finds_loops ?circ" by (auto simp: finds_loops_def list_ex_iff)
  have 2: "session_ok demo_session" by (simp add: session_ok_def demo_session_def demo_catalog_ok)
  have 3: "r = Inr ()"
  proof -
    have "fst (serve (\<lambda>v :: int. Inr v) (\<lambda>_. None) ?circ 7 ?rq demo_session) = Inr ()" by code_simp
    then show ?thesis using h by simp
  qed
  have "catalog_ok (se_db s')"
    using serve_keeps_catalogue [OF 1 _ 2 _ h] by (simp add: renames_stream_def)
  then show ?thesis using h 3 by simp
qed

section \<open>Two streams of one name\<close>

definition rename_attrs :: "string \<Rightarrow> 'v stream_attrs" where
  "rename_attrs n = \<lparr>sa_name = Some (Some n), sa_description = None, sa_keep_us = None, sa_decimate = None, sa_elements = None\<rparr>"

lemma update_stream_rename:
  "valid_name n \<Longrightarrow> update_stream to_float (rename_attrs n) s = (Inr (), s\<lparr>ds_name := n\<rparr>)"
  by (simp add: update_stream_def rename_attrs_def assign_def seqA_def validate_name_Some)

text \<open>
  Renaming a data stream to the name of an event stream of its folder succeeds when the two have the same
  id: the check of the other names leaves out every stream with the id, of either kind.  The committed
  catalogue then has two streams of one name in a folder, and is no longer well-formed.
\<close>

lemma stream_update_same_id:
  assumes "session_ok s" "get_data (se_work s) i = Some a" "get_event (se_work s) i = Some e"
    and "ds_folder a = vs_folder e" "\<not> ds_locked a"
  shows "\<exists>s'. stream_update now to_float (Some i) (Some (rename_attrs (vs_name e))) s = (Inr (), s')
     \<and> \<not> catalog_ok (se_db s')"
proof -
  let ?c = "se_work s" and ?n = "vs_name e"
  let ?u = "update_data i (\<lambda>_. a\<lparr>ds_name := ?n\<rparr>) ?c"
  let ?t = "touch_data now i ?u"
  have ok: "catalog_ok ?c" using assms(1) by (rule session_okD)
  note tree = catalog_okD(1) [OF ok]
  have a: "ds_id a = i" using get_dataD [OF assms(2)] by simp
  have row: "(EventRef i, ?n, vs_folder e) \<in> set (streams_of ?c)" by (rule event_stream_row [OF assms(3)])
  then obtain d where d: "vs_folder e = Some d" using tree_okD(9) [OF tree] by blast
  have n: "valid_name ?n" by (rule stream_name_valid(2) [OF ok assms(3)])
  have S: "streams_of ?t = put_row (DataRef i) (?n, Some d) (streams_of ?c)"
    using streams_update_data [OF ok assms(2), of "\<lambda>_. a\<lparr>ds_name := ?n\<rparr>"] a d assms(4) by simp
  have g: "get_data ?t i = Some (a\<lparr>ds_name := ?n, ds_updated := now\<rparr>)"
    using assms(2) a by (simp add: get_touch_data get_update_data)
  have free: "?n \<notin> set (other_names ?t d i)"
    unfolding other_names_mem S put_row_mem using tree_okD(7) [OF tree] row d by auto
  have clash: "\<not> catalog_ok ?t"
  proof
    assume "catalog_ok ?t"
    moreover have "(DataRef i, ?n, Some d) \<in> set (streams_of ?t)" "(EventRef i, ?n, Some d) \<in> set (streams_of ?t)"
      using row d data_stream_row [OF assms(2)] unfolding S put_row_mem by (auto intro: rev_image_eqI)
    ultimately show False using tree_okD(7) [OF catalog_okD(1)] by blast
  qed
  have "work_stream i (update_stream to_float (rename_attrs ?n)) s = (Inr (), s\<lparr>se_work := ?u\<rparr>)"
    using assms(2) by (simp add: work_stream_def on_work_def update_stream_rename [OF n])
  then have "stream_update now to_float (Some i) (Some (rename_attrs ?n)) s = (Inr (), s\<lparr>se_work := ?t, se_db := ?t\<rparr>)"
    using assms(2,4,5) g free d
    by (simp add: stream_update_def view_def rollback_on_input_error_def seqA_def whenA_def change_def commit_def
        stream_attrs_given_def rename_attrs_def)
  then show ?thesis using clash by (intro exI [of _ "s\<lparr>se_work := ?t, se_db := ?t\<rparr>"]) simp
qed

definition twin_catalog :: "int catalog" where
  "twin_catalog = demo_catalog\<lparr>ct_data := [demo_stream\<lparr>ds_is_configured := False, ds_is_source := Some False,
       ds_is_destination := Some False\<rparr>], ct_events := [\<lparr>vs_id = 1, vs_name = ''e'', vs_description = None,
       vs_event_fields = [], vs_chunk_duration_us = 0, vs_keep_us = -1, vs_folder = Some 2, vs_updated = 0\<rparr>],
       ct_event_seq := 1\<rparr>"

definition twin_session :: "int session" where
  "twin_session = \<lparr>se_db = twin_catalog, se_work = twin_catalog, se_destroyed = [], se_created = []\<rparr>"

lemma twin_session_ok: "session_ok twin_session"
proof -
  have "tree_ok [(1, None, ''root''), (2, Some 1, ''a'')] [(DataRef 1, ''s'', Some 2), (EventRef 1, ''e'', Some 2)]"
    by (rule tree_okI) (use demo_paths in \<open>auto simp: valid_name_def\<close>)
  moreover have "folders_of twin_catalog = [(1, None, ''root''), (2, Some 1, ''a'')]"
    "streams_of twin_catalog = [(DataRef 1, ''s'', Some 2), (EventRef 1, ''e'', Some 2)]"
    by (simp_all add: twin_catalog_def folders_of_def streams_of_def demo_catalog_def demo_stream_def)
  ultimately have "catalog_ok twin_catalog"
    by (simp add: catalog_ok_def seqs_ok_def) (simp add: twin_catalog_def demo_catalog_def)
  then show ?thesis by (simp add: session_ok_def twin_session_def)
qed

lemma stream_update_same_id_witness:
  "\<exists>s'. stream_update 7 (\<lambda>v :: int. Inr v) (Some 1) (Some (rename_attrs ''e'')) twin_session = (Inr (), s')
     \<and> \<not> catalog_ok (se_db s')"
proof -
  obtain a e where "get_data (se_work twin_session) 1 = Some a" "get_event (se_work twin_session) 1 = Some e"
    "ds_folder a = vs_folder e" "\<not> ds_locked a" "vs_name e = ''e''"
    by (simp add: twin_session_def twin_catalog_def get_data_def get_event_def demo_stream_def ds_locked_def)
  then show ?thesis
    using stream_update_same_id [OF twin_session_ok, of 1 a e 7 "\<lambda>v. Inr v"] by simp
qed

end
