(* ===== verification/Pipe_Config.thy ===== *)
theory Pipe_Config
  imports Catalogue_Safety
begin

text \<open>
  The configuration of a pipe (\<open>services/parse_pipe_config.py\<close>): its text, and the stream of the catalogue
  that it names or creates.
\<close>

section \<open>Pipe configurations\<close>

definition strip_remote_config :: "string \<Rightarrow> (string \<times> string option) res" where
  "strip_remote_config pc =
     (case pc of
        [] \<Rightarrow> Inl (ConfigurationError ''invalid pipe configuration [%s]'')
      | c # cs \<Rightarrow>
          if c = CHR ''/'' then Inr (pc, None)
          else
            (case py_split (CHR '' '') pc of
               node # pc' # pieces \<Rightarrow> Inr (pc', Some node)
             | _ \<Rightarrow> Inl (ConfigurationError ''invalid pipe configuration [%s]'')))"

definition parse_pipe_config :: "string \<Rightarrow> (string \<times> string \<times> string) res" where
  "parse_pipe_config pc =
     (let (full_path, inline_config) =
        (if CHR '':'' \<in> set pc then (py_split (CHR '':'') pc ! 0, py_split (CHR '':'') pc ! 1) else (pc, []))
      in if CHR ''/'' \<notin> set full_path then Inl (ConfigurationError ''invalid path [%s]'')
         else
           (let path_chunks = py_split (CHR ''/'') full_path
            in if last path_chunks = [] then Inl (ConfigurationError ''invalid stream name [%s]'')
               else Inr (py_join ''/'' (butlast path_chunks), last path_chunks, inline_config)))"

fun on_config_error :: "exn \<Rightarrow> 'a res \<Rightarrow> 'a res" where
  "on_config_error e (Inl (ConfigurationError m)) = Inl e"
| "on_config_error e r = r"

definition parse_inline_config :: "string \<Rightarrow> (stream_datatype \<times> string list) option res" where
  "parse_inline_config inline =
     (if inline = [] then Inr None
      else on_config_error (ConfigurationError ''invalid inline configuration: %s'')
        (let config = py_split (CHR ''['') inline
         in if length config \<noteq> 2 \<or> last inline \<noteq> CHR '']''
            then Inl (ConfigurationError ''format is datatype[e1,e2,e3,...]'')
            else bindE (validate_datatype (py_strip (config ! 0))) (\<lambda>ty.
              Inr (Some (ty, map py_strip (py_split (CHR '','') (butlast (py_strip (config ! 1)))))))))"

definition validate_config_match :: "'f data_stream \<Rightarrow> stream_datatype \<Rightarrow> string list \<Rightarrow> unit res" where
  "validate_config_match s ty names =
     (if ty \<noteq> ds_datatype s then Inl (ConfigurationError ''DataStream [%s] exists with data_type %s'')
      else if length (ds_elements s) \<noteq> length names then Inl (ConfigurationError ''DataStream exists with different elements'')
      else if \<not> list_all (\<lambda>n. n \<in> set (map el_name (ds_elements s))) names
      then Inl (ConfigurationError ''DataStream exists with different elements'')
      else Inr ())"

text \<open>
  A new stream, with the defaults of the columns, which a stream of this node gets when it is stored.
\<close>

definition inline_element :: "string \<Rightarrow> nat \<Rightarrow> 'f::{zero,one} element" where
  "inline_element name i =
     \<lparr>el_id = None, el_index = i, el_name = name, el_units = None, el_plottable = None,
      el_display_type = Some CONTINUOUS, el_offset = 0, el_scale_factor = 1, el_default_max = None, el_default_min = None\<rparr>"

definition inline_stream :: "int \<Rightarrow> string \<Rightarrow> stream_datatype \<Rightarrow> string list \<Rightarrow> 'f::{zero,one} data_stream" where
  "inline_stream now name ty names =
     \<lparr>ds_id = 0, ds_name = name, ds_description = None, ds_datatype = ty, ds_decimate = True, ds_keep_us = keep_all,
      ds_is_configured = False, ds_is_source = Some False, ds_is_destination = Some False,
      ds_elements = map2 inline_element names [0..<length names], ds_folder = None, ds_updated = now, ds_remote = None\<rparr>"

text \<open>The stream of a pipe: one of the catalogue, or one of a remote node.\<close>

datatype 'f target = Local int | Remote "'f data_stream"

definition pipe_parts :: "string \<Rightarrow> (string option \<times> string \<times> string \<times> (stream_datatype \<times> string list) option) res" where
  "pipe_parts pc =
     bindE (strip_remote_config pc) (\<lambda>(pc, node).
     bindE (parse_pipe_config pc) (\<lambda>(path, name, inline).
     bindE (validate_name (Some name)) (\<lambda>name.
     bindE (parse_inline_config inline) (\<lambda>config. Inr (node, path, name, config)))))"

definition parse_pipe :: "int \<Rightarrow> string list \<Rightarrow> string \<Rightarrow> ('f::{zero,one} catalog, 'f target) act" where
  "parse_pipe now followers pc c =
     (case pipe_parts pc of
        Inl e \<Rightarrow> (Inl e, c)
      | Inr (None, path, name, config) \<Rightarrow>
          (case find_folder now True path c of
             (Inl e, c) \<Rightarrow> (Inl e, c)
           | (Inr None, c) \<Rightarrow> (Inl PyAttributeError, c)
           | (Inr (Some d), c) \<Rightarrow>
               (case filter (\<lambda>s. ds_name s = name) (data_in c d) of
                  [] \<Rightarrow>
                    (case config of
                       None \<Rightarrow> (Inl (ConfigurationError ''add inline config or *.conf file for stream [%s]''), c)
                     | Some (ty, names) \<Rightarrow>
                         (Inr (Local (ct_data_seq c + 1)), add_data d (inline_stream now name ty names) c))
                | [s] \<Rightarrow>
                    (case config of
                       None \<Rightarrow> (Inr (Local (ds_id s)), c)
                     | Some (ty, names) \<Rightarrow>
                         (bindE (validate_config_match s ty names) (\<lambda>_. Inr (Local (ds_id s))), c))
                | _ \<Rightarrow> (Inl MultipleResultsFound, c)))
      | Inr (Some node, path, name, config) \<Rightarrow>
          if node \<notin> set followers then (Inl (ConfigurationError ''Remote node [%s] is not a follower''), c)
          else
            (case config of
               None \<Rightarrow> (Inl (ConfigurationError ''invalid remote stream, must have inline config''), c)
             | Some (ty, names) \<Rightarrow>
                 (Inr (Remote ((inline_stream now name ty names)\<lparr>ds_remote := Some (node, path @ ''/'' @ name)\<rparr>)), c)))"

section \<open>Looking up a folder again\<close>

inductive reaches :: "(int \<times> int option \<times> string) list \<Rightarrow> int \<Rightarrow> string list \<Rightarrow> int \<Rightarrow> bool" for F where
  here: "reaches F i [] i"
| down: "(j, Some i, n) \<in> set F \<Longrightarrow> reaches F j ns k \<Longrightarrow> reaches F i (n # ns) k"

lemma reaches_mono: "reaches F i ns k \<Longrightarrow> set F \<subseteq> set G \<Longrightarrow> reaches G i ns k"
  by (induction rule: reaches.induct) (auto intro: reaches.intros)

lemma folder_named:
  assumes "tree_ok (folders_of c) S" "(j, Some i, n) \<in> set (folders_of c)"
  shows "\<exists>f. filter (\<lambda>f. fd_parent f = Some i \<and> fd_name f = n) (ct_folders c) = [f] \<and> fd_id f = j"
proof -
  let ?T = "filter (\<lambda>f. fd_parent f = Some i \<and> fd_name f = n) (ct_folders c)"
  obtain f where f: "f \<in> set ?T" "fd_id f = j" using assms(2) by (auto simp: folders_of_mem)
  have d: "distinct (map fd_id ?T)"
    using tree_okD(1) [OF assms(1)] by (simp add: folders_of_def distinct_map_filter comp_def)
  have r: "fd_id g = j" if "g \<in> set ?T" for g
    by (rule tree_okD(2) [OF assms(1) _ assms(2)]) (use that in \<open>auto simp: folders_of_mem\<close>)
  show ?thesis using distinct_singleton [OF d r f(1)] f(2) by blast
qed

lemma reaches_find:
  assumes "tree_ok (folders_of c) S"
  shows "reaches (folders_of c) i ns k \<Longrightarrow> find_segments now create i ns c = (Inr (Some k), c)"
proof (induction rule: reaches.induct)
  case (down j i n ns k)
  then show ?case using folder_named [OF assms down.hyps(1)] by auto
qed simp

lemma find_segments_reaches:
  assumes "catalog_ok c" "p \<in> fst ` set (folders_of c)" "list_all valid_name ns"
    "find_segments now create p ns c = (Inr (Some i), c')"
  shows "reaches (folders_of c') p ns i"
  using assms
proof (induction now create p ns c rule: find_segments.induct)
  case (1 now create parent c)
  then show ?case by (auto intro: reaches.here)
next
  case (2 now create parent name ns c)
  let ?fs = "filter (\<lambda>f. fd_parent f = Some parent \<and> fd_name f = name) (ct_folders c)"
  have vn: "valid_name name" "list_all valid_name ns" using 2(5) by simp_all
  show ?case
  proof (cases ?fs)
    case Nil
    with 2(6) have cr: "create" by (auto split: if_splits)
    obtain j c1 where n: "new_folder now (Some parent) name c = (j, c1)" by (cases "new_folder now (Some parent) name c")
    have free: "(j, Some parent, name) \<notin> set (folders_of c)" for j
      using Nil by (auto simp: folders_of_def filter_empty_conv)
    note new = new_folder_ok [OF 2(3,4) vn(1) free n]
    have j: "(j, Some parent, name) \<in> set (folders_of c1)" using new(2) by simp
    have j': "j \<in> fst ` set (folders_of c1)" using j by force
    have f: "find_segments now create j ns c1 = (Inr (Some i), c')" using 2(6) Nil cr n by simp
    have "reaches (folders_of c') j ns i"
      by (rule 2(1) [OF Nil _ n [symmetric] new(1) j' vn(2) f]) (use cr in simp)
    moreover have "grows c1 c'" using find_segments_ok [OF new(1) j' vn(2) f] by simp
    ultimately show ?thesis using growsD(4) j by (blast intro: reaches.down)
  next
    case (Cons f fs)
    then have f: "(fd_id f, Some parent, name) \<in> set (folders_of c)"
      using Cons_eq_filterD [OF Cons [symmetric]] by (auto simp: folders_of_mem)
    have f': "fd_id f \<in> fst ` set (folders_of c)" using f by force
    have fs: "fs = []" using 2(6) Cons by (cases fs) auto
    have r: "find_segments now create (fd_id f) ns c = (Inr (Some i), c')" using 2(6) Cons fs by simp
    have "reaches (folders_of c') (fd_id f) ns i"
      by (rule 2(2) [OF Cons [unfolded fs] refl 2(3) f' vn(2) r])
    moreover have "grows c c'" using find_segments_ok [OF 2(3) f' vn(2) r] by simp
    ultimately show ?thesis using growsD(4) f by (blast intro: reaches.down)
  qed
qed
lemma path_names: "[] \<notin> set (tl (py_split c path)) \<Longrightarrow> c = CHR ''/'' \<Longrightarrow> list_all valid_name (tl (py_split c path))"
  unfolding list_all_iff
proof
  fix w
  assume w: "w \<in> set (tl (py_split c path))" "[] \<notin> set (tl (py_split c path))" "c = CHR ''/''"
  then have "w \<in> set (py_split c path)" by (metis list.sel(2) list.set_sel(2))
  then show "valid_name w" using py_split_no_sep w by (auto simp: valid_name_def)
qed

lemma root_again:
  assumes "catalog_ok c" "root now c = (Inr r, c1)"
  shows "\<exists>n. (r, None, n) \<in> set (folders_of c1)"
  using assms(2) by (auto simp: root_def new_folder_def Let_def folders_of_def filter_eq_Cons_iff split: list.splits)

lemma find_folder_again:
  assumes "catalog_ok c" "find_folder now create path c = (Inr (Some d), c1)" "folders_of c2 = folders_of c1"
  shows "find_folder later create' path c2 = (Inr (Some d), c2)"
proof -
  let ?segs = "tl (py_split (CHR ''/'') path)"
  obtain r c0 where r: "root now c = (Inr r, c0)" "r \<in> fst ` set (folders_of c0)" "grows c c0"
    using root_grows [OF assms(1)] by blast
  obtain n where n: "(r, None, n) \<in> set (folders_of c0)" using root_again [OF assms(1) r(1)] by blast
  have p: "\<not> (path = [] \<or> hd path \<noteq> CHR ''/'')"
    using assms(2) by (auto simp: find_folder_def split: if_splits)
  have "grows c c1" using find_folder_ok [OF assms(1,2)] by simp
  then have ok: "tree_ok (folders_of c2) (streams_of c1)" using catalog_okD(1) growsD(1) assms(3) by metis
  have f: "find_folder now create path c = (if path = ''/'' then pureA (Some r)
      else if [] \<in> set ?segs then raiseA (ConfigurationError ''invalid path [%s]'') else find_segments now create r ?segs) c0"
    using p r(1) by (simp add: find_folder_def seqA_def Let_def)
  have g: "find_folder later create' path c2 = (if path = ''/'' then pureA (Some r)
      else if [] \<in> set ?segs then raiseA (ConfigurationError ''invalid path [%s]'') else find_segments later create' r ?segs) c2"
    if "(r, None, n) \<in> set (folders_of c2)"
    using p root_of [OF ok that] by (simp add: find_folder_def seqA_def Let_def)
  show ?thesis
  proof (cases "path = ''/''")
    case True
    then show ?thesis using assms(2,3) f g n by simp
  next
    case False
    then have s: "[] \<notin> set ?segs" using assms(2) f by (auto split: if_splits)
    then have seg: "find_segments now create r ?segs c0 = (Inr (Some d), c1)" using assms(2) f False by simp
    note vs = path_names [OF s refl]
    have re: "reaches (folders_of c2) r ?segs d"
      using find_segments_reaches [OF growsD(1) [OF r(3)] r(2) vs seg] assms(3) by simp
    have "(r, None, n) \<in> set (folders_of c2)"
      using find_segments_ok [OF growsD(1) [OF r(3)] r(2) vs seg] growsD(4) n assms(3) by metis
    from g [OF this] show ?thesis using False s reaches_find [OF ok re] by simp
  qed
qed

section \<open>The stream of a pipe\<close>

lemma parse_pipe_local:
  fixes c :: "'f::{zero,one} catalog"
  assumes "parse_pipe now fs pc c = (Inr (Local i), c')" "pipe_parts pc = Inr (node, path, name, config)"
  obtains (old) d s c1 where "node = None" "find_folder now True path c = (Inr (Some d), c1)"
      "filter (\<lambda>s. ds_name s = name) (data_in c1 d) = [s]" "i = ds_id s" "c' = c1"
      "\<And>ty names. config = Some (ty, names) \<Longrightarrow> validate_config_match s ty names = Inr ()"
  | (new) d ty names c1 where "node = None" "find_folder now True path c = (Inr (Some d), c1)"
      "filter (\<lambda>s. ds_name s = name) (data_in c1 d) = []" "config = Some (ty, names)"
      "i = ct_data_seq c1 + 1" "c' = add_data d (inline_stream now name ty names) c1"
proof -
  have n: "node = None" using assms by (auto simp: parse_pipe_def split: option.splits if_splits)
  obtain r c1 where f: "find_folder now True path c = (r, c1)" by fastforce
  then obtain d where r: "r = Inr (Some d)"
    using assms n by (auto simp: parse_pipe_def split: option.splits sum.splits)
  have F: "find_folder now True path c = (Inr (Some d), c1)" using f r by simp
  let ?fs = "filter (\<lambda>s. ds_name s = name) (data_in c1 d)"
  have p: "(case ?fs of
                  [] \<Rightarrow>
                    (case config of
                       None \<Rightarrow> (Inl (ConfigurationError ''add inline config or *.conf file for stream [%s]''), c1)
                     | Some (ty, names) \<Rightarrow>
                         (Inr (Local (ct_data_seq c1 + 1)), add_data d (inline_stream now name ty names) c1))
                | [s] \<Rightarrow>
                    (case config of
                       None \<Rightarrow> (Inr (Local (ds_id s)), c1)
                     | Some (ty, names) \<Rightarrow>
                         (bindE (validate_config_match s ty names) (\<lambda>_. Inr (Local (ds_id s))), c1))
                | _ \<Rightarrow> (Inl MultipleResultsFound, c1)) = (Inr (Local i :: 'f target), c')"
    using assms n F by (simp add: parse_pipe_def)
  consider "?fs = []" | s where "?fs = [s]" | s t u where "?fs = s # t # u" by (metis list.exhaust)
  then show thesis
  proof cases
    case 1
    then show ?thesis using p new [OF n F] by (auto split: option.splits)
  next
    case (2 s)
    then show ?thesis using p old [OF n F 2] by (auto split: option.splits simp: res_simps)
  next
    case 3
    then show ?thesis using p by simp
  qed
qed

lemma inline_match: "validate_config_match ((inline_stream now name ty names)\<lparr>ds_id := i, ds_folder := f\<rparr>) ty names = Inr ()"
  by (auto simp: validate_config_match_def inline_stream_def inline_element_def list_all_iff in_set_conv_nth) 
    (force simp: image_iff set_zip)

lemma data_named:
  "filter (\<lambda>s. ds_name s = name) (data_in c d) = [s] \<Longrightarrow> s \<in> set (ct_data c) \<and> ds_name s = name \<and> ds_folder s = Some d"
proof -
  assume "filter (\<lambda>s. ds_name s = name) (data_in c d) = [s]"
  then have "s \<in> set (filter (\<lambda>s. ds_name s = name) (data_in c d))" by simp
  then show ?thesis by (simp add: data_in_def)
qed

text \<open>
  C32.  Modules that name the same pipe get the same stream.  Once a local pipe was resolved, whether its stream was
  there or was created for it with any folders above, resolving a pipe with the same path and name, with the
  same inline configuration or none, gives that stream again and does not change the catalogue.
\<close>

theorem pipes_share_stream:
  assumes "catalog_ok c" "parse_pipe now fs pc c = (Inr (Local i), c')"
    and "pipe_parts pc = Inr (None, path, name, config)" "pipe_parts pc2 = Inr (None, path, name, config2)"
    and "config2 = None \<or> config2 = config"
  shows "parse_pipe later fs2 pc2 c' = (Inr (Local i), c')"
  using assms(2,3)
proof (cases rule: parse_pipe_local)
  case (old d s c1)
  then show ?thesis using assms(4,5) find_folder_again [OF assms(1) old(2) refl, of later True]
    by (auto simp: parse_pipe_def split: option.split)
next
  case (new d ty names c1)
  have "folders_of c' = folders_of c1" using new by (simp add: add_data_def Let_def folders_of_def)
  note f = find_folder_again [OF assms(1) new(2) this, of later True]
  let ?s = "(inline_stream now name ty names)\<lparr>ds_id := i, ds_folder := Some d\<rparr>"
  have "filter (\<lambda>s. ds_name s = name) (data_in c' d) = [?s]"
    using new(3) unfolding new(5,6) by (simp add: data_in_def add_data_def Let_def inline_stream_def)
  then show ?thesis using assms(4,5) f new(4) by (auto simp: parse_pipe_def inline_match)
qed

lemma pipes_share_stream_witness:
  "\<exists>c. parse_pipe 9 [] ''/b/t:int16[x]'' demo_catalog = (Inr (Local 2), c)
     \<and> parse_pipe 10 [] ''/b/t'' c = (Inr (Local 2), c) \<and> parse_pipe 11 [] ''/b/t:int16[x]'' c = (Inr (Local 2), c)"
proof -
  have p: "pipe_parts ''/b/t:int16[x]'' = Inr (None, ''/b'', ''t'', Some (INT16, [''x'']))"
    "pipe_parts ''/b/t'' = Inr (None, ''/b'', ''t'', None)" by code_simp+
  have "fst (parse_pipe 9 [] ''/b/t:int16[x]'' demo_catalog) = Inr (Local 2)" by code_simp
  then obtain c where c: "parse_pipe 9 [] ''/b/t:int16[x]'' demo_catalog = (Inr (Local 2), c)"
    by (cases "parse_pipe 9 [] ''/b/t:int16[x]'' demo_catalog") auto
  note s = pipes_share_stream [OF demo_catalog_ok(1) c p(1)]
  show ?thesis using c s [OF p(2), of 10 "[]"] s [OF p(1), of 11 "[]"] by auto
qed

section \<open>The printed form of a pipe\<close>

definition pipe_text :: "string list \<Rightarrow> string \<Rightarrow> stream_datatype \<Rightarrow> string list \<Rightarrow> string" where
  "pipe_text ns name ty names = CHR ''/'' # py_join ''/'' (ns @ [name])
     @ '':'' @ py_lower (datatype_name ty) @ ''['' @ py_join '','' names @ '']''"

definition plain_element :: "string \<Rightarrow> bool" where
  "plain_element n = (set n \<inter> set '',[:'' = {} \<and> (n = [] \<or> \<not> is_space (hd n) \<and> \<not> is_space (last n)))"

lemma set_py_join: "set (py_join sep ws) \<subseteq> \<Union> (set ` set ws) \<union> set sep"
  by (induction sep ws rule: py_join.induct) auto

lemma datatype_text:
  "validate_datatype (py_strip (py_lower (datatype_name ty))) = Inr ty" "CHR ''['' \<notin> set (py_lower (datatype_name ty))"
  "py_lower (datatype_name ty) \<noteq> []" "CHR '':'' \<notin> set (py_lower (datatype_name ty))"
  by (cases ty; hypsubst_thin; code_simp)+

lemma strip_Nil: "py_strip [] = []"
  by (simp add: py_strip_def)

lemma inline_round_trip:
  assumes "names \<noteq> []" "list_all plain_element names"
  shows "parse_inline_config (py_lower (datatype_name ty) @ ''['' @ py_join '','' names @ '']'') = Inr (Some (ty, names))"
proof -
  let ?j = "py_join '','' names @ '']''"
  let ?s = "py_lower (datatype_name ty) @ ''['' @ ?j"
  have chars: "CHR ''['' \<notin> set ?j"
    using assms(2) set_py_join [of "'',''" names] by (auto simp: list_all_iff plain_element_def)
  have split: "py_split (CHR ''['') ?s = [py_lower (datatype_name ty), ?j]"
    using py_split_append_sep [OF datatype_text(2), of ty ?j] chars by simp
  have "\<not> is_space (hd ?j)"
  proof (cases names)
    case (Cons n ns)
    have "n = [] \<or> \<not> is_space (hd n)" using assms(2) Cons by (auto simp: plain_element_def)
    then show ?thesis using Cons by (cases n; cases ns) (auto simp: is_space_def)
  qed (use assms(1) in simp)
  then have "py_strip ?j = ?j" by (rule py_strip_id [rotated]) (simp_all add: is_space_def)
  then have j: "butlast (py_strip ?j) = py_join '','' names" by simp
  have "py_split (CHR '','') (py_join '','' names) = names"
    using assms by (intro py_split_join) (auto simp: list_all_iff plain_element_def)
  moreover have "map py_strip names = names"
    using assms(2) by (intro map_idI) (metis list_all_iff plain_element_def strip_Nil py_strip_id)
  moreover have "?s \<noteq> []" "last ?s = CHR '']''" by simp_all
  ultimately show ?thesis
    unfolding parse_inline_config_def Let_def split
    by (simp add: datatype_text j del: append_Cons append_Nil)
qed

text \<open>
  C33.  The text of a local pipe with an inline configuration is read back: path, name, data type and element
  names are those it was printed from, for a stream that is not in the root folder, without colons in the
  names and without commas, brackets or blanks at the ends of the element names.
\<close>

theorem pipe_text_round_trip:
  assumes "list_all (\<lambda>n. valid_name n \<and> CHR '':'' \<notin> set n) (ns @ [name])" "ns \<noteq> []"
    and "names \<noteq> []" "list_all plain_element names"
  shows "pipe_parts (pipe_text ns name ty names) = Inr (None, CHR ''/'' # py_join ''/'' ns, name, Some (ty, names))"
proof -
  let ?p = "CHR ''/'' # py_join ''/'' (ns @ [name])"
  let ?i = "py_lower (datatype_name ty) @ ''['' @ py_join '','' names @ '']''"
  have shown: "pipe_text ns name ty names = ?p @ CHR '':'' # ?i" by (simp add: pipe_text_def)
  have "CHR '':'' \<notin> set ?p" using assms(1) set_py_join [of "''/''" "ns @ [name]"] by (auto simp: list_all_iff)
  moreover have "CHR '':'' \<notin> set ?i"
    using assms(4) set_py_join [of "'',''" names] datatype_text(4) by (auto simp: list_all_iff plain_element_def)
  ultimately have split: "py_split (CHR '':'') (?p @ CHR '':'' # ?i) = [?p, ?i]" by (metis py_split_append_sep py_split_no_char)
  have chunks: "py_split (CHR ''/'') (py_join ''/'' (ns @ [name])) = ns @ [name]"
    using assms(1) by (intro py_split_join) (auto simp: list_all_iff valid_name_def)
  have "name \<noteq> []" "validate_name (Some name) = Inr name" using assms(1) by (auto simp: valid_name_def validate_name_Some)
  moreover have "py_join ''/'' ([] # ns) = CHR ''/'' # py_join ''/'' ns" using assms(2) by (cases ns) auto
  moreover have "strip_remote_config (?p @ CHR '':'' # ?i) = Inr (?p @ CHR '':'' # ?i, None)"
    by (simp add: strip_remote_config_def)
  moreover have "parse_pipe_config (?p @ CHR '':'' # ?i) = Inr (py_join ''/'' ([] # ns), name, ?i)"
    using \<open>name \<noteq> []\<close> unfolding parse_pipe_config_def split Let_def by (simp add: chunks butlast_append)
  ultimately show ?thesis
    unfolding pipe_parts_def shown by (simp only: bindE.simps prod.case inline_round_trip [OF assms(3,4)])
qed

lemma pipe_text_round_trip_witness:
  "pipe_parts ''/a b/s:float32[x, y]'' = Inr (None, ''/a b'', ''s'', Some (FLOAT32, [''x'', ''y'']))
   \<and> pipe_parts ''/a b/s:float32[x,y]'' = Inr (None, ''/a b'', ''s'', Some (FLOAT32, [''x'', ''y'']))"
proof
  have "pipe_text [''a b''] ''s'' FLOAT32 [''x'', ''y''] = ''/a b/s:float32[x,y]''" by code_simp
  then show "pipe_parts ''/a b/s:float32[x,y]'' = Inr (None, ''/a b'', ''s'', Some (FLOAT32, [''x'', ''y'']))"
    using pipe_text_round_trip [of "[''a b'']" "''s''" "[''x'', ''y'']" FLOAT32]
    by (simp add: valid_name_def plain_element_def is_space_def)
  show "pipe_parts ''/a b/s:float32[x, y]'' = Inr (None, ''/a b'', ''s'', Some (FLOAT32, [''x'', ''y'']))" by code_simp
qed


end
