(* ===== verification/Server_Start.thy ===== *)
theory Server_Start
  imports Pipe_Config Catalogue_Folders
begin

text \<open>
  The start of the server: modules (\<open>services/load_modules.py\<close>, \<open>models/module.py\<close>), configured streams
  (\<open>services/load_streams.py\<close>) and the part of \<open>daemon.py\<close> that runs them.  The files of a directory are given as
  parsed; what only reports to the server's log has no counterpart.  All of it changes the catalogue of the
  session in place.
\<close>

section \<open>Modules\<close>

record 'f module =
  mo_name :: string
  mo_exec_cmd :: string
  mo_description :: string
  mo_is_app :: bool
  mo_db_schema :: string
  mo_arguments :: settings
  mo_inputs :: "(string \<times> 'f target) list"
  mo_outputs :: "(string \<times> 'f target) list"
  mo_uuid :: nat

definition validate_module_name :: "string \<Rightarrow> string res" where
  "validate_module_name name = (if name = [] then Inl (ConfigurationError ''missing name'') else Inr name)"

definition validate_db_schema :: "string \<Rightarrow> string res" where
  "validate_db_schema schema =
     (if schema \<in> set [''data'', ''metadata''] then Inl (ConfigurationError ''cannot use reserved schema name [%s]'')
      else Inr schema)"

definition module_from_config :: "nat \<Rightarrow> config_file \<Rightarrow> 'f module res" where
  "module_from_config uuid config =
     (case map_of config ''Main'' of
        None \<Rightarrow> Inl (ConfigurationError ''Missing section [%s]'')
      | Some main \<Rightarrow>
          on_key_error (ConfigurationError ''[Main] missing %s'')
            (bindE (bindE (setting main ''name'') validate_module_name) (\<lambda>name.
             bindE (validate_db_schema (setting_or main ''db_schema'' '''')) (\<lambda>schema.
             bindE (setting main ''exec_cmd'') (\<lambda>cmd.
             bindE (get_boolean main ''is_app'' False) (\<lambda>is_app.
             Inr \<lparr>mo_name = name, mo_exec_cmd = cmd, mo_description = setting_or main ''description'' '''',
                  mo_is_app = is_app, mo_db_schema = schema,
                  mo_arguments = (case map_of config ''Arguments'' of None \<Rightarrow> [] | Some a \<Rightarrow> a),
                  mo_inputs = [], mo_outputs = [], mo_uuid = uuid\<rparr>))))))"

text \<open>\<open>_connect_outputs\<close> and \<open>_connect_inputs\<close>, on the settings of their section.\<close>

fun connect_pipes :: "int \<Rightarrow> string list \<Rightarrow> settings \<Rightarrow> ('f::{zero,one} catalog, (string \<times> 'f target) list) act" where
  "connect_pipes now followers [] = pureA []"
| "connect_pipes now followers ((name, pc) # ps) =
     seqA (\<lambda>c. case parse_pipe now followers pc c of (r, c) \<Rightarrow> (on_config_error (ConfigurationError ''pipe [%s=%s]: %s'') r, c))
       (\<lambda>t. seqA (connect_pipes now followers ps) (\<lambda>ts. pureA ((name, t) # ts)))"

definition pipe_section :: "string \<Rightarrow> config_file \<Rightarrow> settings" where
  "pipe_section name config = (case map_of config name of None \<Rightarrow> [] | Some s \<Rightarrow> s)"

text \<open>The three passes; a \<open>ConfigurationError\<close> leaves the module out, any other error ends the loading.\<close>

fun parse_modules :: "nat \<Rightarrow> config_file list \<Rightarrow> ('f module \<times> config_file) list res" where
  "parse_modules uuid [] = Inr []"
| "parse_modules uuid (config # cs) =
     (case module_from_config uuid config of
        Inr m \<Rightarrow> bindE (parse_modules (Suc uuid) cs) (\<lambda>ms. Inr ((m, config) # ms))
      | Inl (ConfigurationError e) \<Rightarrow> parse_modules uuid cs
      | Inl e \<Rightarrow> Inl e)"

fun connect_pass :: "int \<Rightarrow> string list \<Rightarrow> string \<Rightarrow> ((string \<times> 'f target) list \<Rightarrow> 'f module \<Rightarrow> 'f module)
    \<Rightarrow> ('f module \<times> config_file) list \<Rightarrow> ('f::{zero,one} catalog, ('f module \<times> config_file) list) act" where
  "connect_pass now followers sec upd [] = pureA []"
| "connect_pass now followers sec upd ((m, config) # ms) =
     (\<lambda>c. case connect_pipes now followers (pipe_section sec config) c of
            (Inr ts, c) \<Rightarrow> seqA (connect_pass now followers sec upd ms) (\<lambda>ms. pureA ((upd ts m, config) # ms)) c
          | (Inl (ConfigurationError e), c) \<Rightarrow> connect_pass now followers sec upd ms c
          | (Inl e, c) \<Rightarrow> (Inl e, c))"

definition set_source :: "'f data_stream \<Rightarrow> 'f data_stream" where
  "set_source s = s\<lparr>ds_is_source := Some True\<rparr>"

definition set_destination :: "'f data_stream \<Rightarrow> 'f data_stream" where
  "set_destination s = s\<lparr>ds_is_destination := Some True\<rparr>"

text \<open>A stream of the catalogue is touched and marked there; a remote one belongs to its module alone.\<close>

definition mark_stream :: "int \<Rightarrow> ('f data_stream \<Rightarrow> 'f data_stream) \<Rightarrow> 'f target \<Rightarrow> 'f catalog \<Rightarrow> 'f catalog" where
  "mark_stream now upd t c = (case t of Local i \<Rightarrow> update_data i upd (touch_data now i c) | Remote s \<Rightarrow> c)"

definition mark_remote :: "int \<Rightarrow> ('f data_stream \<Rightarrow> 'f data_stream) \<Rightarrow> 'f target \<Rightarrow> 'f target" where
  "mark_remote now upd t = (case t of Local i \<Rightarrow> Local i | Remote s \<Rightarrow> Remote (upd (s\<lparr>ds_updated := now\<rparr>)))"

definition mark_module :: "int \<Rightarrow> 'f module \<Rightarrow> 'f catalog \<Rightarrow> 'f catalog" where
  "mark_module now m c =
     fold (mark_stream now set_source) (map snd (mo_inputs m))
       (fold (mark_stream now set_destination) (map snd (mo_outputs m)) c)"

definition marked :: "int \<Rightarrow> 'f module \<Rightarrow> 'f module" where
  "marked now m = m\<lparr>mo_outputs := map (\<lambda>(n, t). (n, mark_remote now set_destination t)) (mo_outputs m),
     mo_inputs := map (\<lambda>(n, t). (n, mark_remote now set_source t)) (mo_inputs m)\<rparr>"

definition load_modules :: "int \<Rightarrow> string list \<Rightarrow> config_file list \<Rightarrow> ('f::{zero,one} catalog, 'f module list) act" where
  "load_modules now followers configs c =
     (case parse_modules 0 configs of
        Inl e \<Rightarrow> (Inl e, c)
      | Inr stage1 \<Rightarrow>
          seqA (connect_pass now followers ''Outputs'' (\<lambda>ts m. m\<lparr>mo_outputs := ts\<rparr>) stage1) (\<lambda>stage2.
          seqA (connect_pass now followers ''Inputs'' (\<lambda>ts m. m\<lparr>mo_inputs := ts\<rparr>) stage2) (\<lambda>parsed.
          seqA (modifyA (fold (mark_module now) (map fst parsed))) (\<lambda>_. pureA (map (marked now \<circ> fst) parsed)))) c)"

section \<open>Configured streams\<close>

text \<open>The flags that a stream was made without get their defaults when it is stored.\<close>

definition with_defaults :: "'f data_stream \<Rightarrow> 'f data_stream" where
  "with_defaults s = s\<lparr>ds_is_source := Some (ds_is_source s = Some True),
     ds_is_destination := Some (ds_is_destination s = Some True)\<rparr>"

text \<open>\<open>_validate_path\<close>; \<open>word_char\<close> is \<open>\w\<close>.\<close>

definition validate_path :: "(char \<Rightarrow> bool) \<Rightarrow> string \<Rightarrow> string res" where
  "validate_path word_char path =
     (if path \<noteq> ''/'' \<and> (path = [] \<or> hd path \<noteq> CHR ''/''
           \<or> \<not> list_all (\<lambda>seg. seg \<noteq> [] \<and> list_all (\<lambda>c. word_char c \<or> c = CHR '' '' \<or> c = CHR ''-'') seg) (tl (py_split (CHR ''/'') path)))
      then Inl (ConfigurationError ''invalid path, use format: /dir/subdir/../file. '')
      else Inr path)"

definition add_to_path :: "string \<Rightarrow> 'f data_stream \<Rightarrow> (string \<times> 'f data_stream list) list \<Rightarrow> (string \<times> 'f data_stream list) list" where
  "add_to_path path s streams =
     (case map_of streams path of
        None \<Rightarrow> streams @ [(path, [s])]
      | Some ss \<Rightarrow> map (\<lambda>(p, x). if p = path then (p, x @ [s]) else (p, x)) streams)"

fun parse_streams :: "(int \<Rightarrow> int \<Rightarrow> int) \<Rightarrow> (string \<Rightarrow> 'f::{linorder,zero,one} res) \<Rightarrow> int \<Rightarrow> (char \<Rightarrow> bool)
    \<Rightarrow> config_file list \<Rightarrow> (string \<times> 'f data_stream list) list \<Rightarrow> (string \<times> 'f data_stream list) list res" where
  "parse_streams fmul flt now word_char [] streams = Inr streams"
| "parse_streams fmul flt now word_char (config # cs) streams =
     (case bindE (stream_from_config fmul flt now config) (\<lambda>s.
           bindE (setting (pipe_section ''Main'' config) ''path'') (\<lambda>path.
           bindE (validate_path word_char path) (\<lambda>path. Inr (path, s\<lparr>ds_is_configured := True\<rparr>)))) of
        Inr (path, s) \<Rightarrow> parse_streams fmul flt now word_char cs (add_to_path path s streams)
      | Inl (PyKeyError k) \<Rightarrow> parse_streams fmul flt now word_char cs streams
      | Inl (ConfigurationError m) \<Rightarrow> parse_streams fmul flt now word_char cs streams
      | Inl e \<Rightarrow> Inl e)"

definition save_stream :: "int \<Rightarrow> 'f data_stream \<Rightarrow> string \<Rightarrow> ('f catalog, unit) act" where
  "save_stream now s path c =
     (case find_folder now True path c of
        (Inl e, c) \<Rightarrow> (Inl e, c)
      | (Inr None, c) \<Rightarrow> (Inl PyAttributeError, c)
      | (Inr (Some d), c) \<Rightarrow>
          (case filter (\<lambda>x. ds_name x = ds_name s) (data_in c d) of
             [] \<Rightarrow> (Inr (), touch_folder now d (add_data d (with_defaults s) c))
           | [cur] \<Rightarrow>
               if ds_layout cur \<noteq> ds_layout s then (Inr (), c)
               else
                 (case merge_stream now cur s of
                    Inl e \<Rightarrow> (Inl e, c)
                  | Inr (updated, cur') \<Rightarrow>
                      (Inr (), (if updated then touch_data now (ds_id cur) else (\<lambda>c. c)) (update_data (ds_id cur) (\<lambda>_. cur') c)))
           | _ \<Rightarrow> (Inl MultipleResultsFound, c)))"

fun save_streams :: "int \<Rightarrow> (string \<times> 'f data_stream) list \<Rightarrow> ('f catalog, unit) act" where
  "save_streams now [] = pureA ()"
| "save_streams now ((path, s) # ss) = seqA (save_stream now s path) (\<lambda>_. save_streams now ss)"

definition load_streams :: "(int \<Rightarrow> int \<Rightarrow> int) \<Rightarrow> (string \<Rightarrow> 'f::{linorder,zero,one} res) \<Rightarrow> (char \<Rightarrow> bool) \<Rightarrow> int
    \<Rightarrow> config_file list \<Rightarrow> ('f catalog, 'f data_stream list list) act" where
  "load_streams fmul flt word_char now configs c =
     (case parse_streams fmul flt now word_char configs [] of
        Inl e \<Rightarrow> (Inl e, c)
      | Inr streams \<Rightarrow>
          seqA (save_streams now (concat (map (\<lambda>(path, ss). map (Pair path) ss) streams)))
            (\<lambda>_. pureA (map snd streams)) c)"

text \<open>What the daemon does with the catalogue when it starts (\<open>daemon.py\<close>, \<open>initialize\<close>).\<close>

definition reset_flags :: "'f catalog \<Rightarrow> 'f catalog" where
  "reset_flags c = c\<lparr>ct_data := map (\<lambda>s. s\<lparr>ds_is_configured := False, ds_is_destination := Some False,
     ds_is_source := Some False\<rparr>) (ct_data c)\<rparr>"

definition start_catalogue :: "(int \<Rightarrow> int \<Rightarrow> int) \<Rightarrow> (string \<Rightarrow> 'f::{linorder,zero,one} res) \<Rightarrow> (char \<Rightarrow> bool) \<Rightarrow> int
    \<Rightarrow> string list \<Rightarrow> config_file list \<Rightarrow> config_file list \<Rightarrow> ('f catalog, 'f module list) act" where
  "start_catalogue fmul flt word_char now followers streams modules =
     seqA (modifyA reset_flags) (\<lambda>_.
     seqA (load_streams fmul flt word_char now streams) (\<lambda>_.
     load_modules now followers modules))"


section \<open>What a start leaves alone\<close>

lemma new_folder_data: "new_folder now p n c = (i, c') \<Longrightarrow> ct_data c' = ct_data c \<and> ct_events c' = ct_events c \<and> ct_data_seq c' = ct_data_seq c"
  by (auto simp: new_folder_def Let_def)

lemma find_segments_data: "find_segments now create p ns c = (r, c') \<Longrightarrow> ct_data c' = ct_data c \<and> ct_events c' = ct_events c"
proof (induction now create p ns c rule: find_segments.induct)
  case (2 now create parent name ns c)
  show ?case
  proof (cases "filter (\<lambda>f. fd_parent f = Some parent \<and> fd_name f = name) (ct_folders c)")
    case Nil
    obtain i c1 where n: "new_folder now (Some parent) name c = (i, c1)" by fastforce
    show ?thesis using 2(3) Nil n 2(1) [OF Nil _ n [symmetric]] new_folder_data [OF n] by (auto split: if_splits)
  next
    case (Cons f fs)
    then show ?thesis using 2(2,3) by (cases fs) auto
  qed
qed simp

lemma find_folder_data:
  assumes "find_folder now create path c = (r, c')"
  shows "ct_data c' = ct_data c \<and> ct_events c' = ct_events c"
proof -
  obtain q c1 where r: "root now c = (q, c1)" by fastforce
  have "ct_data c1 = ct_data c \<and> ct_events c1 = ct_events c"
    using r by (auto simp: root_def new_folder_def Let_def split: list.splits)
  then show ?thesis using assms r
    by (cases q) (auto simp: find_folder_def seqA_def Let_def split: if_splits dest: find_segments_data)
qed

definition keeps :: "'f catalog \<Rightarrow> 'f catalog \<Rightarrow> bool" where
  "keeps c c' = ((\<forall>i s. get_data c i = Some s \<longrightarrow> get_data c' i = Some s) \<and> ct_events c' = ct_events c)"

lemma keeps_refl [simp]: "keeps c c" by (simp add: keeps_def)

lemma keeps_trans: "keeps a b \<Longrightarrow> keeps b c \<Longrightarrow> keeps a c" by (simp add: keeps_def)

lemma keeps_data: "ct_data c' = ct_data c \<Longrightarrow> ct_events c' = ct_events c \<Longrightarrow> keeps c c'"
  by (simp add: keeps_def get_data_def)

lemma find_append: "List.find P (xs @ ys) = (case List.find P xs of None \<Rightarrow> List.find P ys | Some x \<Rightarrow> Some x)"
  by (induction xs) auto

lemma keeps_add: "keeps c (add_data d s c)" "get_data (add_data d s c) (ct_data_seq c + 1) \<noteq> None"
  by (auto simp: keeps_def get_data_def add_data_def Let_def find_append split: option.split)

definition here :: "'f catalog \<Rightarrow> 'f target \<Rightarrow> bool" where
  "here c t = (\<forall>i. t = Local i \<longrightarrow> get_data c i \<noteq> None)"

lemma here_keeps: "here c t \<Longrightarrow> keeps c c' \<Longrightarrow> here c' t"
  by (auto simp: here_def keeps_def)

text \<open>What holds of every catalogue that a pipe may add a stream or folders to.\<close>

lemma parse_pipe_steps:
  assumes "parse_pipe now fs pc c = (r, c')"
  shows "c' = c \<or> (\<exists>path q. find_folder now True path c = (q, c'))
     \<or> (\<exists>path d c1 ty name names. find_folder now True path c = (Inr (Some d), c1) \<and> valid_name name
          \<and> filter (\<lambda>s. ds_name s = name) (data_in c1 d) = []
          \<and> c' = add_data d (inline_stream now name ty names) c1 \<and> r = Inr (Local (ct_data_seq c1 + 1)))"
proof (cases "pipe_parts pc")
  case (Inl e)
  then show ?thesis using assms by (simp add: parse_pipe_def)
next
  case (Inr x)
  obtain node path name config where x: "x = (node, path, name, config)" by (metis prod_cases4)
  have v: "valid_name name"
    using Inr x by (auto simp: pipe_parts_def res_simps validate_name_iff split: prod.splits)
  show ?thesis
  proof (cases node)
    case None
    obtain q c1 where f: "find_folder now True path c = (q, c1)" by fastforce
    show ?thesis
    proof (cases "c' = c1")
      case True
      then show ?thesis using f by blast
    next
      case False
      then obtain d where q: "q = Inr (Some d)"
        using assms Inr x None f by (auto simp: parse_pipe_def split: sum.splits option.splits)
      then have "filter (\<lambda>s. ds_name s = name) (data_in c1 d) = [] \<and> (\<exists>ty names. config = Some (ty, names)
           \<and> c' = add_data d (inline_stream now name ty names) c1 \<and> r = Inr (Local (ct_data_seq c1 + 1)))"
        using assms Inr x None f False by (auto simp: parse_pipe_def split: list.splits option.splits)
      then show ?thesis using f q v by blast
    qed
  next
    case (Some n)
    then show ?thesis using assms Inr x by (auto simp: parse_pipe_def split: if_splits option.splits)
  qed
qed

lemma parse_pipe_keeps:
  assumes "parse_pipe now fs pc c = (r, c')"
  shows "keeps c c'"
  using parse_pipe_steps [OF assms]
  by (auto intro: keeps_data keeps_trans [OF _ keeps_add(1)] dest: find_folder_data)

lemma parse_pipe_here:
  assumes "parse_pipe now fs pc c = (Inr t, c')"
  shows "here c' t"
  unfolding here_def
proof (intro allI impI)
  fix i
  assume t: "t = Local i"
  obtain node path name config where p: "pipe_parts pc = Inr (node, path, name, config)"
    using assms by (auto simp: parse_pipe_def split: sum.splits)
  from assms [unfolded t] p show "get_data c' i \<noteq> None"
  proof (cases rule: parse_pipe_local)
    case (old d s c1)
    then have "s \<in> set (ct_data c')" "ds_id s = i" using data_named [of name c1 d s] by auto
    then show ?thesis by (auto simp: get_data_def find_None_iff)
  next
    case new
    then show ?thesis using keeps_add(2) by blast
  qed
qed

lemma on_config_error_Inr [simp]: "on_config_error e r = Inr x \<longleftrightarrow> r = Inr x"
  by (cases "(e, r)" rule: on_config_error.cases) auto

lemma connect_pipes_Cons:
  assumes "connect_pipes now fs ((n, pc) # ps) c = (r, c')"
  obtains (failed) q where "parse_pipe now fs pc c = (q, c')" "\<And>ts. r \<noteq> Inr ts"
  | (more) t c1 r1 where "parse_pipe now fs pc c = (Inr t, c1)" "connect_pipes now fs ps c1 = (r1, c')"
      "\<And>ts. r = Inr ts \<Longrightarrow> \<exists>ts1. r1 = Inr ts1 \<and> ts = (n, t) # ts1"
proof -
  obtain q c1 where q: "parse_pipe now fs pc c = (q, c1)" by fastforce
  let ?q = "on_config_error (ConfigurationError ''pipe [%s=%s]: %s'') q"
  show thesis
  proof (cases ?q)
    case (Inl e)
    then show ?thesis using assms q by (intro failed) (auto simp: seqA_def)
  next
    case (Inr t)
    then have t: "q = Inr t" by simp
    obtain r1 c2 where r1: "connect_pipes now fs ps c1 = (r1, c2)" by fastforce
    show ?thesis
      using assms q t r1 by (intro more [of t c1 r1]) (auto simp: seqA_def split: sum.splits)
  qed
qed

text \<open>A relation kept by every pipe is kept by the connection of the modules.\<close>

lemma connect_pipes_rel:
  assumes "\<And>pc c r c'. parse_pipe now fs pc c = (r, c') \<Longrightarrow> R c \<Longrightarrow> R c'"
  shows "connect_pipes now fs ps c = (r, c') \<Longrightarrow> R c \<Longrightarrow> R c'"
proof (induction ps arbitrary: c r)
  case (Cons p ps)
  obtain n pc where p: "p = (n, pc)" by fastforce
  from Cons.prems(1) [unfolded p] show ?case
    by (cases rule: connect_pipes_Cons) (use assms Cons in blast)+
qed simp

lemma connect_pipes_here:
  "connect_pipes now fs ps c = (Inr ts, c') \<Longrightarrow> list_all (here c') (map snd ts)"
proof (induction ps arbitrary: c ts)
  case (Cons p ps)
  obtain n pc where p: "p = (n, pc)" by fastforce
  from Cons.prems [unfolded p] show ?case
  proof (cases rule: connect_pipes_Cons)
    case (more t c1 r1)
    then obtain ts1 where ts1: "r1 = Inr ts1" "ts = (n, t) # ts1" by blast
    have "keeps c1 c'"
      by (rule connect_pipes_rel [of now fs "keeps c1", OF _ more(2)]) (auto intro: keeps_trans parse_pipe_keeps)
    then have "here c' t" using here_keeps parse_pipe_here [OF more(1)] by blast
    then show ?thesis using ts1 Cons.IH more(2) by simp
  qed auto
qed simp

lemma connect_pass_Cons:
  assumes "connect_pass now fs sec upd ((m, config) # ms) c = (r, c')"
  obtains (failed) e where "connect_pipes now fs (pipe_section sec config) c = (Inl e, c')" "r = Inl e"
  | (skipped) e c1 where "connect_pipes now fs (pipe_section sec config) c = (Inl e, c1)" "connect_pass now fs sec upd ms c1 = (r, c')"
  | (more) ts c1 r1 where "connect_pipes now fs (pipe_section sec config) c = (Inr ts, c1)"
      "connect_pass now fs sec upd ms c1 = (r1, c')" "\<And>x. r = Inr x \<Longrightarrow> \<exists>x1. r1 = Inr x1 \<and> x = (upd ts m, config) # x1"
proof -
  obtain q c1 where q: "connect_pipes now fs (pipe_section sec config) c = (q, c1)" by fastforce
  show thesis
  proof (cases q)
    case (Inl e)
    show ?thesis
    proof (cases "\<exists>m. e = ConfigurationError m")
      case True
      then show ?thesis using assms q Inl by (intro skipped [of e c1]) auto
    next
      case False
      then have "(Inl e, c1) = (r, c')" using assms q Inl by (cases e) simp_all
      then show ?thesis using q Inl by (intro failed [of e]) auto
    qed
  next
    case (Inr ts)
    obtain r1 c2 where r1: "connect_pass now fs sec upd ms c1 = (r1, c2)" by fastforce
    show ?thesis
      using assms q Inr r1 by (intro more [of ts c1 r1]) (auto simp: seqA_def split: sum.splits)
  qed
qed

lemma connect_pass_rel:
  assumes "\<And>pc c r c'. parse_pipe now fs pc c = (r, c') \<Longrightarrow> R c \<Longrightarrow> R c'"
  shows "connect_pass now fs sec upd ms c = (r, c') \<Longrightarrow> R c \<Longrightarrow> R c'"
proof (induction ms arbitrary: c r)
  case (Cons p ms)
  have step: "R c'" if "connect_pipes now fs ps c = (r, c')" "R c" for ps c r c'
    using that(1) that(2) by (rule connect_pipes_rel [rotated 1]) (rule assms)
  obtain m config where p: "p = (m, config)" by fastforce
  from Cons.prems(1) [unfolded p] show ?case
  proof (cases rule: connect_pass_Cons)
    case (failed e)
    then show ?thesis using step [OF failed(1)] Cons.prems(2) by blast
  next
    case (skipped e c1)
    then show ?thesis using step [OF skipped(1)] Cons.prems(2) Cons.IH [OF skipped(2)] by blast
  next
    case (more ts c1 r1)
    then show ?thesis using step [OF more(1)] Cons.prems(2) Cons.IH [OF more(2)] by blast
  qed
qed simp

definition module_here :: "'f catalog \<Rightarrow> 'f module \<Rightarrow> bool" where
  "module_here c m = (list_all (here c) (map snd (mo_inputs m)) \<and> list_all (here c) (map snd (mo_outputs m)))"

lemma module_here_keeps: "module_here c m \<Longrightarrow> keeps c c' \<Longrightarrow> module_here c' m"
  by (auto simp: module_here_def list_all_iff intro: here_keeps)

lemma connect_pass_here:
  assumes "\<And>c ts m. module_here c m \<Longrightarrow> list_all (here c) (map snd ts) \<Longrightarrow> module_here c (upd ts m)"
  shows "connect_pass now fs sec upd ms c = (Inr x, c') \<Longrightarrow> list_all (module_here c) (map fst ms)
    \<Longrightarrow> list_all (module_here c') (map fst x)"
proof (induction ms arbitrary: c x)
  case (Cons p ms)
  obtain m config where p: "p = (m, config)" by fastforce
  have kp: "keeps c c1" if "connect_pipes now fs ps c = (r, c1)" for c c1 ps r
    by (rule connect_pipes_rel [of now fs "keeps c", OF _ that]) (auto intro: keeps_trans parse_pipe_keeps)
  have ks: "keeps c c1" if "connect_pass now fs sec upd ms c = (r, c1)" for c c1 r
    by (rule connect_pass_rel [of now fs "keeps c", OF _ that]) (auto intro: keeps_trans parse_pipe_keeps)
  have all: "list_all (module_here c1) (map fst ms)" if "keeps c c1" for c1
    using Cons.prems(2) that by (auto simp: list_all_iff intro: module_here_keeps)
  from Cons.prems(1) [unfolded p] show ?case
  proof (cases rule: connect_pass_Cons)
    case (skipped e c1)
    then show ?thesis using Cons.IH [OF skipped(2) all [OF kp [OF skipped(1)]]] by simp
  next
    case (more ts c1 r1)
    then obtain x1 where x: "r1 = Inr x1" "x = (upd ts m, config) # x1" by blast
    have "module_here c m" using Cons.prems(2) p by simp
    then have "module_here c1 m" using kp [OF more(1)] by (rule module_here_keeps)
    then have "module_here c1 (upd ts m)" using connect_pipes_here [OF more(1)] by (rule assms)
    then have "module_here c' (upd ts m)" using ks [OF more(2)] by (rule module_here_keeps)
    then show ?thesis using Cons.IH [OF more(2) [unfolded x(1)] all [OF kp [OF more(1)]]] x by simp
  qed simp
qed simp

section \<open>The flags after a start\<close>

definition flags :: "'f catalog \<Rightarrow> int \<Rightarrow> (bool option \<times> bool option) option" where
  "flags c i = map_option (\<lambda>s. (ds_is_source s, ds_is_destination s)) (get_data c i)"

lemma get_update_data_all:
  assumes "\<And>x. ds_id (g x) = ds_id x"
  shows "get_data (update_data i g c) j = map_option (\<lambda>s. if j = i then g s else s) (get_data c j)"
proof -
  have "get_data (update_data i g c) j = map_option (\<lambda>s. if ds_id s = i then g s else s) (get_data c j)"
    unfolding get_data_def update_data_def by (simp add: find_map_same assms)
  then show ?thesis by (cases "get_data c j") (auto dest: get_dataD)
qed

lemma get_touch_data_all: "get_data (touch_data now i c) j = map_option (\<lambda>s. if j = i then s\<lparr>ds_updated := now\<rparr> else s) (get_data c j)"
  using get_update_data_all [of "\<lambda>s. s\<lparr>ds_updated := now\<rparr>" i c j]
  by (simp add: touch_data_def Let_def split: option.split)

lemma flags_mark:
  "flags (mark_stream now set_source t c) i = map_option (\<lambda>(a, b). (if t = Local i then Some True else a, b)) (flags c i)"
  "flags (mark_stream now set_destination t c) i = map_option (\<lambda>(a, b). (a, if t = Local i then Some True else b)) (flags c i)"
  by (auto simp: flags_def mark_stream_def set_source_def set_destination_def get_update_data_all get_touch_data_all
      option.map_comp comp_def split: target.split intro!: map_option_cong)

lemma flags_marks:
  "flags (fold (mark_stream now set_source) ts c) i
    = map_option (\<lambda>(a, b). (if Local i \<in> set ts then Some True else a, b)) (flags c i)"
  "flags (fold (mark_stream now set_destination) ts c) i
    = map_option (\<lambda>(a, b). (a, if Local i \<in> set ts then Some True else b)) (flags c i)"
  by (induction ts arbitrary: c)
    (auto simp: flags_mark option.map_comp comp_def option.map_ident split_def intro!: map_option_cong)

lemma flags_modules:
  "flags (fold (mark_module now) ms c) i = map_option (\<lambda>(a, b).
     (if \<exists>m \<in> set ms. Local i \<in> snd ` set (mo_inputs m) then Some True else a,
      if \<exists>m \<in> set ms. Local i \<in> snd ` set (mo_outputs m) then Some True else b)) (flags c i)"
proof (induction ms arbitrary: c)
  case (Cons m ms)
  show ?case
    unfolding fold.simps comp_apply Cons.IH
    by (auto simp: mark_module_def flags_marks option.map_comp comp_def split_def intro!: map_option_cong)
qed (simp add: option.map_ident split_def)

definition unflagged :: "'f catalog \<Rightarrow> bool" where
  "unflagged c = (\<forall>s \<in> set (ct_data c). ds_is_source s \<noteq> Some True \<and> ds_is_destination s \<noteq> Some True)"

lemma unflagged_cong: "ct_data c' = ct_data c \<Longrightarrow> unflagged c' = unflagged c"
  by (simp add: unflagged_def)

lemma unflagged_flags: "unflagged c \<Longrightarrow> flags c i = Some (a, b) \<Longrightarrow> a \<noteq> Some True \<and> b \<noteq> Some True"
  by (auto simp: unflagged_def flags_def dest!: get_dataD)

lemma unflagged_add: "unflagged (add_data d s c) = (unflagged c \<and> ds_is_source s \<noteq> Some True \<and> ds_is_destination s \<noteq> Some True)"
  by (auto simp: unflagged_def add_data_def Let_def)

lemma unflagged_update:
  "unflagged c \<Longrightarrow> (\<And>s. s \<in> set (ct_data c) \<Longrightarrow> ds_is_source (g s) \<noteq> Some True \<and> ds_is_destination (g s) \<noteq> Some True)
    \<Longrightarrow> unflagged (update_data i g c)"
  by (auto simp: unflagged_def update_data_def)

lemma unflagged_touch: "unflagged c \<Longrightarrow> unflagged (touch_data now i c)" "unflagged (touch_folder now d c) = unflagged c"
proof -
  show f: "unflagged (touch_folder now d c) = unflagged c" for d and c :: "'a catalog"
    by (rule unflagged_cong) simp
  assume "unflagged c"
  then have "unflagged (update_data i (\<lambda>s. s\<lparr>ds_updated := now\<rparr>) c)"
    by (rule unflagged_update) (use \<open>unflagged c\<close> in \<open>auto simp: unflagged_def\<close>)
  then show "unflagged (touch_data now i c)" by (auto simp: touch_data_def Let_def f split: option.split)
qed

lemma unflagged_reset: "unflagged (reset_flags c)"
  by (auto simp: unflagged_def reset_flags_def)

lemma unflagged_find: "find_folder now create path c = (r, c') \<Longrightarrow> unflagged c' = unflagged c"
  by (rule unflagged_cong) (simp add: find_folder_data)

lemma unflagged_pipe: "parse_pipe now fs pc c = (r, c') \<Longrightarrow> unflagged c \<Longrightarrow> unflagged c'"
  by (drule parse_pipe_steps) (auto simp: unflagged_find unflagged_add inline_stream_def)

lemma merge_flags:
  "merge_stream now a b = Inr (u, a') \<Longrightarrow> ds_is_source a' = ds_is_source b \<and> ds_is_destination a' = ds_is_destination b
     \<and> ds_id a' = ds_id a \<and> ds_name a' = ds_name a \<and> ds_folder a' = ds_folder a"
  by (erule merge_stream_result) simp

lemma save_stream_steps:
  assumes "save_stream now s path c = (r, c')"
  obtains (found) q where "find_folder now True path c = (q, c')"
  | (new) d c1 where "find_folder now True path c = (Inr (Some d), c1)" "filter (\<lambda>x. ds_name x = ds_name s) (data_in c1 d) = []"
      "c' = touch_folder now d (add_data d (with_defaults s) c1)"
  | (merged) d c1 cur u cur' where "find_folder now True path c = (Inr (Some d), c1)" "cur \<in> set (ct_data c1)"
      "merge_stream now cur s = Inr (u, cur')"
      "c' = (if u then touch_data now (ds_id cur) else (\<lambda>c. c)) (update_data (ds_id cur) (\<lambda>_. cur') c1)"
proof -
  obtain q c1 where q: "find_folder now True path c = (q, c1)" by fastforce
  show thesis
  proof (cases "c' = c1")
    case True
    then show ?thesis using q found by blast
  next
    case False
    then obtain d where d: "q = Inr (Some d)" using assms q by (auto simp: save_stream_def split: sum.splits option.splits)
    let ?fs = "filter (\<lambda>x. ds_name x = ds_name s) (data_in c1 d)"
    consider "?fs = []" | cur where "?fs = [cur]" | a b u where "?fs = a # b # u" by (metis list.exhaust)
    then show ?thesis
    proof cases
      case 1
      then show ?thesis using new [of d c1] assms q d by (auto simp: save_stream_def)
    next
      case (2 cur)
      then have "cur \<in> set (ct_data c1)" using data_named by blast
      then show ?thesis using merged [of d c1 cur] assms q d 2 False
        by (auto simp: save_stream_def split: if_splits sum.splits prod.splits)
    next
      case 3
      then show ?thesis using assms q d False by (simp add: save_stream_def)
    qed
  qed
qed

lemma unflagged_save:
  assumes "save_stream now s path c = (r, c')" "unflagged c" "ds_is_source s = None" "ds_is_destination s = None"
  shows "unflagged c'"
  using assms(1)
proof (cases rule: save_stream_steps)
  case (found q)
  then show ?thesis using assms(2) unflagged_find by blast
next
  case (new d c1)
  then show ?thesis using assms(2-4) unflagged_find [OF new(1)] by (simp add: unflagged_touch unflagged_add with_defaults_def)
next
  case (merged d c1 cur u cur')
  have "unflagged c1" using assms(2) unflagged_find [OF merged(1)] by simp
  then have "unflagged (update_data (ds_id cur) (\<lambda>_. cur') c1)"
    by (rule unflagged_update) (use merge_flags [OF merged(3)] assms(3,4) in simp)
  then show ?thesis unfolding merged(4) by (simp add: unflagged_touch)
qed

definition fresh :: "'f data_stream \<Rightarrow> bool" where
  "fresh s = (ds_is_source s = None \<and> ds_is_destination s = None \<and> valid_name (ds_name s))"

lemma on_key_error_Inr [simp]: "on_key_error e r = Inr x \<longleftrightarrow> r = Inr x"
  by (cases "(e, r)" rule: on_key_error.cases) auto

lemma config_fresh:
  assumes "stream_from_config fmul flt now config = Inr s"
  shows "fresh (s\<lparr>ds_is_configured := True\<rparr>)"
proof -
  obtain main where "map_of config ''Main'' = Some main" using assms by (auto simp: stream_from_config_def split: option.splits)
  with assms show ?thesis by (auto simp: stream_from_config_def fresh_def res_simps validate_name_iff split: if_splits)
qed

lemma add_to_path_set:
  "\<forall>(p, ss) \<in> set streams. \<forall>s \<in> set ss. P s \<Longrightarrow> P x \<Longrightarrow> (p, ss) \<in> set (add_to_path path x streams) \<Longrightarrow> s \<in> set ss \<Longrightarrow> P s"
  by (fastforce simp: add_to_path_def split: option.splits if_splits)

lemma parse_streams_fresh:
  "parse_streams fmul flt now wc cs streams = Inr out \<Longrightarrow> \<forall>(p, ss) \<in> set streams. \<forall>s \<in> set ss. fresh s
    \<Longrightarrow> \<forall>(p, ss) \<in> set out. \<forall>s \<in> set ss. fresh s"
proof (induction cs arbitrary: streams)
  case (Cons config cs)
  let ?r = "bindE (stream_from_config fmul flt now config) (\<lambda>s.
           bindE (setting (pipe_section ''Main'' config) ''path'') (\<lambda>path.
           bindE (validate_path wc path) (\<lambda>path. Inr (path, s\<lparr>ds_is_configured := True\<rparr>))))"
  show ?case
  proof (cases ?r)
    case (Inl e)
    then have "parse_streams fmul flt now wc cs streams = Inr out" using Cons.prems(1) by (cases e) simp_all
    then show ?thesis using Cons.IH Cons.prems(2) by blast
  next
    case (Inr x)
    obtain path s where x: "x = (path, s)" by fastforce
    have f: "fresh s" using Inr x by (auto simp: res_simps intro: config_fresh)
    have p: "parse_streams fmul flt now wc cs (add_to_path path s streams) = Inr out" using Cons.prems(1) Inr x by simp
    show ?thesis
      by (rule Cons.IH [OF p]) (use add_to_path_set [OF Cons.prems(2) f] in blast)
  qed
qed auto

text \<open>A relation kept by the storing of every fresh stream is kept by the loading of the streams.\<close>

lemma save_streams_rel:
  assumes "\<And>s path c r c'. fresh s \<Longrightarrow> save_stream now s path c = (r, c') \<Longrightarrow> R c \<Longrightarrow> R c'"
  shows "save_streams now ps c = (r, c') \<Longrightarrow> list_all fresh (map snd ps) \<Longrightarrow> R c \<Longrightarrow> R c'"
proof (induction ps arbitrary: c r)
  case (Cons p ps)
  obtain path s where p: "p = (path, s)" by fastforce
  obtain r1 c1 where s: "save_stream now s path c = (r1, c1)" by fastforce
  have r1: "R c1" using assms [OF _ s] Cons.prems p by simp
  show ?case
  proof (cases r1)
    case (Inl e)
    then show ?thesis using r1 s Cons.prems(1) p by (simp add: seqA_def)
  next
    case (Inr u)
    then have "save_streams now ps c1 = (r, c')" using s Cons.prems(1) p by (simp add: seqA_def)
    then show ?thesis using Cons.IH Cons.prems(2) r1 by simp
  qed
qed simp

lemma load_streams_rel:
  assumes "\<And>s path c r c'. fresh s \<Longrightarrow> save_stream now s path c = (r, c') \<Longrightarrow> R c \<Longrightarrow> R c'"
    "load_streams fmul flt wc now cs c = (r, c')" "R c"
  shows "R c'"
proof (cases "parse_streams fmul flt now wc cs []")
  case (Inl e)
  then show ?thesis using assms(2,3) by (simp add: load_streams_def)
next
  case (Inr out)
  let ?ps = "concat (map (\<lambda>(path, ss). map (Pair path) ss) out)"
  have f: "list_all fresh (map snd ?ps)"
    using parse_streams_fresh [OF Inr] by (auto simp: list_all_iff)
  obtain r1 c1 where s: "save_streams now ?ps c = (r1, c1)" by fastforce
  have "c' = c1" using assms(2) Inr s by (cases r1) (simp_all add: load_streams_def seqA_def)
  then show ?thesis using save_streams_rel [of now R, OF assms(1) s f assms(3)] by simp
qed

lemma load_modules_start:
  fixes c :: "'f::{zero,one} catalog"
  assumes "load_modules now fs cfgs c = (Inr mods, c')"
  obtains s1 s2 s3 c1 c2 where "parse_modules 0 cfgs = Inr s1"
    "connect_pass now fs ''Outputs'' (\<lambda>ts m. m\<lparr>mo_outputs := ts\<rparr>) s1 c = (Inr s2, c1)"
    "connect_pass now fs ''Inputs'' (\<lambda>ts m. m\<lparr>mo_inputs := ts\<rparr>) s2 c1 = (Inr s3, c2)"
    "mods = map (marked now \<circ> fst) s3" "c' = fold (mark_module now) (map fst s3) c2"
proof -
  obtain s1 :: "('f module \<times> config_file) list" where s1: "parse_modules 0 cfgs = Inr s1" using assms by (auto simp: load_modules_def split: sum.splits)
  obtain q1 c1 where q1: "connect_pass now fs ''Outputs'' (\<lambda>ts m. m\<lparr>mo_outputs := ts\<rparr>) s1 c = (q1, c1)" by fastforce
  obtain s2 where s2: "q1 = Inr s2" using assms s1 q1 by (cases q1) (simp_all add: load_modules_def seqA_def)
  obtain q2 c2 where q2: "connect_pass now fs ''Inputs'' (\<lambda>ts m. m\<lparr>mo_inputs := ts\<rparr>) s2 c1 = (q2, c2)" by fastforce
  obtain s3 where s3: "q2 = Inr s3" using assms s1 q1 s2 q2 by (cases q2) (simp_all add: load_modules_def seqA_def)
  show thesis
    using that [of s1 s2 c1 s3 c2] assms s1 q1 s2 q2 s3 by (simp add: load_modules_def seqA_def modifyA_def)
qed

lemma parse_modules_empty: "parse_modules uuid cfgs = Inr ms \<Longrightarrow> m \<in> set (map fst ms) \<Longrightarrow> mo_inputs m = [] \<and> mo_outputs m = []"
proof (induction cfgs arbitrary: uuid ms)
  case (Cons config cs)
  show ?case
  proof (cases "module_from_config uuid config :: 'a module res")
    case (Inl e)
    then have "parse_modules uuid cs = Inr ms" using Cons.prems(1) by (cases e) simp_all
    then show ?thesis using Cons.IH Cons.prems(2) by blast
  next
    case (Inr m0)
    then obtain ms1 where ms1: "parse_modules (Suc uuid) cs = Inr ms1" "ms = (m0, config) # ms1"
      using Cons.prems(1) by (auto simp: res_simps)
    have "mo_inputs m0 = [] \<and> mo_outputs m0 = []"
      using Inr by (auto simp: module_from_config_def res_simps split: option.splits)
    then show ?thesis using Cons.IH [OF ms1(1)] Cons.prems(2) ms1(2) by auto
  qed
qed simp

lemma start_catalogue_parts:
  assumes "start_catalogue fmul flt wc now fs ss ms c = (Inr mods, c')"
  obtains x c1 where "load_streams fmul flt wc now ss (reset_flags c) = (Inr x, c1)" "load_modules now fs ms c1 = (Inr mods, c')"
proof -
  obtain q c1 where q: "load_streams fmul flt wc now ss (reset_flags c) = (q, c1)" by fastforce
  show thesis using that assms q by (cases q) (auto simp: start_catalogue_def seqA_def modifyA_def)
qed

lemma mark_remote_Local [simp]: "mark_remote now upd t = Local i \<longleftrightarrow> t = Local i"
  by (auto simp: mark_remote_def split: target.split)

lemma snd_map_image: "snd ` set (map (\<lambda>(n, t). (n, f t)) xs) = f ` snd ` set xs"
  by force

lemma Local_mark_remote: "Local i \<in> mark_remote now upd ` T \<longleftrightarrow> Local i \<in> T"
  by (metis (no_types) image_iff mark_remote_Local)

lemma marked_Local:
  "Local i \<in> snd ` set (mo_outputs (marked now m)) \<longleftrightarrow> Local i \<in> snd ` set (mo_outputs m)"
  "Local i \<in> snd ` set (mo_inputs (marked now m)) \<longleftrightarrow> Local i \<in> snd ` set (mo_inputs m)"
proof -
  have "mo_outputs (marked now m) = map (\<lambda>(n, t). (n, mark_remote now set_destination t)) (mo_outputs m)"
    "mo_inputs (marked now m) = map (\<lambda>(n, t). (n, mark_remote now set_source t)) (mo_inputs m)"
    by (simp_all add: marked_def)
  then show "Local i \<in> snd ` set (mo_outputs (marked now m)) \<longleftrightarrow> Local i \<in> snd ` set (mo_outputs m)"
    "Local i \<in> snd ` set (mo_inputs (marked now m)) \<longleftrightarrow> Local i \<in> snd ` set (mo_inputs m)"
    by (simp_all only: snd_map_image Local_mark_remote)
qed

lemma flag_iff:
  assumes "y = map_option (\<lambda>(a, b). (if p then Some True else a, if q then Some True else b)) x"
    and "p \<Longrightarrow> x \<noteq> None" "q \<Longrightarrow> x \<noteq> None" "\<And>a b. x = Some (a, b) \<Longrightarrow> a \<noteq> Some True \<and> b \<noteq> Some True"
  shows "(\<exists>a b. y = Some (a, b) \<and> b = Some True) = q \<and> (\<exists>a b. y = Some (a, b) \<and> a = Some True) = p"
  using assms by (cases x) (auto split: if_splits)

lemma start_marks:
  assumes "start_catalogue fmul flt word_char now followers streams modules c = (Inr mods, c')"
  shows "((\<exists>s. get_data c' i = Some s \<and> ds_is_destination s = Some True) \<longleftrightarrow> (\<exists>m \<in> set mods. Local i \<in> snd ` set (mo_outputs m)))
     \<and> ((\<exists>s. get_data c' i = Some s \<and> ds_is_source s = Some True) \<longleftrightarrow> (\<exists>m \<in> set mods. Local i \<in> snd ` set (mo_inputs m)))"
proof -
  obtain x c1 where l: "load_streams fmul flt word_char now streams (reset_flags c) = (Inr x, c1)"
      "load_modules now followers modules c1 = (Inr mods, c')"
    using assms by (rule start_catalogue_parts)
  obtain s1 s2 s3 c2 c3 where p: "parse_modules 0 modules = Inr s1"
    "connect_pass now followers ''Outputs'' (\<lambda>ts m. m\<lparr>mo_outputs := ts\<rparr>) s1 c1 = (Inr s2, c2)"
    "connect_pass now followers ''Inputs'' (\<lambda>ts m. m\<lparr>mo_inputs := ts\<rparr>) s2 c2 = (Inr s3, c3)"
    "mods = map (marked now \<circ> fst) s3" "c' = fold (mark_module now) (map fst s3) c3"
    using l(2) by (rule load_modules_start)
  have "unflagged c1"
    by (rule load_streams_rel [of now unflagged, OF _ l(1) unflagged_reset]) (auto simp: fresh_def intro: unflagged_save)
  with p(2) have "unflagged c2" by (rule connect_pass_rel [rotated 1]) (rule unflagged_pipe)
  with p(3) have u: "unflagged c3" by (rule connect_pass_rel [rotated 1]) (rule unflagged_pipe)
  have "list_all (module_here c1) (map fst s1)"
    using parse_modules_empty [OF p(1)] by (auto simp: list_all_iff module_here_def)
  with p(2) have "list_all (module_here c2) (map fst s2)"
    by (rule connect_pass_here [rotated 1]) (simp add: module_here_def)
  with p(3) have h: "list_all (module_here c3) (map fst s3)"
    by (rule connect_pass_here [rotated 1]) (simp add: module_here_def)
  have fl: "flags c' i = map_option (\<lambda>(a, b). (if \<exists>m \<in> fst ` set s3. Local i \<in> snd ` set (mo_inputs m) then Some True else a,
      if \<exists>m \<in> fst ` set s3. Local i \<in> snd ` set (mo_outputs m) then Some True else b)) (flags c3 i)"
    unfolding p(5) flags_modules by simp
  have e: "flags c3 i \<noteq> None" if "m \<in> fst ` set s3" "Local i \<in> snd ` set (mo_inputs m) \<or> Local i \<in> snd ` set (mo_outputs m)" for m
    using h that by (force simp: list_all_iff module_here_def here_def flags_def)
  have k: "(\<exists>s. get_data c' i = Some s \<and> P (ds_is_source s) (ds_is_destination s)) \<longleftrightarrow> (\<exists>a b. flags c' i = Some (a, b) \<and> P a b)" for P
    by (auto simp: flags_def)
  have m: "(\<exists>m \<in> set mods. Local i \<in> snd ` set (mo_outputs m)) \<longleftrightarrow> (\<exists>m \<in> fst ` set s3. Local i \<in> snd ` set (mo_outputs m))"
    "(\<exists>m \<in> set mods. Local i \<in> snd ` set (mo_inputs m)) \<longleftrightarrow> (\<exists>m \<in> fst ` set s3. Local i \<in> snd ` set (mo_inputs m))"
    unfolding p(4) by (simp_all add: marked_Local del: image_iff)
  have "(\<exists>a b. flags c' i = Some (a, b) \<and> b = Some True) = (\<exists>m \<in> fst ` set s3. Local i \<in> snd ` set (mo_outputs m))
    \<and> (\<exists>a b. flags c' i = Some (a, b) \<and> a = Some True) = (\<exists>m \<in> fst ` set s3. Local i \<in> snd ` set (mo_inputs m))"
    by (rule flag_iff [OF fl]) (use e unflagged_flags [OF u] in blast)+
  then show ?thesis
    using k [of "\<lambda>a b. b = Some True"] k [of "\<lambda>a b. a = Some True"] m by simp
qed

text \<open>
  C30.  After a start of the server the marks tell which streams the modules use: a stream of the catalogue is
  marked as a destination exactly if it is an output of a loaded module, and as a source exactly if it is an
  input of one.  Marks of an earlier run are gone, streams of modules that were left out are not marked, and
  every stream that a loaded module refers to is in the catalogue.
\<close>

theorem start_marks_streams:
  assumes "start_catalogue fmul flt word_char now followers streams modules c = (Inr mods, c')"
  shows "((\<exists>s. get_data c' i = Some s \<and> ds_is_destination s = Some True) \<longleftrightarrow> (\<exists>m \<in> set mods. Local i \<in> snd ` set (mo_outputs m)))
     \<and> ((\<exists>s. get_data c' i = Some s \<and> ds_is_source s = Some True) \<longleftrightarrow> (\<exists>m \<in> set mods. Local i \<in> snd ` set (mo_inputs m)))"
  by (rule start_marks [OF assms])

definition demo_module :: config_file where
  "demo_module = [(''Main'', [(''name'', ''m''), (''exec_cmd'', ''run'')]),
     (''Inputs'', [(''in'', ''/a/s'')]), (''Outputs'', [(''out'', ''/a/t:int16[x]'')])]"

definition demo_start :: "int module list res \<times> int catalog" where
  "demo_start = start_catalogue (\<lambda>a b. a * b) (\<lambda>_. Inl PyValueError) (\<lambda>_. True) 9 [] []
     [[(''Main'', [(''name'', ''x''), (''exec_cmd'', ''run'')]), (''Outputs'', [(''out'', ''/a/s:int16[y]'')])], demo_module] demo_catalog"

lemma demo_start_result: "\<exists>m c. demo_start = (Inr [m], c) \<and> mo_name m = ''m'' \<and> map snd (mo_inputs m) = [Local 1] \<and> map snd (mo_outputs m) = [Local 2]"
proof -
  have "(case demo_start of (Inr [m], c) \<Rightarrow> mo_name m = ''m'' \<and> map snd (mo_inputs m) = [Local 1] \<and> map snd (mo_outputs m) = [Local 2]
     | _ \<Rightarrow> False)" by code_simp
  then show ?thesis by (auto split: prod.splits sum.splits list.splits)
qed

lemma start_marks_streams_witness:
  "\<exists>ms c s t. demo_start = (Inr ms, c) \<and> get_data c 1 = Some s \<and> ds_is_source s = Some True \<and> ds_is_destination s \<noteq> Some True
     \<and> get_data c 2 = Some t \<and> ds_is_destination t = Some True \<and> ds_is_source t \<noteq> Some True"
proof -
  obtain m c where m: "demo_start = (Inr [m], c)" "map snd (mo_inputs m) = [Local 1]" "map snd (mo_outputs m) = [Local 2]"
    using demo_start_result by (elim exE conjE) 
  have l: "snd ` set (mo_inputs m) = {Local 1}" "snd ` set (mo_outputs m) = {Local 2}"
    using m(2,3) by (metis list.set_map list.simps(15) empty_set)+
  note f = start_marks_streams [OF m(1) [unfolded demo_start_def]]
  obtain s where s: "get_data c 1 = Some s" "ds_is_source s = Some True" using f [of 1] l by auto
  obtain t where t: "get_data c 2 = Some t" "ds_is_destination t = Some True" using f [of 2] l by auto
  have "ds_is_destination s \<noteq> Some True" "ds_is_source t \<noteq> Some True" using f [of 1] f [of 2] l s(1) t(1) by auto
  then show ?thesis using m(1) s t by blast
qed

section \<open>A start keeps the catalogue well-formed\<close>

lemma name_free:
  assumes "filter (\<lambda>s. ds_name s = name) (data_in c d) = []" "ct_events c = []"
  shows "name \<notin> set (stream_names c d)"
  using assms by (auto simp: stream_names_def events_in_def filter_empty_conv)

lemma find_folder_grows:
  assumes "catalog_ok c" "find_folder now create path c = (Inr (Some d), c')"
  shows "catalog_ok c' \<and> d \<in> fst ` set (folders_of c')"
  using find_folder_ok [OF assms] growsD(1) by blast

definition plain_ok :: "'f catalog \<Rightarrow> bool" where
  "plain_ok c = (catalog_ok c \<and> ct_events c = [])"

lemma demo_no_events: "ct_events demo_catalog = []"
  by (simp add: demo_catalog_def)

lemma find_plain: "find_folder now create path c = (r, c') \<Longrightarrow> plain_ok c \<Longrightarrow> plain_ok c'"
  unfolding plain_ok_def using find_folder_ok growsD(1) find_folder_data by metis

lemma add_plain:
  assumes "plain_ok c" "find_folder now True path c = (Inr (Some d), c1)"
    "filter (\<lambda>s. ds_name s = ds_name x) (data_in c1 d) = []" "valid_name (ds_name x)"
  shows "plain_ok (add_data d x c1)"
proof -
  have c1: "plain_ok c1" using find_plain [OF assms(2,1)] .
  have d: "d \<in> fst ` set (folders_of c1)" using find_folder_grows [OF _ assms(2)] assms(1) by (simp add: plain_ok_def)
  have "ds_name x \<notin> set (stream_names c1 d)" using name_free [OF assms(3)] c1 by (simp add: plain_ok_def)
  then have "catalog_ok (add_data d x c1)"
    using add_data_ok [of c1 d x] c1 d assms(4) by (simp add: plain_ok_def)
  then show ?thesis using c1 by (simp add: plain_ok_def add_data_def Let_def)
qed

lemma plain_pipe:
  assumes "parse_pipe now fs pc c = (r, c')" "plain_ok c"
  shows "plain_ok c'"
  using parse_pipe_steps [OF assms(1)]
proof (elim disjE exE conjE)
  fix path d c1 ty name names
  assume "find_folder now True path c = (Inr (Some d), c1)" "valid_name name"
    "filter (\<lambda>s. ds_name s = name) (data_in c1 d) = []" "c' = add_data d (inline_stream now name ty names) c1"
  then show ?thesis using add_plain [OF assms(2), of now path d c1 "inline_stream now name ty names"]
    by (simp add: inline_stream_def)
qed (use assms(2) find_plain in blast)+

lemma streams_update_const:
  assumes "catalog_ok c" "s \<in> set (ct_data c)" "ds_id s' = ds_id s" "ds_name s' = ds_name s" "ds_folder s' = ds_folder s"
  shows "streams_of (update_data (ds_id s) (\<lambda>_. s') c) = streams_of c"
proof -
  have "x = s" if "x \<in> set (ct_data c)" "ds_id x = ds_id s" for x
    using same_id [OF distinct_data_ids [OF assms(1)] that(1) assms(2) that(2)] .
  then show ?thesis using assms(3-5) by (auto simp: streams_of_def update_data_def)
qed

lemma plain_touch: "plain_ok (touch_data now i c) = plain_ok c" "plain_ok (touch_folder now d c) = plain_ok c"
proof -
  have "ct_events (touch_data now i c) = ct_events c" by (simp add: touch_data_def Let_def split: option.split)
  then show "plain_ok (touch_data now i c) = plain_ok c" "plain_ok (touch_folder now d c) = plain_ok c"
    by (simp_all add: plain_ok_def)
qed

lemma plain_update: "plain_ok c \<Longrightarrow> streams_of (update_data i g c) = streams_of c \<Longrightarrow> plain_ok (update_data i g c)"
  by (simp add: plain_ok_def catalog_ok_def seqs_ok_def)

lemma plain_save:
  assumes "fresh s" "save_stream now s path c = (r, c')" "plain_ok c"
  shows "plain_ok c'"
  using assms(2)
proof (cases rule: save_stream_steps)
  case (found q)
  then show ?thesis using assms(3) find_plain by blast
next
  case (new d c1)
  then show ?thesis using add_plain [OF assms(3) new(1), of "with_defaults s"] assms(1)
    by (simp add: plain_touch with_defaults_def fresh_def)
next
  case (merged d c1 cur u cur')
  have "plain_ok c1" using assms(3) find_plain [OF merged(1)] by simp
  then have "plain_ok (update_data (ds_id cur) (\<lambda>_. cur') c1)"
    using streams_update_const [of c1 cur cur'] merged(2) merge_flags [OF merged(3)] by (intro plain_update) (auto simp: plain_ok_def)
  then show ?thesis unfolding merged(4) by (simp add: plain_touch)
qed

lemma plain_mark: "plain_ok c \<Longrightarrow> plain_ok (mark_stream now set_source t c)" "plain_ok c \<Longrightarrow> plain_ok (mark_stream now set_destination t c)"
  by (auto simp: mark_stream_def plain_touch set_source_def set_destination_def
      intro!: plain_update update_data_same split: target.split)

lemma fold_keeps: "(\<And>x s. P s \<Longrightarrow> P (f x s)) \<Longrightarrow> P s \<Longrightarrow> P (fold f xs s)"
  by (induction xs arbitrary: s) auto

lemma plain_mark_module:
  assumes "plain_ok c"
  shows "plain_ok (mark_module now m c)"
proof -
  have "plain_ok (fold (mark_stream now set_destination) (map snd (mo_outputs m)) c)"
    using plain_mark(2) assms by (rule fold_keeps)
  with plain_mark(1) show ?thesis unfolding mark_module_def by (rule fold_keeps)
qed

lemma plain_reset: "plain_ok c \<Longrightarrow> plain_ok (reset_flags c)"
proof -
  assume "plain_ok c"
  moreover have "streams_of (reset_flags c) = streams_of c" "folders_of (reset_flags c) = folders_of c"
    by (simp_all add: reset_flags_def streams_of_def folders_of_def)
  ultimately show ?thesis by (simp add: plain_ok_def catalog_ok_def seqs_ok_def) (simp add: reset_flags_def)
qed

lemma plain_modules:
  assumes "load_modules now fs cfgs c = (r, c')" "plain_ok c"
  shows "plain_ok c'"
proof (cases "parse_modules 0 cfgs :: ('a module \<times> config_file) list res")
  case (Inl e)
  then show ?thesis using assms by (simp add: load_modules_def)
next
  case (Inr s1)
  have pass: "plain_ok c2" if "connect_pass now fs sec upd ms c1 = (q, c2)" "plain_ok c1" for sec upd ms c1 c2 q
    using that by (rule connect_pass_rel [rotated 1]) (rule plain_pipe)
  obtain q1 c1 where q1: "connect_pass now fs ''Outputs'' (\<lambda>ts m. m\<lparr>mo_outputs := ts\<rparr>) s1 c = (q1, c1)" by fastforce
  note c1 = pass [OF q1 assms(2)]
  show ?thesis
  proof (cases q1)
    case (Inl e)
    then show ?thesis using assms(1) Inr q1 c1 by (simp add: load_modules_def seqA_def)
  next
    case s2: (Inr s2)
    obtain q2 c2 where q2: "connect_pass now fs ''Inputs'' (\<lambda>ts m. m\<lparr>mo_inputs := ts\<rparr>) s2 c1 = (q2, c2)" by fastforce
    note c2 = pass [OF q2 c1]
    have "plain_ok (fold (mark_module now) ms c2)" for ms
      using plain_mark_module c2 by (rule fold_keeps)
    then show ?thesis using assms(1) Inr q1 s2 q2 c2
      by (cases q2) (auto simp: load_modules_def seqA_def modifyA_def)
  qed
qed

text \<open>
  C31.  The start of the server keeps the catalogue well-formed, whatever the configuration files hold and
  whether the start succeeds or fails, as long as there are no event streams: ids stay unique, folders stay a
  tree and names stay proper and unique in their folder.
\<close>

theorem start_keeps_catalogue:
  assumes "catalog_ok c" "ct_events c = []"
    and "start_catalogue fmul flt word_char now followers streams modules c = (r, c')"
  shows "catalog_ok c'"
proof -
  obtain q c1 where q: "load_streams fmul flt word_char now streams (reset_flags c) = (q, c1)" by fastforce
  have "plain_ok (reset_flags c)" using assms(1,2) by (intro plain_reset) (simp add: plain_ok_def)
  with q have "plain_ok c1" by (rule load_streams_rel [rotated 1]) (rule plain_save)
  then have "plain_ok c'" using assms(3) q
    by (cases q) (auto simp: start_catalogue_def seqA_def modifyA_def intro: plain_modules)
  then show ?thesis by (simp add: plain_ok_def)
qed

lemma start_keeps_catalogue_witness: "catalog_ok (snd demo_start)"
  using start_keeps_catalogue [OF demo_catalog_ok(1)] unfolding demo_start_def
  by (metis (no_types) demo_no_events prod.collapse)

text \<open>With event streams it does not: a pipe with the name of one gets a data stream beside it.\<close>

lemma pipe_named_like_event:
  assumes "catalog_ok c" "pipe_parts pc = Inr (None, path, name, Some (ty, names))"
    and "find_folder now True path c = (Inr (Some d), c)" "(EventRef e, name, Some d) \<in> set (streams_of c)"
  shows "\<exists>i c'. parse_pipe now followers pc c = (Inr (Local i), c') \<and> \<not> catalog_ok c'"
proof -
  note ok = catalog_okD(1) [OF assms(1)]
  have "filter (\<lambda>s. ds_name s = name) (data_in c d) = []"
  proof (rule ccontr)
    assume "filter (\<lambda>s. ds_name s = name) (data_in c d) \<noteq> []"
    then obtain s where "s \<in> set (data_in c d)" "ds_name s = name" by (auto simp: filter_empty_conv)
    then have "(DataRef (ds_id s), name, Some d) \<in> set (streams_of c)" by (auto simp: data_in_def streams_of_def)
    from tree_okD(7) [OF ok this assms(4)] show False by simp
  qed
  then have p: "parse_pipe now followers pc c = (Inr (Local (ct_data_seq c + 1)), add_data d (inline_stream now name ty names) c)"
    using assms(2,3) by (simp add: parse_pipe_def)
  let ?c = "add_data d (inline_stream now name ty names) c"
  have "(DataRef (ct_data_seq c + 1), name, Some d) \<in> set (streams_of ?c)" "(EventRef e, name, Some d) \<in> set (streams_of ?c)"
    using assms(4) by (auto simp: streams_of_def add_data_def Let_def inline_stream_def)
  then have "\<not> catalog_ok ?c" using tree_okD(7) catalog_okD(1) by (metis stream_ref.distinct(1))
  then show ?thesis using p by blast
qed

end
