(* ===== verification/Worker.thy ===== *)
theory Worker
  imports Data_Transfer
begin

text \<open>
  The worker that runs a module: \<open>models/worker.py\<close>.  Its output handler reads what the module writes and
  hands every block to the pipes that subscribe to the stream: the inserter, other modules, clients.  A
  subscriber of the model is one of the two classes of pipes that subscribe; the awaits of a write to another
  module's pipe end as a script says.
\<close>

section \<open>The output handler\<close>

text \<open>\<open>_verify_monotonic_timestamps\<close> on the timestamps of a block.\<close>

definition verify_monotonic :: "int list \<Rightarrow> int option \<Rightarrow> bool" where
  "verify_monotonic ts last_ts =
     (if ts = [] then True
      else if 1 < length ts \<and> list_ex (\<lambda>(a, b). b - a \<le> 0) (zip ts (tl ts)) then False
      else (case last_ts of None \<Rightarrow> True | Some t \<Rightarrow> \<not> t \<ge> hd ts))"

text \<open>\<open>except (ConnectionResetError, BrokenPipeError)\<close>.\<close>

definition lost_connection :: "exn \<Rightarrow> bool" where
  "lost_connection e = (e = PyConnectionError)"

text \<open>
  The loop over a copy of the subscribers that writes one block to each.  A write that does not end in time
  has the result \<open>None\<close>.
\<close>

fun offer :: "('s \<Rightarrow> row list \<Rightarrow> unit res option \<times> 's) \<Rightarrow> ('s \<Rightarrow> unit res \<times> 's) \<Rightarrow> row list
    \<Rightarrow> 's list \<Rightarrow> unit res \<times> 's list" where
  "offer wr brk data [] = (Inr (), [])"
| "offer wr brk data (s # ss) =
     (case wr s data of
        (Some (Inr _), s) \<Rightarrow> map_prod id ((#) s) (offer wr brk data ss)
      | (Some (Inl e), s) \<Rightarrow> if lost_connection e then offer wr brk data ss else (Inl e, s # ss)
      | (None, s) \<Rightarrow>
          (case brk s of
             (Inr _, s) \<Rightarrow> map_prod id ((#) s) (offer wr brk data ss)
           | (Inl e, s) \<Rightarrow> (Inl e, s # ss)))"

text \<open>\<open>close_interval_nowait\<close> and \<open>close_interval\<close> on all subscribers.\<close>

fun break_all :: "('s \<Rightarrow> unit res \<times> 's) \<Rightarrow> 's list \<Rightarrow> unit res \<times> 's list" where
  "break_all brk [] = (Inr (), [])"
| "break_all brk (s # ss) =
     (case brk s of
        (Inr _, s) \<Rightarrow> map_prod id ((#) s) (break_all brk ss)
      | (Inl e, s) \<Rightarrow> (Inl e, s # ss))"

fun close_all :: "('s \<Rightarrow> unit res option \<times> 's) \<Rightarrow> 's list \<Rightarrow> unit res option \<times> 's list" where
  "close_all cls [] = (Some (Inr ()), [])"
| "close_all cls (s # ss) =
     (case cls s of
        (Some (Inr _), s) \<Rightarrow> map_prod id ((#) s) (close_all cls ss)
      | (r, s) \<Rightarrow> (r, s # ss))"

text \<open>
  The loop of \<open>_output_handler\<close>: how it ends, whether it has asked for a restart of the module, the module's
  pipe and the subscribers.
\<close>

fun output_loop :: "nat \<Rightarrow> ('p \<Rightarrow> bool res option \<times> 'p) \<Rightarrow> ('p \<Rightarrow> row list res option \<times> 'p)
    \<Rightarrow> ('p \<Rightarrow> int \<Rightarrow> unit res \<times> 'p) \<Rightarrow> ('p \<Rightarrow> bool)
    \<Rightarrow> ('s \<Rightarrow> row list \<Rightarrow> unit res option \<times> 's) \<Rightarrow> ('s \<Rightarrow> unit res \<times> 's) \<Rightarrow> ('s \<Rightarrow> unit res option \<times> 's)
    \<Rightarrow> int option \<Rightarrow> 'p \<Rightarrow> 's list \<Rightarrow> (unit res \<times> bool \<times> 'p \<times> 's list) option" where
  "output_loop 0 is_empty rd consume eoi wr brk cls last_ts p subs = None"
| "output_loop (Suc n) is_empty rd consume eoi wr brk cls last_ts p subs =
     (case is_empty p of
        (None, p) \<Rightarrow> None
      | (Some (Inl e), p) \<Rightarrow> Some (Inl e, False, p, subs)
      | (Some (Inr True), p) \<Rightarrow> Some (Inr (), False, p, subs)
      | (Some (Inr False), p) \<Rightarrow>
          (case rd p of
             (None, p) \<Rightarrow> None
           | (Some (Inl e), p) \<Rightarrow> Some (Inl e, False, p, subs)
           | (Some (Inr data), p) \<Rightarrow>
               if data \<noteq> [] \<and> \<not> verify_monotonic (map row_ts data) last_ts then
                 (case close_all cls subs of
                    (None, subs) \<Rightarrow> None
                  | (Some (Inl e), subs) \<Rightarrow> Some (Inl e, False, p, subs)
                  | (Some (Inr _), subs) \<Rightarrow> Some (Inr (), True, p, subs))
               else
                 (let last_ts = (if data \<noteq> [] then Some (row_ts (last data)) else last_ts)
                  in case (if data \<noteq> [] then consume p (int (length data)) else (Inr (), p)) of
                       (Inl e, p) \<Rightarrow> Some (Inl e, False, p, subs)
                     | (Inr _, p) \<Rightarrow>
                         (case (if data \<noteq> [] then offer wr brk data subs else (Inr (), subs)) of
                            (Inl e, subs) \<Rightarrow> Some (Inl e, False, p, subs)
                          | (Inr _, subs) \<Rightarrow>
                              (case (if eoi p then break_all brk subs else (Inr (), subs)) of
                                 (Inl e, subs) \<Rightarrow> Some (Inl e, False, p, subs)
                               | (Inr _, subs) \<Rightarrow>
                                   output_loop n is_empty rd consume eoi wr brk cls last_ts p subs)))))"

text \<open>The handler: errors of the pipes and a cancellation end it quietly.\<close>

definition output_handler :: "nat \<Rightarrow> ('p \<Rightarrow> bool res option \<times> 'p) \<Rightarrow> ('p \<Rightarrow> row list res option \<times> 'p)
    \<Rightarrow> ('p \<Rightarrow> int \<Rightarrow> unit res \<times> 'p) \<Rightarrow> ('p \<Rightarrow> bool)
    \<Rightarrow> ('s \<Rightarrow> row list \<Rightarrow> unit res option \<times> 's) \<Rightarrow> ('s \<Rightarrow> unit res \<times> 's) \<Rightarrow> ('s \<Rightarrow> unit res option \<times> 's)
    \<Rightarrow> 'p \<Rightarrow> 's list \<Rightarrow> (unit res \<times> bool \<times> 'p \<times> 's list) option" where
  "output_handler n is_empty rd consume eoi wr brk cls p subs =
     (case output_loop n is_empty rd consume eoi wr brk cls None p subs of
        Some (Inl e, rest) \<Rightarrow>
          Some (if e = CancelledError \<or> is_pipe_error e then Inr () else Inl e, rest)
      | r \<Rightarrow> r)"

section \<open>Subscribers\<close>

text \<open>
  Another module reads the bytes of an \<open>OutputPipe\<close>; a write puts its bytes on the wire and waits for the
  writer, which the script lets succeed, stall or find a broken connection.  The inserter and clients read a
  \<open>LocalPipe\<close>.
\<close>

datatype drain = Drained | Stalled | Broken

datatype subscriber = ModuleSub "unit output_pipe" "drain list" | QueueSub "unit local_pipe"

fun sub_write :: "subscriber \<Rightarrow> row list \<Rightarrow> unit res option \<times> subscriber" where
  "sub_write (ModuleSub p ds) rows =
     (case op_put p rows of
        (Some (Inr _), p) \<Rightarrow>
          (case ds of
             [] \<Rightarrow> (Some (Inr ()), ModuleSub p [])
           | Drained # ds \<Rightarrow> (Some (Inr ()), ModuleSub p ds)
           | Stalled # ds \<Rightarrow> (None, ModuleSub p ds)
           | Broken # ds \<Rightarrow> (Some (Inl PyConnectionError), ModuleSub p ds))
      | (r, p) \<Rightarrow> (r, ModuleSub p ds))"
| "sub_write (QueueSub p) rows = map_prod id QueueSub (put_rows p rows)"

fun sub_break :: "subscriber \<Rightarrow> unit res \<times> subscriber" where
  "sub_break (ModuleSub p ds) = map_prod id (\<lambda>p. ModuleSub p ds) (op_close_interval_nowait p)"
| "sub_break (QueueSub p) = map_prod id QueueSub (lp_close_interval_nowait no_cb p)"

fun sub_close_interval :: "subscriber \<Rightarrow> unit res option \<times> subscriber" where
  "sub_close_interval (ModuleSub p ds) = map_prod id (\<lambda>p. ModuleSub p ds) (op_break p)"
| "sub_close_interval (QueueSub p) = map_prod id QueueSub (lp_close_interval no_sub no_cb p)"

section \<open>The laws of subscribers\<close>

text \<open>
  What a subscriber has got, against the items that were handed out: every block is kept or cut short by a
  mark.
\<close>

inductive handed :: "(row option \<Rightarrow> 'b list) \<Rightarrow> row option list \<Rightarrow> 'b list \<Rightarrow> bool" for enc where
  start: "handed enc [] []"
| kept: "handed enc xs ys \<Longrightarrow> handed enc (xs @ b) (ys @ concat (map enc b))"
| cut: "handed enc xs ys \<Longrightarrow> handed enc (xs @ map Some rows) (ys @ concat (map enc (map Some (take k rows))) @ enc None)"

lemma handed_append: "handed enc vs ws \<Longrightarrow> handed enc xs ys \<Longrightarrow> handed enc (xs @ vs) (ys @ ws)"
proof (induction rule: handed.induct)
  case (kept vs ws b)
  then show ?case using handed.kept [of enc "xs @ vs" "ys @ ws" b] by simp
next
  case (cut vs ws rows k)
  then show ?case using handed.cut [of enc "xs @ vs" "ys @ ws" rows k] by simp
qed simp

text \<open>The subscribers before and after: some are dropped, but no steady one.\<close>

inductive passes :: "('s \<Rightarrow> bool) \<Rightarrow> ('s \<Rightarrow> 's \<Rightarrow> bool) \<Rightarrow> 's list \<Rightarrow> 's list \<Rightarrow> bool" for steady R where
  none: "passes steady R [] []"
| keep: "R s t \<Longrightarrow> passes steady R ss ts \<Longrightarrow> passes steady R (s # ss) (t # ts)"
| drop: "\<not> steady s \<Longrightarrow> passes steady R ss ts \<Longrightarrow> passes steady R (s # ss) ts"

inductive_cases passes_ConsE: "passes steady R (s # ss) ts"
inductive_cases passes_NilE: "passes steady R [] ts"

lemma passes_trans:
  assumes "passes steady R ss ts" "passes steady S ts us"
    and "\<And>s t u. R s t \<Longrightarrow> S t u \<Longrightarrow> T s u" "\<And>s t. R s t \<Longrightarrow> steady s \<Longrightarrow> steady t"
  shows "passes steady T ss us"
  using assms(1,2)
proof (induction arbitrary: us rule: passes.induct)
  case none
  then show ?case by (auto elim: passes_NilE intro: passes.none)
next
  case (keep s t ss ts)
  from keep.prems show ?case
    by (rule passes_ConsE) (use keep.hyps keep.IH assms(3,4) in \<open>auto intro: passes.keep passes.drop\<close>)
next
  case (drop s ss ts)
  then show ?case by (auto intro: passes.drop)
qed

lemma passes_refl: "(\<And>s. s \<in> set ss \<Longrightarrow> R s s) \<Longrightarrow> passes steady R ss ss"
  by (induction ss) (auto intro: passes.intros)

lemma passes_mono: "passes steady R ss ts \<Longrightarrow> (\<And>s t. R s t \<Longrightarrow> S s t) \<Longrightarrow> passes steady S ss ts"
  by (induction rule: passes.induct) (auto intro: passes.intros)

lemma passes_mem: "passes steady R ss ts \<Longrightarrow> t \<in> set ts \<Longrightarrow> \<exists>s \<in> set ss. R s t"
  by (induction rule: passes.induct) auto

text \<open>A subscriber takes a block, or a part of it in the time allowed, or its connection is lost.\<close>

locale subscribers =
  fixes wr :: "'s \<Rightarrow> row list \<Rightarrow> unit res option \<times> 's"
    and brk :: "'s \<Rightarrow> unit res \<times> 's"
    and cls :: "'s \<Rightarrow> unit res option \<times> 's"
    and got :: "'s \<Rightarrow> 'b list"
    and enc :: "row option \<Rightarrow> 'b list"
    and good :: "'s \<Rightarrow> bool"
    and steady :: "'s \<Rightarrow> bool"
  assumes write_law: "good s \<Longrightarrow> wr s rows = (r, s') \<Longrightarrow>
       r = Some (Inr ()) \<and> good s' \<and> steady s' = steady s \<and> got s' = got s @ concat (map enc (map Some rows))
     \<or> r = None \<and> \<not> steady s \<and> good s' \<and> \<not> steady s' \<and> (\<exists>k. got s' = got s @ concat (map enc (map Some (take k rows))))
     \<or> (\<exists>e. r = Some (Inl e) \<and> lost_connection e \<and> \<not> steady s)"
    and mark_law: "good s \<Longrightarrow> \<exists>s'. brk s = (Inr (), s') \<and> good s' \<and> steady s' = steady s \<and> got s' = got s @ enc None"
    and close_law: "good s \<Longrightarrow>
      \<exists>s'. cls s = (Some (Inr ()), s') \<and> good s' \<and> steady s' = steady s \<and> got s' = got s @ enc None"
begin

text \<open>From \<open>s\<close> to \<open>t\<close> the subscriber got the items, and all of them when it is steady.\<close>

definition gets :: "row option list \<Rightarrow> row option list \<Rightarrow> 's \<Rightarrow> 's \<Rightarrow> bool" where
  "gets items tail s t = (good t \<and> steady t = steady s
     \<and> (\<exists>ys. got t = got s @ ys \<and> handed enc items ys
          \<and> (steady s \<longrightarrow> ys = concat (map enc (items @ tail)))))"

lemma offer_passes:
  "(\<And>s. s \<in> set subs \<Longrightarrow> good s) \<Longrightarrow>
   \<exists>subs'. offer wr brk rows subs = (Inr (), subs') \<and> passes steady (gets (map Some rows) []) subs subs'"
proof (induction subs)
  case Nil
  then show ?case by (auto intro: passes.none)
next
  case (Cons s ss)
  then obtain ss' where ih: "offer wr brk rows ss = (Inr (), ss')" "passes steady (gets (map Some rows) []) ss ss'"
    by auto
  have s: "good s" using Cons.prems by simp
  obtain r s1 where w: "wr s rows = (r, s1)" by fastforce
  have kept: "handed enc (map Some rows) (concat (map enc (map Some rows)))"
    using handed.kept [OF handed.start, of enc "map Some rows"] by simp
  have cut: "handed enc (map Some rows) (concat (map enc (map Some (take k rows))) @ enc None)" for k
    using handed.cut [OF handed.start, of enc rows k] by simp
  from write_law [OF s w] consider
      "r = Some (Inr ())" "good s1" "steady s1 = steady s" "got s1 = got s @ concat (map enc (map Some rows))"
    | k where "r = None" "\<not> steady s" "good s1" "\<not> steady s1" "got s1 = got s @ concat (map enc (map Some (take k rows)))"
    | e where "r = Some (Inl e)" "lost_connection e" "\<not> steady s" by blast
  then show ?case
  proof cases
    case 1
    then have "gets (map Some rows) [] s s1" using kept by (auto simp: gets_def)
    then show ?thesis using w 1 ih by (auto intro: passes.keep)
  next
    case (2 k)
    obtain s2 where b: "brk s1 = (Inr (), s2)" "good s2" "steady s2 = steady s1" "got s2 = got s1 @ enc None"
      using mark_law [OF 2(3)] by blast
    then have "gets (map Some rows) [] s s2" using 2 cut [of k] by (auto simp: gets_def)
    then show ?thesis using w 2 b ih by (auto intro: passes.keep)
  next
    case 3
    then show ?thesis using w ih by (auto intro: passes.drop)
  qed
qed

lemma break_passes:
  "(\<And>s. s \<in> set subs \<Longrightarrow> good s) \<Longrightarrow>
   \<exists>subs'. break_all brk subs = (Inr (), subs') \<and> passes steady (gets [None] []) subs subs'"
proof (induction subs)
  case Nil
  then show ?case by (auto intro: passes.none)
next
  case (Cons s ss)
  then obtain ss' where ih: "break_all brk ss = (Inr (), ss')" "passes steady (gets [None] []) ss ss'" by auto
  obtain s1 where b: "brk s = (Inr (), s1)" "good s1" "steady s1 = steady s" "got s1 = got s @ enc None"
    using mark_law [of s] Cons.prems by auto
  then have "gets [None] [] s s1"
    using handed.kept [OF handed.start, of enc "[None]"] by (auto simp: gets_def)
  then show ?case using b ih by (auto intro: passes.keep)
qed

lemma close_passes:
  "(\<And>s. s \<in> set subs \<Longrightarrow> good s) \<Longrightarrow>
   \<exists>subs'. close_all cls subs = (Some (Inr ()), subs') \<and> passes steady (gets [] [None]) subs subs'"
proof (induction subs)
  case Nil
  then show ?case by (auto intro: passes.none)
next
  case (Cons s ss)
  then obtain ss' where ih: "close_all cls ss = (Some (Inr ()), ss')" "passes steady (gets [] [None]) ss ss'" by auto
  obtain s1 where b: "cls s = (Some (Inr ()), s1)" "good s1" "steady s1 = steady s" "got s1 = got s @ enc None"
    using close_law [of s] Cons.prems by auto
  then have "gets [] [None] s s1"
    using handed.cut [OF handed.start, of enc "[]" 0] by (auto simp: gets_def)
  then show ?case using b ih by (auto intro: passes.keep)
qed

lemma gets_trans: "gets xs [] s t \<Longrightarrow> gets ys tail t u \<Longrightarrow> gets (xs @ ys) tail s u"
  unfolding gets_def using handed_append by fastforce

lemma passes_gets:
  "passes steady (gets xs []) ss ts \<Longrightarrow> passes steady (gets ys tail) ts us \<Longrightarrow> passes steady (gets (xs @ ys) tail) ss us"
  by (erule (1) passes_trans, erule (1) gets_trans) (simp add: gets_def)

lemma passes_good: "passes steady (gets xs tail) ss ts \<Longrightarrow> t \<in> set ts \<Longrightarrow> good t"
  by (drule (1) passes_mem) (auto simp: gets_def)

lemma passes_nothing: "(\<And>s. s \<in> set ss \<Longrightarrow> good s) \<Longrightarrow> passes steady (gets [] []) ss ss"
  by (rule passes_refl) (auto simp: gets_def intro: handed.start)

end

section \<open>Handing out what the module writes\<close>

lemma verify_monotonic_iff: "verify_monotonic ts last_ts \<longleftrightarrow> sorted_wrt (<) (opt_list last_ts @ ts)"
  unfolding monotonic_iff [symmetric] verify_monotonic_def timestamps_are_monotonic_def
  by (auto simp: list_ex_iff list_all_iff split: option.split)

text \<open>One turn of the loop that goes on.\<close>

lemma output_loop_step:
  assumes "is_empty p = (Some (Inr False), p1)" "rd p1 = (Some (Inr rows), p2)"
    and "rows = [] \<or> verify_monotonic (map row_ts rows) last_ts"
    and "(if rows \<noteq> [] then consume p2 (int (length rows)) else (Inr (), p2)) = (Inr (), p3)"
    and "(if rows \<noteq> [] then offer wr brk rows subs else (Inr (), subs)) = (Inr (), s1)"
    and "(if eoi p3 then break_all brk s1 else (Inr (), s1)) = (Inr (), s2)"
  shows "output_loop (Suc n) is_empty rd consume eoi wr brk cls last_ts p subs
    = output_loop n is_empty rd consume eoi wr brk cls (if rows \<noteq> [] then Some (row_ts (last rows)) else last_ts) p3 s2"
proof -
  have c: "(rows \<noteq> [] \<and> \<not> verify_monotonic (map row_ts rows) last_ts) = False" using assms(3) by blast
  show ?thesis
    unfolding output_loop.simps assms(1) prod.case option.case sum.case bool.case assms(2) c if_False Let_def assms(4-6) ..
qed

locale fan_out = row_source is_empty rd consume eoi holds missed + subscribers wr brk cls got enc good steady
  for is_empty :: "'p \<Rightarrow> bool res option \<times> 'p" and rd consume eoi holds missed
    and wr :: "'s \<Rightarrow> row list \<Rightarrow> unit res option \<times> 's" and brk cls and got :: "'s \<Rightarrow> 'b list" and enc good steady +
  assumes consume_none: "consume p 0 = (Inr (), p)"
begin

lemma loop_hands_out:
  assumes "holds p items" "\<And>s. s \<in> set subs \<Longrightarrow> good s" "length items < n"
  shows "\<exists>restart p' subs' taken lost.
      output_loop n is_empty rd consume eoi wr brk cls last_ts p subs = Some (Inr (), restart, p', subs')
    \<and> items = taken @ lost \<and> passes steady (gets taken (if restart then [None] else [])) subs subs'
    \<and> sorted_wrt (<) (opt_list last_ts @ map row_ts (rows_of taken))
    \<and> (if restart then \<not> sorted_wrt (<) (opt_list last_ts @ map row_ts (rows_of items)) else missed lost)"
  using assms
proof (induction n arbitrary: p items last_ts subs)
  case 0
  then show ?case by simp
next
  case (Suc n)
  have one: "sorted_wrt (<) (opt_list last_ts)" by (simp add: opt_list_def split: option.split)
  from turn [OF Suc.prems(1)] show ?case
  proof (elim disjE exE conjE)
    fix p'
    assume "is_empty p = (Some (Inr True), p')" "missed items"
    then show ?thesis using one passes_nothing [OF Suc.prems(2)]
      by (intro exI [of _ False] exI [of _ p'] exI [of _ subs] exI [of _ "[]"] exI [of _ items]) simp
  next
    fix p1 p2 p3 rows rest
    assume t: "is_empty p = (Some (Inr False), p1)" "rd p1 = (Some (Inr rows), p2)"
      "consume p2 (int (length rows)) = (Inr (), p3)" "eoi p3 = eoi p2"
      and items: "items = map Some rows @ (if eoi p2 then [None] else []) @ rest"
      and rest: "holds p3 rest" "length rest < length items"
    have ritems: "rows_of items = rows @ rows_of rest" using items by simp
    show ?thesis
    proof (cases "rows \<noteq> [] \<and> \<not> verify_monotonic (map row_ts rows) last_ts")
      case True
      obtain subs' where c: "close_all cls subs = (Some (Inr ()), subs')" "passes steady (gets [] [None]) subs subs'"
        using close_passes [OF Suc.prems(2)] by blast
      have "\<not> sorted_wrt (<) (opt_list last_ts @ map row_ts (rows_of items))"
        using True unfolding verify_monotonic_iff ritems by (auto simp: sorted_wrt_append)
      then show ?thesis using t True c one
        by (intro exI [of _ True] exI [of _ p2] exI [of _ subs'] exI [of _ "[]"] exI [of _ items]) simp
    next
      case False
      let ?last = "if rows \<noteq> [] then Some (row_ts (last rows)) else last_ts"
      let ?block = "map Some rows @ (if eoi p2 then [None] else [])"
      have srt: "sorted_wrt (<) (opt_list last_ts @ map row_ts rows)"
        using False one unfolding verify_monotonic_iff by (cases "rows = []") auto
      obtain s1 where s1: "(if rows \<noteq> [] then offer wr brk rows subs else (Inr (), subs)) = (Inr (), s1)"
        "passes steady (gets (map Some rows) []) subs s1"
      proof (cases "rows = []")
        case True
        then show ?thesis using that passes_nothing [OF Suc.prems(2)] by simp
      next
        case nonempty: False
        then show ?thesis using that offer_passes [OF Suc.prems(2), of subs rows] by auto
      qed
      have g1: "good s" if "s \<in> set s1" for s by (rule passes_good [OF s1(2) that])
      obtain s2 where s2: "(if eoi p2 then break_all brk s1 else (Inr (), s1)) = (Inr (), s2)"
        "passes steady (gets (if eoi p2 then [None] else []) []) s1 s2"
        using break_passes [of s1, OF g1] passes_nothing [of s1, OF g1] by (cases "eoi p2") auto
      have block: "passes steady (gets ?block []) subs s2" by (rule passes_gets [OF s1(2) s2(2)])
      have p3: "(if rows \<noteq> [] then consume p2 (int (length rows)) else (Inr (), p2)) = (Inr (), p3)"
        using t(3) consume_none [of p2] by (cases "rows = []") auto
      have step: "output_loop (Suc n) is_empty rd consume eoi wr brk cls last_ts p subs
          = output_loop n is_empty rd consume eoi wr brk cls ?last p3 s2"
        by (rule output_loop_step [where ?p1.0 = p1 and ?p2.0 = p2 and ?s1.0 = s1])
          (use t(1,2,4) False p3 s1(1) s2(1) in \<open>simp_all split del: if_split\<close>)
      obtain restart p' subs' taken lost where ih:
        "output_loop n is_empty rd consume eoi wr brk cls ?last p3 s2 = Some (Inr (), restart, p', subs')"
        "rest = taken @ lost" "passes steady (gets taken (if restart then [None] else [])) s2 subs'"
        "sorted_wrt (<) (opt_list ?last @ map row_ts (rows_of taken))"
        "if restart then \<not> sorted_wrt (<) (opt_list ?last @ map row_ts (rows_of rest)) else missed lost"
        using Suc.IH [OF rest(1), of s2 ?last] passes_good [OF block] rest(2) Suc.prems(3) by fastforce
      note chain = sorted_chain [OF srt]
      show ?thesis
      proof (intro exI conjI)
        show "output_loop (Suc n) is_empty rd consume eoi wr brk cls last_ts p subs = Some (Inr (), restart, p', subs')"
          using step ih(1) by simp
        show "items = (?block @ taken) @ lost" using items ih(2) by simp
        show "passes steady (gets (?block @ taken) (if restart then [None] else [])) subs subs'"
          by (rule passes_gets [OF block ih(3)])
        show "sorted_wrt (<) (opt_list last_ts @ map row_ts (rows_of (?block @ taken)))"
          using ih(4) chain by simp
        show "if restart then \<not> sorted_wrt (<) (opt_list last_ts @ map row_ts (rows_of items)) else missed lost"
          using ih(5) chain [of "rows_of rest"] by (simp add: ritems)
      qed
    qed
  qed
qed

lemma handler_hands_out:
  assumes "holds p items" "\<And>s. s \<in> set subs \<Longrightarrow> good s" "length items < n"
  shows "\<exists>restart p' subs' taken lost.
      output_handler n is_empty rd consume eoi wr brk cls p subs = Some (Inr (), restart, p', subs')
    \<and> items = taken @ lost \<and> passes steady (gets taken (if restart then [None] else [])) subs subs'
    \<and> sorted_wrt (<) (map row_ts (rows_of taken))
    \<and> (if restart then \<not> sorted_wrt (<) (map row_ts (rows_of items)) else missed lost)"
  using loop_hands_out [OF assms, where last_ts = None] by (fastforce simp: output_handler_def opt_list_def)

end

section \<open>The pipes as subscribers\<close>

fun sub_got :: "dtype \<Rightarrow> subscriber \<Rightarrow> byte list" where
  "sub_got d (ModuleSub p ds) = op_wire p"
| "sub_got d (QueueSub p) = concat (map (item_row d) (queue_items (lp_queue p)))"

fun sub_good :: "dtype \<Rightarrow> subscriber \<Rightarrow> bool" where
  "sub_good d (ModuleSub p ds) = (op_open d p \<and> \<not> op_closed p)"
| "sub_good d (QueueSub p) = lp_unbounded p"

fun sub_steady :: "subscriber \<Rightarrow> bool" where
  "sub_steady (ModuleSub p ds) = False"
| "sub_steady (QueueSub p) = True"

interpretation pipe_subscribers: subscribers sub_write sub_break sub_close_interval "sub_got d" "item_row d"
  "sub_good d" sub_steady
proof
  fix s rows r s'
  assume good: "sub_good d s" and w: "sub_write s rows = (r, s')"
  show "r = Some (Inr ()) \<and> sub_good d s' \<and> sub_steady s' = sub_steady s
        \<and> sub_got d s' = sub_got d s @ concat (map (item_row d) (map Some rows))
     \<or> r = None \<and> \<not> sub_steady s \<and> sub_good d s' \<and> \<not> sub_steady s'
        \<and> (\<exists>k. sub_got d s' = sub_got d s @ concat (map (item_row d) (map Some (take k rows))))
     \<or> (\<exists>e. r = Some (Inl e) \<and> lost_connection e \<and> \<not> sub_steady s)"
  proof (cases s)
    case (ModuleSub p ds)
    obtain p' where p': "op_put p rows = (Some (Inr ()), p')" "op_open d p'" "op_wire p' = op_wire p @ concat rows"
      using output_sink.write_law [of d p rows] good ModuleSub by (auto simp: item_row_def)
    then have c: "\<not> op_closed p'" by (simp add: op_open_def op_ok_def)
    show ?thesis
    proof (cases ds)
      case Nil
      then show ?thesis using w p' c ModuleSub by auto
    next
      case (Cons x ds')
      have k: "\<exists>k. op_wire p' = op_wire p @ concat (map (item_row d) (map Some (take k rows)))"
        by (rule exI [of _ "length rows"]) (use p'(3) in simp)
      show ?thesis using w p' c ModuleSub Cons k by (cases x) (auto simp: lost_connection_def)
    qed
  next
    case (QueueSub p)
    then show ?thesis using w good local_sink.write_law [of p rows] by (auto simp: comp_def)
  qed
next
  fix s
  assume good: "sub_good d s"
  show "\<exists>s'. sub_break s = (Inr (), s') \<and> sub_good d s' \<and> sub_steady s' = sub_steady s
      \<and> sub_got d s' = sub_got d s @ item_row d None"
  proof (cases s)
    case (ModuleSub p ds)
    then show ?thesis using good by (auto simp: op_close_interval_nowait_def op_open_def op_ok_def)
  next
    case (QueueSub p)
    then show ?thesis using good
      by (auto simp: lp_close_interval_nowait_def lp_unbounded_def lp_plain_def lp_full_def lp_ok_def Let_def)
  qed
  show "\<exists>s'. sub_close_interval s = (Some (Inr ()), s') \<and> sub_good d s' \<and> sub_steady s' = sub_steady s
      \<and> sub_got d s' = sub_got d s @ item_row d None"
  proof (cases s)
    case (ModuleSub p ds)
    then show ?thesis using good output_sink.break_law [of d p] by (auto simp: op_open_def op_ok_def)
  next
    case (QueueSub p)
    then show ?thesis using good local_sink.break_law [of p] by auto
  qed
qed

interpretation worker_fan: fan_out ip_empty_call ip_read_call ip_consume ip_end_of_interval ip_source ip_missed
  sub_write sub_break sub_close_interval "sub_got d" "item_row d" "sub_good d" sub_steady
  by unfold_locales (simp add: ip_consume_def)



text \<open>
  A subscriber whose pipe has been closed, but which is still in the list, ends the handler quietly: the
  error of writing to it is taken for the closing of the module's own pipe.  The block has been consumed, the
  subscribers behind it in the list do not get it, and nobody gets what the module writes later.
\<close>

lemma output_handler_closed_subscriber:
  assumes "ip_empty_call p = (Some (Inr False), p1)" "ip_read_call p1 = (Some (Inr rows), p2)"
    and "rows \<noteq> []" "sorted_wrt (<) (map row_ts rows)" "ip_consume p2 (int (length rows)) = (Inr (), p3)"
    and "lp_closed q" "\<not> lp_failed q"
  shows "output_handler (Suc n) ip_empty_call ip_read_call ip_consume ip_end_of_interval sub_write sub_break
      sub_close_interval p (QueueSub q # subs) = Some (Inr (), False, p3, QueueSub q # subs)"
proof -
  have v: "verify_monotonic (map row_ts rows) None" using assms(4) by (simp add: verify_monotonic_iff opt_list_def)
  have "put_rows q rows = (Some (Inl (PipeError ''Cannot write to a closed pipe'')), q)"
    using assms(6,7) by (simp add: put_rows_def lp_write_def)
  then show ?thesis using assms(1-3,5) v
    by (simp add: output_handler_def lost_connection_def)
qed

lemma output_handler_closed_subscriber_witness:
  "let p = input_pipe_init demo_dtype 4 (Some [Some (demo_row 1)]) [] False;
       q = (local_pipe_init demo_dtype False 0)\<lparr>lp_closed := True\<rparr>; good = QueueSub (local_pipe_init demo_dtype False 0)
   in output_handler 2 ip_empty_call ip_read_call ip_consume ip_end_of_interval sub_write sub_break
        sub_close_interval p [QueueSub q, good]
      = Some (Inr (), False, snd (ip_consume (snd (ip_read_call (snd (ip_empty_call p)))) 1), [QueueSub q, good])"
proof -
  let ?p = "input_pipe_init demo_dtype 4 (Some [Some (demo_row 1)]) [] False"
  let ?q = "(local_pipe_init demo_dtype False 0)\<lparr>lp_closed := True\<rparr>"
  obtain e p1 where 1: "ip_empty_call ?p = (e, p1)" by fastforce
  obtain r p2 where 2: "ip_read_call p1 = (r, p2)" by fastforce
  obtain c p3 where 3: "ip_consume p2 1 = (c, p3)" by fastforce
  have e: "e = Some (Inr False)" "r = Some (Inr [demo_row 1])" "c = Inr ()"
  proof -
    have "fst (ip_empty_call ?p) = Some (Inr False)" by code_simp
    then show "e = Some (Inr False)" using 1 by simp
    have "fst (ip_read_call (snd (ip_empty_call ?p))) = Some (Inr [demo_row 1])" by code_simp
    then show "r = Some (Inr [demo_row 1])" using 1 2 by simp
    have "fst (ip_consume (snd (ip_read_call (snd (ip_empty_call ?p)))) 1) = Inr ()" by code_simp
    then show "c = Inr ()" using 1 2 3 by simp
  qed
  have p3: "snd (ip_consume (snd (ip_read_call (snd (ip_empty_call ?p)))) 1) = p3" by (simp only: 1 2 3 snd_conv)
  have "output_handler (Suc 1) ip_empty_call ip_read_call ip_consume ip_end_of_interval sub_write sub_break
      sub_close_interval ?p [QueueSub ?q, QueueSub (local_pipe_init demo_dtype False 0)]
    = Some (Inr (), False, p3, [QueueSub ?q, QueueSub (local_pipe_init demo_dtype False 0)])"
    by (rule output_handler_closed_subscriber [of ?p p1 "[demo_row 1]" p2 p3 ?q])
      (use 1 2 3 e in \<open>simp_all add: local_pipe_init_def\<close>)
  then show ?thesis unfolding Let_def p3 by (simp only: Suc_1)
qed

end
