(* ===== verification/Supervisor.thy ===== *)
theory Supervisor
  imports Worker "HOL-Library.AList"
begin

text \<open>
  How a worker runs its module and how the supervisor connects workers: \<open>models/worker.py\<close> and
  \<open>models/supervisor.py\<close>.  The host holds what all workers share: the open file descriptors, up to a limit,
  the lock that guards them while a child is created, and who is subscribed to which stream.  That a stream
  has a producer, and that the child can be created, are arguments.
\<close>

section \<open>The host and the worker\<close>

record host =
  ho_fds :: "int set"
  ho_next :: int
  ho_limit :: nat
  ho_locked :: bool
  ho_subs :: "(int \<times> int) list"

record connection =
  cn_name :: string
  cn_child_fd :: int
  cn_stream :: int
  cn_pipe :: int
  cn_unsubscribe :: bool

datatype module_status = LOADED | RUNNING | FAILED | UNKNOWN

record 's worker =
  wk_uuid :: int
  wk_inputs :: "(string \<times> int) list"
  wk_outputs :: "(string \<times> int) list"
  wk_is_app :: bool
  wk_subscribers :: "(int \<times> 's list) list"
  wk_in_conns :: "connection list"
  wk_out_conns :: "connection list"
  wk_logs :: "string list"
  wk_log_size :: nat
  wk_running :: bool
  wk_stop :: bool
  wk_status :: module_status

record module_conf =
  mc_uuid :: int
  mc_inputs :: "(string \<times> int) list"
  mc_outputs :: "(string \<times> int) list"
  mc_is_app :: bool
  mc_log_size :: nat

definition worker_init :: "module_conf \<Rightarrow> 's worker" where
  "worker_init m =
     \<lparr>wk_uuid = mc_uuid m, wk_inputs = mc_inputs m, wk_outputs = mc_outputs m, wk_is_app = mc_is_app m,
      wk_subscribers = map (\<lambda>s. (s, [])) (rev (remdups (rev (map snd (mc_outputs m))))), wk_in_conns = [], wk_out_conns = [],
      wk_logs = [], wk_log_size = mc_log_size m, wk_running = False, wk_stop = False, wk_status = UNKNOWN\<rparr>"

type_synonym ('s, 'a) site = "(host \<times> 's worker, 'a) act"

definition on_host :: "(host, 'a) act \<Rightarrow> ('s, 'a) site" where
  "on_host f s = (case f (fst s) of (r, h) \<Rightarrow> (r, (h, snd s)))"

definition on_worker :: "('s worker \<Rightarrow> 's worker) \<Rightarrow> ('s, unit) site" where
  "on_worker f s = (Inr (), (fst s, f (snd s)))"

text \<open>\<open>collections.deque(maxlen=...)\<close>; messages without their time.\<close>

definition log_msg :: "string \<Rightarrow> 's worker \<Rightarrow> 's worker" where
  "log_msg m w = w\<lparr>wk_logs := (let l = wk_logs w @ [m] in drop (length l - wk_log_size w) l)\<rparr>"

section \<open>Descriptors and subscriptions\<close>

definition os_pipe :: "(host, int \<times> int) act" where
  "os_pipe h =
     (if card (ho_fds h) + 2 \<le> ho_limit h
      then (Inr (ho_next h, ho_next h + 1),
            h\<lparr>ho_fds := ho_fds h \<union> {ho_next h, ho_next h + 1}, ho_next := ho_next h + 2\<rparr>)
      else (Inl PyOSError, h))"

definition os_close :: "int \<Rightarrow> (host, unit) act" where
  "os_close fd h = (if fd \<in> ho_fds h then (Inr (), h\<lparr>ho_fds := ho_fds h - {fd}\<rparr>) else (Inl PyOSError, h))"

text \<open>Closing the worker's own end of a pipe.\<close>

definition pipe_close :: "int \<Rightarrow> (host, unit) act" where
  "pipe_close fd = modifyA (\<lambda>h. h\<lparr>ho_fds := ho_fds h - {fd}\<rparr>)"

definition add_subscription :: "int \<Rightarrow> int \<Rightarrow> (host, unit) act" where
  "add_subscription stream pipe = modifyA (\<lambda>h. h\<lparr>ho_subs := ho_subs h @ [(stream, pipe)]\<rparr>)"

definition disconnect :: "connection \<Rightarrow> (host, unit) act" where
  "disconnect c =
     seqA (whenA (cn_unsubscribe c) (modifyA (\<lambda>h. h\<lparr>ho_subs := remove1 (cn_stream c, cn_pipe c) (ho_subs h)\<rparr>)))
       (\<lambda>_. pipe_close (cn_pipe c))"

fun subscribe_to_inputs :: "(int \<Rightarrow> bool) \<Rightarrow> (string \<times> int) list \<Rightarrow> ('s, unit) site" where
  "subscribe_to_inputs available [] = pureA ()"
| "subscribe_to_inputs available ((name, stream) # ins) =
     seqA (on_host os_pipe) (\<lambda>(r, w).
       if available stream then
         seqA (on_host (add_subscription stream w)) (\<lambda>_.
         seqA (on_worker (\<lambda>k. k\<lparr>wk_in_conns := wk_in_conns k @
             [\<lparr>cn_name = name, cn_child_fd = r, cn_stream = stream, cn_pipe = w, cn_unsubscribe = True\<rparr>]\<rparr>))
           (\<lambda>_. subscribe_to_inputs available ins))
       else
         seqA (on_host (os_close r)) (\<lambda>_. seqA (on_host (pipe_close w)) (\<lambda>_.
           raiseA (SubscriptionError ''stream [%s] has no producer''))))"

fun spawn_outputs :: "(string \<times> int) list \<Rightarrow> ('s, unit) site" where
  "spawn_outputs [] = pureA ()"
| "spawn_outputs ((name, stream) # outs) =
     seqA (on_host os_pipe) (\<lambda>(r, w).
     seqA (on_worker (\<lambda>k. k\<lparr>wk_out_conns := wk_out_conns k @
         [\<lparr>cn_name = name, cn_child_fd = w, cn_stream = stream, cn_pipe = r, cn_unsubscribe = False\<rparr>]\<rparr>))
       (\<lambda>_. spawn_outputs outs))"

fun each_conn :: "(connection \<Rightarrow> (host, unit) act) \<Rightarrow> connection list \<Rightarrow> (host, unit) act" where
  "each_conn f [] = pureA ()"
| "each_conn f (c # cs) = seqA (f c) (\<lambda>_. each_conn f cs)"

definition close_child_fds :: "('s, unit) site" where
  "close_child_fds s =
     on_host (each_conn (\<lambda>c. os_close (cn_child_fd c)) (wk_in_conns (snd s) @ wk_out_conns (snd s))) s"

definition close_connections :: "('s, unit) site" where
  "close_connections s =
     seqA (on_host (each_conn disconnect (wk_out_conns (snd s) @ wk_in_conns (snd s))))
       (\<lambda>_. on_worker (\<lambda>k. k\<lparr>wk_out_conns := [], wk_in_conns := []\<rparr>)) s"

text \<open>The lock; waiting for it can only be ended by a cancellation.\<close>

definition acquire :: "(host, unit) act" where
  "acquire h = (if ho_locked h then (Inl CancelledError, h) else (Inr (), h\<lparr>ho_locked := True\<rparr>))"

definition release :: "(host, unit) act" where
  "release = modifyA (\<lambda>h. h\<lparr>ho_locked := False\<rparr>)"

text \<open>
  \<open>_spawn_child\<close>: \<open>starts\<close> says whether the child process can be created; when it can the worker waits for
  its end before the connections are closed.
\<close>

definition spawn_child :: "(int \<Rightarrow> bool) \<Rightarrow> bool \<Rightarrow> ('s, unit) site" where
  "spawn_child available starts =
     seqA (on_host acquire) (\<lambda>_ s.
       case subscribe_to_inputs available (wk_inputs (snd s)) s of
         (Inl (SubscriptionError m), s) \<Rightarrow>
           seqA close_child_fds (\<lambda>_. seqA (on_host release) (\<lambda>_. seqA close_connections (\<lambda>_.
             raiseA (SubscriptionError m)))) s
       | (Inl e, s) \<Rightarrow> (Inl e, s)
       | (Inr _, s) \<Rightarrow>
           seqA (spawn_outputs (wk_outputs (snd s))) (\<lambda>_.
             if \<not> starts then
               seqA (on_worker (\<lambda>k. (log_msg ''ERROR: cannot start module: %s'' k)\<lparr>wk_running := False, wk_status := FAILED\<rparr>)) (\<lambda>_.
               seqA close_child_fds (\<lambda>_. seqA (on_host release) (\<lambda>_. close_connections)))
             else
               seqA (on_worker (\<lambda>k. k\<lparr>wk_running := True\<rparr>)) (\<lambda>_.
               seqA close_child_fds (\<lambda>_. seqA (on_host release) (\<lambda>_. close_connections)))) s)"

section \<open>Running and stopping\<close>

text \<open>One round of \<open>run\<close>: the producers there are, whether the child starts, and whether a stop is requested.\<close>

record round =
  rn_available :: "int \<Rightarrow> bool"
  rn_starts :: bool
  rn_stop :: bool

definition break_subscribers :: "('s \<Rightarrow> unit res \<times> 's) \<Rightarrow> ('s, unit) site" where
  "break_subscribers brk s =
     (case each_sub (\<lambda>(i, ps). map_prod id (Pair i) (break_all brk ps)) (wk_subscribers (snd s)) of
        (r, subs) \<Rightarrow> (r, (fst s, (snd s)\<lparr>wk_subscribers := subs\<rparr>)))"

text \<open>The loop of \<open>run\<close>; the result says whether it has ended when the rounds are used up.\<close>

fun run_loop :: "('s \<Rightarrow> unit res \<times> 's) \<Rightarrow> bool \<Rightarrow> round list \<Rightarrow> ('s, bool) site" where
  "run_loop brk restart [] s = (Inr False, s)"
| "run_loop brk restart (x # xs) s =
     (if wk_stop (snd s) then (Inr True, s)
      else
        (case seqA (on_worker (log_msg ''---starting module---'')) (\<lambda>_. spawn_child (rn_available x) (rn_starts x)) s of
           (Inl (SubscriptionError m), s) \<Rightarrow>
             seqA (on_worker (log_msg ''inputs are not available: %s'')) (\<lambda>_. pureA True) s
         | (Inl e, s) \<Rightarrow> (Inl e, s)
         | (Inr _, s) \<Rightarrow>
             seqA (on_worker (\<lambda>k. (log_msg ''---module terminated---'' k)\<lparr>wk_stop := (wk_stop k \<or> rn_stop x)\<rparr>)) (\<lambda>_ s.
               if \<not> restart \<or> wk_stop (snd s) then (Inr True, s)
               else seqA (break_subscribers brk) (\<lambda>_. run_loop brk restart xs) s) s))"

definition worker_run :: "('s \<Rightarrow> unit res \<times> 's) \<Rightarrow> bool \<Rightarrow> round list \<Rightarrow> ('s, bool) site" where
  "worker_run brk restart xs = seqA (on_worker (\<lambda>k. k\<lparr>wk_stop := False\<rparr>)) (\<lambda>_. run_loop brk restart xs)"

text \<open>\<open>_stop_child\<close>: the signals sent; the process is gone, ends in time, or does not.\<close>

datatype child = NoChild | Gone | EndsInTime | Ignores

datatype signal = SIGTERM | SIGKILL

definition stop_child :: "child \<Rightarrow> signal list" where
  "stop_child c = (case c of NoChild \<Rightarrow> [] | Gone \<Rightarrow> [] | EndsInTime \<Rightarrow> [SIGTERM] | Ignores \<Rightarrow> [SIGTERM, SIGKILL])"

definition interface_socket :: "'s worker \<Rightarrow> string option" where
  "interface_socket k = (if wk_is_app k then Some (''/tmp/joule/module'' @ int_str (wk_uuid k)) else None)"

definition interface_name :: "'s worker \<Rightarrow> string" where
  "interface_name k = (if wk_is_app k then ''/tmp/joule/module'' @ int_str (wk_uuid k) else ''none'')"

definition produces :: "int \<Rightarrow> 's worker \<Rightarrow> bool" where
  "produces stream k = list_ex (\<lambda>(name, s). s = stream) (wk_outputs k)"

section \<open>Subscriptions to a worker\<close>

definition worker_subscribe :: "int \<Rightarrow> 's \<Rightarrow> 's worker \<Rightarrow> 's worker res" where
  "worker_subscribe stream pipe k =
     (case map_of (wk_subscribers k) stream of
        None \<Rightarrow> Inl (SubscriptionError '''')
      | Some ps \<Rightarrow> Inr (k\<lparr>wk_subscribers := AList.update stream (ps @ [pipe]) (wk_subscribers k)\<rparr>))"

definition worker_unsubscribe :: "int \<Rightarrow> 's \<Rightarrow> 's worker \<Rightarrow> 's worker" where
  "worker_unsubscribe stream pipe k =
     (case map_of (wk_subscribers k) stream of
        None \<Rightarrow> k
      | Some ps \<Rightarrow> k\<lparr>wk_subscribers := AList.update stream (remove1 pipe ps) (wk_subscribers k)\<rparr>)"

text \<open>\<open>Supervisor.subscribe\<close> to a local stream: the first worker that has it.\<close>

fun supervisor_subscribe :: "int \<Rightarrow> 's \<Rightarrow> 's worker list \<Rightarrow> 's worker list res" where
  "supervisor_subscribe stream pipe [] = Inl (SubscriptionError ''stream [%s] has no producer'')"
| "supervisor_subscribe stream pipe (k # ks) =
     (case worker_subscribe stream pipe k of
        Inr k' \<Rightarrow> Inr (k' # ks)
      | Inl e \<Rightarrow> bindE (supervisor_subscribe stream pipe ks) (\<lambda>ks'. Inr (k # ks')))"

definition get_module_socket :: "int \<Rightarrow> 's worker list \<Rightarrow> string option" where
  "get_module_socket uuid ks = Option.bind (List.find (\<lambda>k. wk_uuid k = uuid) ks) interface_socket"

definition get_proxy_url :: "int \<Rightarrow> (int \<times> 'u) list \<Rightarrow> 'u option" where
  "get_proxy_url uuid ps = map_option snd (List.find (\<lambda>p. fst p = uuid) ps)"

section \<open>Remote streams\<close>

text \<open>
  The pipe of the first subscriber to a remote stream is fed by a task; later subscribers subscribe to that
  pipe.  Subscribers are the pipes of modules.
\<close>

type_synonym module_pipe = "unit output_pipe"
type_synonym remote_inputs = "(int \<times> module_pipe output_pipe) list"

definition forward :: "row list \<Rightarrow> module_pipe \<Rightarrow> unit res \<times> module_pipe" where
  "forward rows p = op_write no_sub (\<lambda>d t es. []) p (Structured (op_dtype p) rows :: unit pydata)"

definition connect_remote_input :: "int \<Rightarrow> module_pipe \<Rightarrow> remote_inputs \<Rightarrow> remote_inputs" where
  "connect_remote_input stream pipe rs =
     (case map_of rs stream of
        Some dest \<Rightarrow> AList.update stream (op_subscribe dest pipe) rs
      | None \<Rightarrow> rs @ [(stream, output_pipe_init (op_dtype pipe) (op_writer pipe) (op_close_cb pipe))])"

text \<open>The inner loop of \<open>_handle_remote_input\<close>: every block goes to the pipe unless it is closed.\<close>

fun handle_remote_input :: "row list list \<Rightarrow> module_pipe output_pipe \<Rightarrow> unit res \<times> module_pipe output_pipe" where
  "handle_remote_input [] dest = (Inr (), dest)"
| "handle_remote_input (data # blocks) dest =
     (if op_closed dest then handle_remote_input blocks dest
      else (case op_write forward (\<lambda>d t es. []) dest (Structured (op_dtype dest) data :: unit pydata) of
              (Inr _, dest) \<Rightarrow> handle_remote_input blocks dest
            | r \<Rightarrow> r))"

definition remote_data :: "int \<Rightarrow> row list list \<Rightarrow> remote_inputs \<Rightarrow> remote_inputs" where
  "remote_data stream blocks rs = map (\<lambda>(i, dest). (i, if i = stream then snd (handle_remote_input blocks dest) else dest)) rs"

section \<open>Nothing is left behind\<close>

text \<open>Descriptors in use are below the next one, also those of the pipes that are subscribed.\<close>

definition host_ok :: "host \<Rightarrow> bool" where
  "host_ok h = (finite (ho_fds h) \<and> (\<forall>f \<in> ho_fds h. f < ho_next h) \<and> (\<forall>(s, p) \<in> set (ho_subs h). p < ho_next h))"

abbreviation conn_fds :: "connection \<Rightarrow> int list" where
  "conn_fds c \<equiv> [cn_child_fd c, cn_pipe c]"

abbreviation conn_subs :: "connection list \<Rightarrow> (int \<times> int) list" where
  "conn_subs cs \<equiv> map (\<lambda>c. (cn_stream c, cn_pipe c)) (filter cn_unsubscribe cs)"

text \<open>From \<open>h\<close> to \<open>h'\<close> the connections have been opened.\<close>

definition opened :: "host \<Rightarrow> connection list \<Rightarrow> host \<Rightarrow> bool" where
  "opened h cs h' =
     (host_ok h' \<and> ho_next h \<le> ho_next h' \<and> ho_locked h' = ho_locked h \<and> ho_limit h' = ho_limit h
      \<and> ho_fds h' = ho_fds h \<union> set (concat (map conn_fds cs)) \<and> distinct (concat (map conn_fds cs))
      \<and> (\<forall>f \<in> set (concat (map conn_fds cs)). ho_next h \<le> f \<and> f < ho_next h')
      \<and> ho_subs h' = ho_subs h @ conn_subs cs)"

lemma opened_none: "host_ok h \<Longrightarrow> opened h [] h"
  by (simp add: opened_def)

lemma opened_trans:
  assumes "opened h cs h1" "opened h1 ds h2"
  shows "opened h (cs @ ds) h2"
proof -
  have "set (concat (map conn_fds cs)) \<inter> set (concat (map conn_fds ds)) = {}"
    using assms unfolding opened_def by fastforce
  then show ?thesis using assms unfolding opened_def by (auto 0 3)
qed

lemma opened_card: "host_ok h \<Longrightarrow> opened h cs h' \<Longrightarrow> card (ho_fds h') = card (ho_fds h) + 2 * length cs"
proof -
  assume h: "host_ok h" and o: "opened h cs h'"
  have "length (concat (map conn_fds cs)) = 2 * length cs" by (induction cs) auto
  then have "card (set (concat (map conn_fds cs))) = 2 * length cs"
    using o distinct_card unfolding opened_def by metis
  moreover have "ho_fds h \<inter> set (concat (map conn_fds cs)) = {}"
    using h o unfolding opened_def host_ok_def by fastforce
  ultimately show ?thesis using h o unfolding opened_def host_ok_def by (simp add: card_Un_disjoint)
qed

lemma os_pipe_opened:
  assumes "host_ok h" "card (ho_fds h) + 2 \<le> ho_limit h" "{cn_child_fd c, cn_pipe c} = {ho_next h, ho_next h + 1}"
  shows "opened h [c] ((snd (os_pipe h))\<lparr>ho_subs := ho_subs h @ conn_subs [c]\<rparr>)"
  using assms by (auto simp: os_pipe_def opened_def host_ok_def doubleton_eq_iff)

lemma subscribe_opened:
  assumes "host_ok h" "card (ho_fds h) + 2 * length ins \<le> ho_limit h"
  shows "\<exists>r cs h'. subscribe_to_inputs available ins (h, k) = (r, (h', k\<lparr>wk_in_conns := wk_in_conns k @ cs\<rparr>))
    \<and> opened h cs h' \<and> length cs \<le> length ins
    \<and> (if \<forall>i \<in> snd ` set ins. available i then r = Inr () else \<exists>m. r = Inl (SubscriptionError m))"
  using assms
proof (induction ins arbitrary: h k)
  case Nil
  then show ?case using opened_none by (force simp: pureA_def)
next
  case (Cons x ins)
  obtain name stream where x: "x = (name, stream)" by (cases x)
  let ?c = "\<lparr>cn_name = name, cn_child_fd = ho_next h, cn_stream = stream, cn_pipe = ho_next h + 1, cn_unsubscribe = True\<rparr>"
  have p: "os_pipe h = (Inr (ho_next h, ho_next h + 1),
      h\<lparr>ho_fds := ho_fds h \<union> {ho_next h, ho_next h + 1}, ho_next := ho_next h + 2\<rparr>)"
    using Cons.prems(2) by (simp add: os_pipe_def)
  have limit: "card (ho_fds h) + 2 \<le> ho_limit h" using Cons.prems(2) by simp
  show ?case
  proof (cases "available stream")
    case True
    let ?h1 = "(snd (os_pipe h))\<lparr>ho_subs := ho_subs h @ conn_subs [?c]\<rparr>"
    let ?k1 = "k\<lparr>wk_in_conns := wk_in_conns k @ [?c]\<rparr>"
    have o1: "opened h [?c] ?h1" by (rule os_pipe_opened [OF Cons.prems(1) limit]) simp
    then have h1: "host_ok ?h1" "card (ho_fds ?h1) = card (ho_fds h) + 2" "ho_limit ?h1 = ho_limit h"
      using opened_card [OF Cons.prems(1) o1] by (simp_all add: opened_def)
    have "card (ho_fds ?h1) + 2 * length ins \<le> ho_limit ?h1" using Cons.prems(2) h1 by simp
    from Cons.IH [OF h1(1) this, of ?k1] obtain r cs h' where ih:
      "subscribe_to_inputs available ins (?h1, ?k1) = (r, (h', ?k1\<lparr>wk_in_conns := wk_in_conns ?k1 @ cs\<rparr>))"
      "opened ?h1 cs h'" "length cs \<le> length ins"
      "if \<forall>i \<in> snd ` set ins. available i then r = Inr () else \<exists>m. r = Inl (SubscriptionError m)" by blast
    have "subscribe_to_inputs available (x # ins) (h, k) = (r, (h', k\<lparr>wk_in_conns := wk_in_conns k @ ?c # cs\<rparr>))"
      using ih(1) True p by (simp add: x seqA_def on_host_def on_worker_def add_subscription_def)
    moreover have "opened h (?c # cs) h'" using opened_trans [OF o1 ih(2)] by simp
    ultimately show ?thesis using ih(3,4) True x
      by (intro exI [of _ r] exI [of _ "?c # cs"] exI [of _ h']) simp
  next
    case False
    have free: "ho_next h \<notin> ho_fds h" "ho_next h + 1 \<notin> ho_fds h" using Cons.prems(1) by (auto simp: host_ok_def)
    let ?h1 = "h\<lparr>ho_next := ho_next h + 2\<rparr>"
    have "subscribe_to_inputs available (x # ins) (h, k) = (Inl (SubscriptionError ''stream [%s] has no producer''), (?h1, k))"
      using False p free by (simp add: x seqA_def on_host_def os_close_def pipe_close_def insert_Diff_if)
    moreover have "opened h [] ?h1" using Cons.prems(1) by (force simp: opened_def host_ok_def)
    ultimately show ?thesis using False x
      by (intro exI [of _ "Inl (SubscriptionError ''stream [%s] has no producer'')"] exI [of _ "[]"] exI [of _ ?h1]) simp
  qed
qed

lemma spawn_opened:
  assumes "host_ok h" "card (ho_fds h) + 2 * length outs \<le> ho_limit h"
  shows "\<exists>cs h'. spawn_outputs outs (h, k) = (Inr (), (h', k\<lparr>wk_out_conns := wk_out_conns k @ cs\<rparr>))
    \<and> opened h cs h' \<and> length cs = length outs \<and> filter cn_unsubscribe cs = []"
  using assms
proof (induction outs arbitrary: h k)
  case Nil
  then show ?case using opened_none by (force simp: pureA_def)
next
  case (Cons x outs)
  obtain name stream where x: "x = (name, stream)" by (cases x)
  let ?c = "\<lparr>cn_name = name, cn_child_fd = ho_next h + 1, cn_stream = stream, cn_pipe = ho_next h, cn_unsubscribe = False\<rparr>"
  let ?h1 = "(snd (os_pipe h))\<lparr>ho_subs := ho_subs h @ conn_subs [?c]\<rparr>"
  let ?k1 = "k\<lparr>wk_out_conns := wk_out_conns k @ [?c]\<rparr>"
  have limit: "card (ho_fds h) + 2 \<le> ho_limit h" using Cons.prems(2) by simp
  have p: "os_pipe h = (Inr (ho_next h, ho_next h + 1),
      h\<lparr>ho_fds := ho_fds h \<union> {ho_next h, ho_next h + 1}, ho_next := ho_next h + 2\<rparr>)"
    using limit by (simp add: os_pipe_def)
  have o1: "opened h [?c] ?h1" by (rule os_pipe_opened [OF Cons.prems(1) limit]) auto
  then have h1: "host_ok ?h1" "card (ho_fds ?h1) = card (ho_fds h) + 2" "ho_limit ?h1 = ho_limit h"
    using opened_card [OF Cons.prems(1) o1] by (simp_all add: opened_def)
  have "card (ho_fds ?h1) + 2 * length outs \<le> ho_limit ?h1" using Cons.prems(2) h1 by simp
  from Cons.IH [OF h1(1) this, of ?k1] obtain cs h' where ih:
    "spawn_outputs outs (?h1, ?k1) = (Inr (), (h', ?k1\<lparr>wk_out_conns := wk_out_conns ?k1 @ cs\<rparr>))"
    "opened ?h1 cs h'" "length cs = length outs" "filter cn_unsubscribe cs = []" by blast
  have "spawn_outputs (x # outs) (h, k) = (Inr (), (h', k\<lparr>wk_out_conns := wk_out_conns k @ ?c # cs\<rparr>))"
    using ih(1) p by (simp add: x seqA_def on_host_def on_worker_def)
  moreover have "opened h (?c # cs) h'" using opened_trans [OF o1 ih(2)] by simp
  ultimately show ?case using ih(3,4) by (intro exI [of _ "?c # cs"] exI [of _ h']) simp
qed

lemma os_close_open: "fd \<in> ho_fds h \<Longrightarrow> os_close fd h = (Inr (), h\<lparr>ho_fds := ho_fds h - {fd}\<rparr>)"
  by (simp add: os_close_def)

lemma close_children:
  "distinct (map cn_child_fd cs) \<Longrightarrow> cn_child_fd ` set cs \<subseteq> ho_fds h \<Longrightarrow>
   each_conn (\<lambda>c. os_close (cn_child_fd c)) cs h = (Inr (), h\<lparr>ho_fds := ho_fds h - cn_child_fd ` set cs\<rparr>)"
proof (induction cs arbitrary: h)
  case (Cons c cs)
  let ?h = "h\<lparr>ho_fds := ho_fds h - {cn_child_fd c}\<rparr>"
  have "cn_child_fd ` set cs \<subseteq> ho_fds ?h" using Cons.prems by (simp add: subset_Diff_insert)
  then have "each_conn (\<lambda>c. os_close (cn_child_fd c)) cs ?h = (Inr (), ?h\<lparr>ho_fds := ho_fds ?h - cn_child_fd ` set cs\<rparr>)"
    using Cons by simp
  then show ?case using Cons.prems(2) by (simp add: seqA_def os_close_open Diff_insert2 [symmetric])
qed simp

lemma disconnect_all:
  "each_conn disconnect cs h = (Inr (), h\<lparr>ho_fds := ho_fds h - cn_pipe ` set cs, ho_subs := fold remove1 (conn_subs cs) (ho_subs h)\<rparr>)"
proof (induction cs arbitrary: h)
  case (Cons c cs)
  then show ?case
    by (cases "cn_unsubscribe c") (auto simp: seqA_def disconnect_def pipe_close_def whenA_def Diff_insert2 [symmetric])
qed simp

lemma fold_remove1: "set xs \<inter> set ys = {} \<Longrightarrow> fold remove1 xs (ys @ xs) = ys"
  by (induction xs arbitrary: ys) (auto simp: remove1_append)

lemma fds_split: "set (concat (map conn_fds cs)) = cn_child_fd ` set cs \<union> cn_pipe ` set cs"
  by auto

text \<open>Closing what has been opened gives the host back, up to the next free descriptor.\<close>

lemma opened_closed:
  assumes "host_ok h" "opened h (ins @ outs) h'" "filter cn_unsubscribe outs = []"
    and "wk_in_conns k = ins" "wk_out_conns k = outs"
  shows "\<exists>h1. close_child_fds (h', k) = (Inr (), (h1, k))
    \<and> close_connections (h1\<lparr>ho_locked := l\<rparr>, k)
      = (Inr (), (h'\<lparr>ho_fds := ho_fds h, ho_subs := ho_subs h, ho_locked := l\<rparr>, k\<lparr>wk_in_conns := [], wk_out_conns := []\<rparr>))
    \<and> ho_locked h1 = ho_locked h'"
proof -
  let ?cs = "ins @ outs"
  let ?h1 = "h'\<lparr>ho_fds := ho_fds h' - cn_child_fd ` set ?cs\<rparr>"
  note o = assms(2) [unfolded opened_def]
  have d: "distinct (map cn_child_fd ?cs)"
  proof -
    have "distinct (concat (map conn_fds cs)) \<Longrightarrow> distinct (map cn_child_fd cs)" for cs by (induction cs) auto
    then show ?thesis using o by blast
  qed
  have "cn_child_fd ` set ?cs \<subseteq> ho_fds h'" using o fds_split [of ?cs] by blast
  then have 1: "close_child_fds (h', k) = (Inr (), (?h1, k))"
    using close_children [OF d] assms(4,5) by (simp add: close_child_fds_def on_host_def)
  have disj: "ho_fds h \<inter> set (concat (map conn_fds ?cs)) = {}"
    using assms(1) o by (fastforce simp: host_ok_def)
  have F: "(ho_fds h' - cn_child_fd ` set ?cs) - cn_pipe ` set (outs @ ins) = ho_fds h"
    using o disj fds_split [of ?cs] by auto
  have dis: "set (conn_subs ins) \<inter> set (ho_subs h) = {}"
  proof -
    have "ho_next h \<le> p" if "(s, p) \<in> set (conn_subs ins)" for s p using that o by auto
    moreover have "p < ho_next h" if "(s, p) \<in> set (ho_subs h)" for s p using that assms(1) by (auto simp: host_ok_def)
    ultimately show ?thesis by fastforce
  qed
  have "ho_subs h' = ho_subs h @ conn_subs ins" "conn_subs (outs @ ins) = conn_subs ins" using o assms(3) by simp_all
  then have S: "fold remove1 (conn_subs (outs @ ins)) (ho_subs h') = ho_subs h"
    using fold_remove1 [OF dis] by (simp only:)
  have "close_connections (?h1\<lparr>ho_locked := l\<rparr>, k)
      = (Inr (), (h'\<lparr>ho_fds := ho_fds h, ho_subs := ho_subs h, ho_locked := l\<rparr>, k\<lparr>wk_in_conns := [], wk_out_conns := []\<rparr>))"
    using F S assms(4,5) by (simp add: close_connections_def on_host_def on_worker_def seqA_def disconnect_all)
  then show ?thesis using 1 by (intro exI [of _ ?h1]) simp
qed

lemma log_msg_simps [simp]:
  "wk_inputs (log_msg m k) = wk_inputs k" "wk_outputs (log_msg m k) = wk_outputs k"
  "wk_in_conns (log_msg m k) = wk_in_conns k" "wk_out_conns (log_msg m k) = wk_out_conns k"
  "wk_log_size (log_msg m k) = wk_log_size k" "wk_log_size k \<le> n \<Longrightarrow> length (wk_logs (log_msg m k)) \<le> n"
  by (simp_all add: log_msg_def Let_def)

lemma spawn_child_result:
  assumes "host_ok h" "\<not> ho_locked h" "wk_in_conns k = []" "wk_out_conns k = []"
    and "card (ho_fds h) + 2 * (length (wk_inputs k) + length (wk_outputs k)) \<le> ho_limit h"
  shows "\<exists>r h' k'. spawn_child available starts (h, k) = (r, (h', k'))
    \<and> host_ok h' \<and> ho_fds h' = ho_fds h \<and> ho_subs h' = ho_subs h \<and> \<not> ho_locked h' \<and> ho_limit h' = ho_limit h
    \<and> wk_in_conns k' = [] \<and> wk_out_conns k' = [] \<and> wk_inputs k' = wk_inputs k \<and> wk_outputs k' = wk_outputs k
    \<and> wk_log_size k' = wk_log_size k \<and> (length (wk_logs k) \<le> wk_log_size k \<longrightarrow> length (wk_logs k') \<le> wk_log_size k)
    \<and> (if \<forall>i \<in> snd ` set (wk_inputs k). available i then r = Inr () else \<exists>m. r = Inl (SubscriptionError m))"
proof -
  let ?h = "h\<lparr>ho_locked := True\<rparr>"
  have h: "host_ok ?h" using assms(1) by (simp add: host_ok_def)
  have "card (ho_fds ?h) + 2 * length (wk_inputs k) \<le> ho_limit ?h" using assms(5) by simp
  from subscribe_opened [OF h this, of available k] obtain r cs h1 where s:
    "subscribe_to_inputs available (wk_inputs k) (?h, k) = (r, (h1, k\<lparr>wk_in_conns := cs\<rparr>))"
    "opened ?h cs h1" "length cs \<le> length (wk_inputs k)"
    "if \<forall>i \<in> snd ` set (wk_inputs k). available i then r = Inr () else \<exists>m. r = Inl (SubscriptionError m)"
    using assms(3) by auto
  have outs0: "wk_out_conns k = []" by (rule assms(4))
  have final: "host_ok (h1'\<lparr>ho_fds := ho_fds h, ho_subs := ho_subs h, ho_locked := False\<rparr>)"
    "ho_limit h1' = ho_limit h" if "opened ?h ds h1'" for h1' ds
    using that assms(1) by (fastforce simp: opened_def host_ok_def)+
  show ?thesis
  proof (cases "\<forall>i \<in> snd ` set (wk_inputs k). available i")
    case False
    then obtain m where r: "r = Inl (SubscriptionError m)" using s(4) by (auto split: if_splits)
    have "opened ?h (cs @ []) h1" using s(2) by simp
    from opened_closed [OF h this, of "k\<lparr>wk_in_conns := cs\<rparr>" False] obtain h2 where c:
      "close_child_fds (h1, k\<lparr>wk_in_conns := cs\<rparr>) = (Inr (), (h2, k\<lparr>wk_in_conns := cs\<rparr>))"
      "close_connections (h2\<lparr>ho_locked := False\<rparr>, k\<lparr>wk_in_conns := cs\<rparr>)
        = (Inr (), (h1\<lparr>ho_fds := ho_fds ?h, ho_subs := ho_subs ?h, ho_locked := False\<rparr>, k\<lparr>wk_in_conns := [], wk_out_conns := []\<rparr>))"
      using outs0 by auto
    have "spawn_child available starts (h, k) = (Inl (SubscriptionError m),
        (h1\<lparr>ho_fds := ho_fds h, ho_subs := ho_subs h, ho_locked := False\<rparr>, k\<lparr>wk_in_conns := [], wk_out_conns := []\<rparr>))"
      using s(1) c r assms(2) by (simp add: spawn_child_def seqA_def on_host_def acquire_def release_def)
    then show ?thesis using final [OF s(2)] False by auto
  next
    case True
    then have r: "r = Inr ()" using s(4) by auto
    have h1: "host_ok h1" "ho_limit h1 = ho_limit h" using s(2) by (simp_all add: opened_def)
    have "card (ho_fds h1) + 2 * length (wk_outputs k) \<le> ho_limit h1"
      using opened_card [OF h s(2)] s(3) assms(5) h1(2) by simp
    from spawn_opened [OF h1(1) this, of "k\<lparr>wk_in_conns := cs\<rparr>"] obtain ds h2 where o:
      "spawn_outputs (wk_outputs k) (h1, k\<lparr>wk_in_conns := cs\<rparr>) = (Inr (), (h2, k\<lparr>wk_in_conns := cs, wk_out_conns := ds\<rparr>))"
      "opened h1 ds h2" "filter cn_unsubscribe ds = []"
      using outs0 by auto
    note all = opened_trans [OF s(2) o(2)]
    have c: "\<exists>h3. close_child_fds (h2, k') = (Inr (), (h3, k')) \<and> close_connections (h3\<lparr>ho_locked := False\<rparr>, k')
        = (Inr (), (h2\<lparr>ho_fds := ho_fds ?h, ho_subs := ho_subs ?h, ho_locked := False\<rparr>, k'\<lparr>wk_in_conns := [], wk_out_conns := []\<rparr>))"
      if "wk_in_conns k' = cs" "wk_out_conns k' = ds" for k' :: "'a worker"
      using opened_closed [OF h all o(3) that, of False] by blast
    let ?k = "k\<lparr>wk_in_conns := cs, wk_out_conns := ds\<rparr>"
    let ?k' = "if starts then ?k\<lparr>wk_running := True\<rparr>
      else (log_msg ''ERROR: cannot start module: %s'' ?k)\<lparr>wk_running := False, wk_status := FAILED\<rparr>"
    have k': "wk_in_conns ?k' = cs" "wk_out_conns ?k' = ds" by simp_all
    obtain h3 where h3: "close_child_fds (h2, ?k') = (Inr (), (h3, ?k'))"
      "close_connections (h3\<lparr>ho_locked := False\<rparr>, ?k')
        = (Inr (), (h2\<lparr>ho_fds := ho_fds ?h, ho_subs := ho_subs ?h, ho_locked := False\<rparr>, ?k'\<lparr>wk_in_conns := [], wk_out_conns := []\<rparr>))"
      using c [OF k'] by blast
    have "spawn_child available starts (h, k)
        = (Inr (), (h2\<lparr>ho_fds := ho_fds h, ho_subs := ho_subs h, ho_locked := False\<rparr>, ?k'\<lparr>wk_in_conns := [], wk_out_conns := []\<rparr>))"
      using s(1) o(1) h3 r assms(2)
      by (cases starts) (simp_all add: spawn_child_def seqA_def on_host_def on_worker_def acquire_def release_def)
    moreover have "wk_inputs ?k' = wk_inputs k" "wk_outputs ?k' = wk_outputs k" "wk_log_size ?k' = wk_log_size k"
      "length (wk_logs k) \<le> wk_log_size k \<longrightarrow> length (wk_logs ?k') \<le> wk_log_size k" by simp_all
    ultimately show ?thesis using final [OF all] True by auto
  qed
qed

text \<open>A host and a worker as they were, but for what may differ between runs.\<close>

definition settled :: "host \<Rightarrow> 's worker \<Rightarrow> host \<times> 's worker \<Rightarrow> bool" where
  "settled h k s =
     (host_ok (fst s) \<and> ho_fds (fst s) = ho_fds h \<and> ho_subs (fst s) = ho_subs h \<and> \<not> ho_locked (fst s)
      \<and> ho_limit (fst s) = ho_limit h \<and> wk_in_conns (snd s) = [] \<and> wk_out_conns (snd s) = []
      \<and> wk_inputs (snd s) = wk_inputs k \<and> wk_outputs (snd s) = wk_outputs k \<and> wk_log_size (snd s) = wk_log_size k
      \<and> length (wk_logs (snd s)) \<le> wk_log_size k)"

lemma spawn_settled:
  assumes "settled h k s" "card (ho_fds h) + 2 * (length (wk_inputs k) + length (wk_outputs k)) \<le> ho_limit h"
  shows "\<exists>r s'. spawn_child available starts s = (r, s') \<and> settled h k s' \<and> (r = Inr () \<or> (\<exists>m. r = Inl (SubscriptionError m)))"
proof -
  obtain h1 k1 where s: "s = (h1, k1)" by (cases s)
  note a = assms(1) [unfolded settled_def s fst_conv snd_conv]
  have "card (ho_fds h1) + 2 * (length (wk_inputs k1) + length (wk_outputs k1)) \<le> ho_limit h1"
    using assms(2) a by simp
  from spawn_child_result [OF _ _ _ _ this, of available starts] a show ?thesis
    unfolding s settled_def by (auto split: if_splits)
qed

lemma break_settled: "settled h k s \<Longrightarrow> break_subscribers brk s = (r, s') \<Longrightarrow> settled h k s'"
proof -
  assume s: "settled h k s" and b: "break_subscribers brk s = (r, s')"
  have "snd (break_subscribers brk s) = (fst s, (snd s)\<lparr>wk_subscribers := snd (each_sub (\<lambda>(i, ps). map_prod id (Pair i) (break_all brk ps)) (wk_subscribers (snd s)))\<rparr>)"
    by (simp add: break_subscribers_def split: prod.split)
  then show ?thesis using s b by (simp add: settled_def)
qed

lemma run_settled:
  assumes "card (ho_fds h) + 2 * (length (wk_inputs k) + length (wk_outputs k)) \<le> ho_limit h"
  shows "settled h k s \<Longrightarrow> run_loop brk restart xs s = (r, s') \<Longrightarrow> settled h k s'"
proof (induction xs arbitrary: s)
  case (Cons x xs)
  show ?case
  proof (cases "wk_stop (snd s)")
    case True
    then show ?thesis using Cons.prems by simp
  next
    case False
    let ?s = "(fst s, log_msg ''---starting module---'' (snd s))"
    have "settled h k ?s" using Cons.prems(1) by (simp add: settled_def)
    from spawn_settled [OF this assms] obtain r1 s1 where sp: "spawn_child (rn_available x) (rn_starts x) ?s = (r1, s1)"
      "settled h k s1" "r1 = Inr () \<or> (\<exists>m. r1 = Inl (SubscriptionError m))" by blast
    have run: "run_loop brk restart (x # xs) s =
        (case (r1, s1) of
           (Inl (SubscriptionError m), s) \<Rightarrow>
             seqA (on_worker (log_msg ''inputs are not available: %s'')) (\<lambda>_. pureA True) s
         | (Inl e, s) \<Rightarrow> (Inl e, s)
         | (Inr _, s) \<Rightarrow>
             seqA (on_worker (\<lambda>k. (log_msg ''---module terminated---'' k)\<lparr>wk_stop := (wk_stop k \<or> rn_stop x)\<rparr>)) (\<lambda>_ s.
               if \<not> restart \<or> wk_stop (snd s) then (Inr True, s)
               else seqA (break_subscribers brk) (\<lambda>_. run_loop brk restart xs) s) s)"
      using False sp(1) by (simp add: seqA_def on_worker_def)
    have logged: "settled h k (fst s1, log_msg m (snd s1))" for m
      using sp(2) by (simp add: settled_def)
    from sp(3) show ?thesis
    proof (elim disjE exE)
      fix m
      assume "r1 = Inl (SubscriptionError m)"
      then have "s' = (fst s1, log_msg ''inputs are not available: %s'' (snd s1))"
        using run Cons.prems(2) by (simp add: seqA_def on_worker_def)
      then show ?thesis using logged by simp
    next
      assume r1: "r1 = Inr ()"
      let ?k = "(log_msg ''---module terminated---'' (snd s1))\<lparr>wk_stop := (wk_stop (snd s1) \<or> rn_stop x)\<rparr>"
      have k: "settled h k (fst s1, ?k)" using logged [of "''---module terminated---''"] by (simp add: settled_def)
      show ?thesis
      proof (cases "\<not> restart \<or> wk_stop ?k")
        case True
        then show ?thesis using r1 run Cons.prems(2) k by (simp add: seqA_def on_worker_def)
      next
        case False
        obtain rb sb where b: "break_subscribers brk (fst s1, ?k) = (rb, sb)"
          by (cases "break_subscribers brk (fst s1, ?k)")
        have sb: "settled h k sb" by (rule break_settled [OF k b])
        show ?thesis
        proof (cases rb)
          case (Inl e)
          then show ?thesis using r1 run Cons.prems(2) b sb False by (simp add: seqA_def on_worker_def)
        next
          case (Inr u)
          then have "run_loop brk restart xs sb = (r, s')"
            using r1 run Cons.prems(2) b False by (simp add: seqA_def on_worker_def)
          then show ?thesis by (rule Cons.IH [OF sb])
        qed
      qed
    qed
  qed
qed simp


definition demo_host :: host where
  "demo_host = \<lparr>ho_fds = {0, 1, 2}, ho_next = 3, ho_limit = 10, ho_locked = False, ho_subs = []\<rparr>"

definition demo_worker :: "subscriber worker" where
  "demo_worker = worker_init \<lparr>mc_uuid = 0, mc_inputs = [(''a'', 1), (''b'', 2)], mc_outputs = [(''c'', 3)],
     mc_is_app = False, mc_log_size = 2\<rparr>"


text \<open>
  When the host runs out of descriptors while a worker opens its pipes the error leaves the lock taken:
  only a missing producer is caught.  No worker of the host can start a child any more, whatever it needs.
\<close>

lemma spawn_error_keeps_lock:
  assumes "\<not> ho_locked h" "ho_limit h < card (ho_fds h) + 2" "wk_inputs k \<noteq> []"
    and "spawn_child available starts (h, k) = (r, (h', k'))"
  shows "r = Inl PyOSError \<and> spawn_child available' starts' (h', j) = (Inl CancelledError, (h', j))"
proof -
  obtain name stream ins where i: "wk_inputs k = (name, stream) # ins" using assms(3) by (cases "wk_inputs k") auto
  then have "spawn_child available starts (h, k) = (Inl PyOSError, (h\<lparr>ho_locked := True\<rparr>, k))"
    using assms(1,2) by (simp add: spawn_child_def seqA_def on_host_def acquire_def os_pipe_def)
  then show ?thesis using assms(4)
    by (auto simp: spawn_child_def seqA_def on_host_def acquire_def)
qed

lemma spawn_error_keeps_lock_witness:
  "let h = demo_host\<lparr>ho_limit := 4\<rparr>; s = spawn_child (\<lambda>i. True) True (h, demo_worker)
   in fst s = Inl PyOSError \<and> fst (spawn_child (\<lambda>i. True) True (fst (snd s), demo_worker)) = Inl CancelledError"
proof -
  obtain r h' k' where s: "spawn_child (\<lambda>i. True) True (demo_host\<lparr>ho_limit := 4\<rparr>, demo_worker) = (r, (h', k'))"
    by (cases "spawn_child (\<lambda>i. True) True (demo_host\<lparr>ho_limit := 4\<rparr>, demo_worker)") auto
  show ?thesis
    using spawn_error_keeps_lock [OF _ _ _ s, of "\<lambda>i. True" True demo_worker] s
    by (simp add: demo_host_def demo_worker_def worker_init_def)
qed

lemma map_of_by_key: "map_of (map (\<lambda>(i, x). (i, f i x)) xs) k = map_option (f k) (map_of xs k)"
  by (induction xs) auto

lemma handle_remote_closed: "op_closed dest \<Longrightarrow> handle_remote_input blocks dest = (Inr (), dest)"
  by (induction blocks) auto

text \<open>
  A module with a remote input gets none of its data after a restart.  The first pipe it had stays
  registered for the stream, closed; the new pipe only becomes a subscriber of that pipe, and what arrives from
  the remote node is not written to a closed pipe: the new pipe stays as it was.
\<close>

lemma remote_input_lost_after_restart:
  assumes "map_of rs stream = Some dest" "op_closed dest"
  shows "\<exists>dest'. map_of (remote_data stream blocks (connect_remote_input stream pipe rs)) stream = Some dest'
    \<and> op_subscribers dest' = op_subscribers dest @ [pipe]"
proof -
  have "map_of (connect_remote_input stream pipe rs) stream = Some (op_subscribe dest pipe)"
    using assms(1) by (simp add: connect_remote_input_def update_conv)
  moreover have "op_closed (op_subscribe dest pipe)" using assms(2) by (simp add: op_subscribe_def)
  ultimately have "map_of (remote_data stream blocks (connect_remote_input stream pipe rs)) stream = Some (op_subscribe dest pipe)"
    by (simp add: remote_data_def map_of_by_key handle_remote_closed)
  then show ?thesis by (simp add: op_subscribe_def)
qed

lemma remote_input_lost_after_restart_witness:
  "let first = output_pipe_init demo_dtype True False; again = output_pipe_init demo_dtype True False;
       rs = map (\<lambda>(i, p). (i, snd (op_close forward (\<lambda>p. (Inr (), p)) p))) (connect_remote_input 5 first [])
   in \<exists>dest'. map_of (remote_data 5 [[demo_row 1]] (connect_remote_input 5 again rs)) 5 = Some dest'
    \<and> op_subscribers dest' = [again]"
proof -
  let ?first = "output_pipe_init demo_dtype True False :: module_pipe"
  let ?dest = "snd (op_close forward (\<lambda>p. (Inr (), p)) (output_pipe_init demo_dtype True False)) :: module_pipe output_pipe"
  have rs: "map (\<lambda>(i, p). (i, snd (op_close forward (\<lambda>p. (Inr (), p)) p))) (connect_remote_input 5 ?first []) = [(5, ?dest)]"
    by (simp add: connect_remote_input_def output_pipe_init_def)
  have d: "op_closed ?dest" "op_subscribers ?dest = []"
    by (simp_all add: op_close_def output_pipe_init_def Let_def)
  show ?thesis unfolding Let_def rs
    using remote_input_lost_after_restart [of "[(5, ?dest)]" 5 ?dest "[[demo_row 1]]" ?first] d by simp
qed

end
