(* ===== verification/Daemon.thy ===== *)
theory Daemon
  imports Server_Start Supervisor Masters "HOL-Library.Sublist"
begin

text \<open>
  \<open>daemon.py\<close>: which streams get an inserter, the loop that keeps an inserter subscribed to its stream, the
  watch on the users file and the filter of repeated log messages; and from \<open>models/supervisor.py\<close> the restart
  of producers and the tasks that forward the outputs of modules to other nodes.
\<close>

section \<open>The workers of the loaded modules\<close>

text \<open>Streams of the catalogue are known by their id, those of other nodes by \<open>far\<close>.\<close>

definition target_key :: "('f data_stream \<Rightarrow> int) \<Rightarrow> 'f target \<Rightarrow> int" where
  "target_key far t = (case t of Local i \<Rightarrow> i | Remote s \<Rightarrow> far s)"

definition conf_of :: "('f data_stream \<Rightarrow> int) \<Rightarrow> 'f module \<Rightarrow> module_conf" where
  "conf_of far m =
     \<lparr>mc_uuid = int (mo_uuid m), mc_inputs = map (\<lambda>(n, t). (n, target_key far t)) (mo_inputs m),
      mc_outputs = map (\<lambda>(n, t). (n, target_key far t)) (mo_outputs m), mc_is_app = mo_is_app m, mc_log_size = 100\<rparr>"

definition workers_of :: "('f data_stream \<Rightarrow> int) \<Rightarrow> 'f module list \<Rightarrow> 's worker list" where
  "workers_of far ms = map (\<lambda>m. worker_init (conf_of far m)) ms"

definition inserter_streams :: "'f catalog \<Rightarrow> 'f data_stream list" where
  "inserter_streams c = filter (\<lambda>s. ds_is_destination s = Some True) (filter (\<lambda>s. ds_keep_us s \<noteq> keep_none) (ct_data c))"

section \<open>Restarting producers\<close>

text \<open>The signals go to the process of each worker that produces the stream, in the order of the workers.\<close>

fun restart_producer :: "int \<Rightarrow> child list \<Rightarrow> 's worker list \<Rightarrow> signal list \<times> 's worker list" where
  "restart_producer stream (p # ps) (k # ks) =
     (let (sigs, ks) = restart_producer stream ps ks
      in if produces stream k then (stop_child p @ sigs, log_msg ''[Supervisor Restarting Module: %s]'' k # ks)
         else (sigs, k # ks))"
| "restart_producer stream _ ks = ([], ks)"

section \<open>Inserters\<close>

text \<open>
  One round of \<open>_spawn_inserter\<close>: the pipe made for it, how awaiting the inserter ends, and the processes of
  the workers.
\<close>

record 's insert_round =
  ir_pipe :: 's
  ir_end :: "unit res"
  ir_procs :: "child list"

text \<open>The unsubscription belongs to the worker that accepted the pipe.\<close>

fun producer_of :: "int \<Rightarrow> 's worker list \<Rightarrow> nat" where
  "producer_of stream [] = 0"
| "producer_of stream (k # ks) = (if map_of (wk_subscribers k) stream = None then Suc (producer_of stream ks) else 0)"

text \<open>The result says whether the loop has ended when the rounds are used up.\<close>

fun spawn_inserter :: "int \<Rightarrow> 's insert_round list \<Rightarrow> ('s worker list, bool) act" where
  "spawn_inserter stream [] ks = (Inr False, ks)"
| "spawn_inserter stream (r # rs) ks =
     (case supervisor_subscribe stream (ir_pipe r) ks of
        Inl e \<Rightarrow> (Inl e, ks)
      | Inr ks1 \<Rightarrow>
          (case ir_end r of
             Inr _ \<Rightarrow> (Inr True, ks1)
           | Inl (DataError m) \<Rightarrow>
               (let i = producer_of stream ks; ks2 = snd (restart_producer stream (ir_procs r) ks1)
                in spawn_inserter stream rs (ks2[i := worker_unsubscribe stream (ir_pipe r) (ks2 ! i)]))
           | Inl CancelledError \<Rightarrow> (Inr True, ks1)
           | Inl e \<Rightarrow> (Inl e, ks1)))"

section \<open>The users file\<close>

text \<open>
  The rounds of \<open>watch_users_file\<close>: the time of change and the lines found (\<open>None\<close>: no such file).
\<close>

fun watch_users_file :: "(string \<Rightarrow> string \<Rightarrow> bool) \<Rightarrow> int option \<Rightarrow> (int \<times> string list) option list
    \<Rightarrow> masters \<Rightarrow> unit res \<times> masters" where
  "watch_users_file like last_mtime [] t = (Inr (), t)"
| "watch_users_file like last_mtime (None # fs) t = (Inl PyOSError, t)"
| "watch_users_file like last_mtime (Some (mtime, ls) # fs) t =
     (if last_mtime \<noteq> None \<and> mtime \<le> the last_mtime then watch_users_file like last_mtime fs t
      else (case update_users_from_file like ls t of
              (Inl e, t) \<Rightarrow> (Inl e, t)
            | (Inr _, t) \<Rightarrow> watch_users_file like (Some mtime) fs t))"

section \<open>Repeated log messages\<close>

record log_filter =
  lf_first_repeat :: bool
  lf_last_time :: int
  lf_last_msg :: "string option"

definition log_filter_init :: log_filter where
  "log_filter_init = \<lparr>lf_first_repeat = True, lf_last_time = 0, lf_last_msg = None\<rparr>"

text \<open>The message that is shown, if any, at the time \<open>now\<close>.\<close>

definition log_dedup :: "int \<Rightarrow> int \<Rightarrow> string \<Rightarrow> log_filter \<Rightarrow> string option \<times> log_filter" where
  "log_dedup max_gap now msg f =
     (case lf_last_msg f of
        None \<Rightarrow> (Some msg, f\<lparr>lf_last_msg := Some msg\<rparr>)
      | Some last_msg \<Rightarrow>
          if last_msg = msg then
            (let prev = lf_last_time f; f = f\<lparr>lf_last_msg := Some msg, lf_last_time := now\<rparr>
             in if now - prev < max_gap
                then if lf_first_repeat f then (Some ''[...repeats]'', f\<lparr>lf_first_repeat := False\<rparr>) else (None, f)
                else (Some msg, f))
          else (Some msg, f\<lparr>lf_last_time := 0, lf_last_msg := Some msg, lf_first_repeat := True\<rparr>))"

fun log_run :: "int \<Rightarrow> (int \<times> string) list \<Rightarrow> log_filter \<Rightarrow> string list" where
  "log_run max_gap [] f = []"
| "log_run max_gap ((now, msg) # ms) f =
     (case log_dedup max_gap now msg f of
        (None, f) \<Rightarrow> log_run max_gap ms f
      | (Some m, f) \<Rightarrow> m # log_run max_gap ms f)"

section \<open>Outputs to other nodes\<close>

text \<open>\<open>get_node\<close>; \<open>connect\<close> makes a node of a follower.\<close>

definition get_node :: "(follower \<Rightarrow> 'n) \<Rightarrow> follower list \<Rightarrow> string \<Rightarrow> 'n option res" where
  "get_node connect fs name =
     (case filter (\<lambda>f. fo_name f = name) fs of
        [] \<Rightarrow> Inr None
      | [f] \<Rightarrow> Inr (Some (connect f))
      | _ \<Rightarrow> Inl MultipleResultsFound)"

text \<open>A pipe of its own for each stream of the worker that is on another node.\<close>

fun connect_remote_outputs :: "(int \<Rightarrow> bool) \<Rightarrow> (int \<Rightarrow> 's) \<Rightarrow> int list \<Rightarrow> 's worker \<Rightarrow> 's worker res" where
  "connect_remote_outputs remote pipe_for [] k = Inr k"
| "connect_remote_outputs remote pipe_for (i # is) k =
     (if remote i then bindE (worker_subscribe i (pipe_for i) k) (connect_remote_outputs remote pipe_for is)
      else connect_remote_outputs remote pipe_for is k)"

text \<open>
  The inner loop of \<open>_handle_remote_output\<close>, which only an exception ends; a block is consumed when it has been
  written.
\<close>

fun forward_blocks :: "nat \<Rightarrow> ('p \<Rightarrow> row list res option \<times> 'p) \<Rightarrow> ('p \<Rightarrow> int \<Rightarrow> unit res \<times> 'p)
    \<Rightarrow> ('d \<Rightarrow> row list \<Rightarrow> unit res \<times> 'd) \<Rightarrow> 'p \<Rightarrow> 'd \<Rightarrow> (exn \<times> 'p \<times> 'd) option" where
  "forward_blocks 0 rd consume wr p d = None"
| "forward_blocks (Suc n) rd consume wr p d =
     (case rd p of
        (None, p) \<Rightarrow> None
      | (Some (Inl e), p) \<Rightarrow> Some (e, p, d)
      | (Some (Inr data), p) \<Rightarrow>
          (case wr d data of
             (Inl e, d) \<Rightarrow> Some (e, p, d)
           | (Inr _, d) \<Rightarrow>
               (case consume p (int (length data)) of
                  (Inl e, p) \<Rightarrow> Some (e, p, d)
                | (Inr _, p) \<Rightarrow> forward_blocks n rd consume wr p d)))"

text \<open>
  \<open>_handle_remote_output\<close>: every attempt to connect gives a pipe to the other node or an exception; only a
  configuration error leads to a new attempt.  The result has the pipes written to.
\<close>

fun handle_remote_output :: "nat \<Rightarrow> ('p \<Rightarrow> row list res option \<times> 'p) \<Rightarrow> ('p \<Rightarrow> int \<Rightarrow> unit res \<times> 'p)
    \<Rightarrow> ('d \<Rightarrow> row list \<Rightarrow> unit res \<times> 'd) \<Rightarrow> 'd res list \<Rightarrow> 'p \<Rightarrow> 'd list \<Rightarrow> (unit res \<times> 'p \<times> 'd list) option" where
  "handle_remote_output n rd consume wr [] p ds = None"
| "handle_remote_output n rd consume wr (conn # conns) p ds =
     (case (case conn of Inl e \<Rightarrow> Some (e, p, ds)
            | Inr d \<Rightarrow> map_option (\<lambda>(e, p, d). (e, p, ds @ [d])) (forward_blocks n rd consume wr p d)) of
        None \<Rightarrow> None
      | Some (ConfigurationError m, p, ds) \<Rightarrow> handle_remote_output n rd consume wr conns p ds
      | Some (CancelledError, p, ds) \<Rightarrow> Some (Inr (), p, ds)
      | Some (e, p, ds) \<Rightarrow> Some (Inl e, p, ds))"

section \<open>An inserter is subscribed once\<close>

definition pipes_to :: "int \<Rightarrow> 's worker list \<Rightarrow> 's list" where
  "pipes_to stream ks = concat (map (\<lambda>k. case map_of (wk_subscribers k) stream of None \<Rightarrow> [] | Some ps \<Rightarrow> ps) ks)"

lemma update_same: "map_of l k = Some v \<Longrightarrow> AList.update k v l = l"
  by (induction l) (auto split: if_splits)

lemma map_of_update: "map_of (AList.update k v l) = (map_of l)(k \<mapsto> v)"
  by (simp add: update_conv' fun_eq_iff)

lemma restart_subscribers: "map wk_subscribers (snd (restart_producer stream ps ks)) = map wk_subscribers ks"
  by (induction stream ps ks rule: restart_producer.induct) (auto simp: log_msg_def split: prod.split)

lemma worker_subscribe_none: "map_of (wk_subscribers k) stream = None \<Longrightarrow> worker_subscribe stream p k = Inl (SubscriptionError '''')"
  by (simp add: worker_subscribe_def)

lemma supervisor_subscribe_at:
  assumes "\<exists>k \<in> set ks. map_of (wk_subscribers k) stream \<noteq> None"
  shows "\<exists>ps. producer_of stream ks < length ks \<and> map_of (wk_subscribers (ks ! producer_of stream ks)) stream = Some ps
    \<and> supervisor_subscribe stream p ks = Inr (ks[producer_of stream ks :=
        (ks ! producer_of stream ks)\<lparr>wk_subscribers := AList.update stream (ps @ [p])
           (wk_subscribers (ks ! producer_of stream ks))\<rparr>])"
  using assms
proof (induction ks)
  case (Cons k ks)
  show ?case
  proof (cases "map_of (wk_subscribers k) stream")
    case None
    then show ?thesis using Cons by (auto simp: worker_subscribe_none)
  next
    case (Some ps)
    then show ?thesis by (auto simp: worker_subscribe_def)
  qed
qed simp

text \<open>A failed round leaves the subscriptions as they were.\<close>

lemma round_restores:
  assumes "supervisor_subscribe stream p ks = Inr ks1" "p \<notin> set (pipes_to stream ks)"
    and "map wk_subscribers ks2 = map wk_subscribers ks1" "\<exists>k \<in> set ks. map_of (wk_subscribers k) stream \<noteq> None"
  shows "map wk_subscribers (ks2[producer_of stream ks := worker_unsubscribe stream p (ks2 ! producer_of stream ks)])
    = map wk_subscribers ks"
proof -
  let ?i = "producer_of stream ks"
  obtain ps where i: "?i < length ks" "map_of (wk_subscribers (ks ! ?i)) stream = Some ps"
    "ks1 = ks[?i := (ks ! ?i)\<lparr>wk_subscribers := AList.update stream (ps @ [p]) (wk_subscribers (ks ! ?i))\<rparr>]"
    using supervisor_subscribe_at [OF assms(4), of p] assms(1) by auto
  have "set ps \<subseteq> set (pipes_to stream ks)" using i(2) nth_mem [OF i(1)]
    by (auto simp: pipes_to_def intro!: bexI [of _ "ks ! ?i"])
  then have p: "p \<notin> set ps" using assms(2) by blast
  have len: "length ks2 = length ks" using assms(3) i(3) by (metis length_list_update length_map)
  have s2: "wk_subscribers (ks2 ! j) = wk_subscribers (ks1 ! j)" if "j < length ks" for j
    using assms(3) that len i(3) by (metis length_list_update nth_map)
  then have "wk_subscribers (ks2 ! ?i) = AList.update stream (ps @ [p]) (wk_subscribers (ks ! ?i))" using i(1,3) by simp
  then have u: "wk_subscribers (worker_unsubscribe stream p (ks2 ! ?i)) = wk_subscribers (ks ! ?i)"
    using p i(2) by (simp add: worker_unsubscribe_def map_of_update remove1_append update_same)
  show ?thesis
  proof (rule nth_equalityI)
    fix j assume "j < length (map wk_subscribers (ks2[?i := worker_unsubscribe stream p (ks2 ! ?i)]))"
    then have j: "j < length ks" by (simp add: len)
    show "map wk_subscribers (ks2[?i := worker_unsubscribe stream p (ks2 ! ?i)]) ! j = map wk_subscribers ks ! j"
      using j s2 [OF j] u i len by (cases "j = ?i") (simp_all add: nth_list_update)
  qed (simp add: len)
qed

definition quiet_end :: "unit res \<Rightarrow> bool" where
  "quiet_end r = (r = Inr () \<or> (\<exists>m. r = Inl (DataError m)) \<or> r = Inl CancelledError)"

lemma same_subscribers:
  assumes "map wk_subscribers ks = map wk_subscribers ks'"
  shows "(\<exists>k \<in> set ks. map_of (wk_subscribers k) stream \<noteq> None) = (\<exists>k \<in> set ks'. map_of (wk_subscribers k) stream \<noteq> None)"
    and "pipes_to stream ks = pipes_to stream ks'"
proof -
  have "(\<exists>k \<in> set ks. map_of (wk_subscribers k) stream \<noteq> None) = (\<exists>x \<in> set (map wk_subscribers ks). map_of x stream \<noteq> None)" for ks :: "'a worker list"
    by simp
  then show "(\<exists>k \<in> set ks. map_of (wk_subscribers k) stream \<noteq> None) = (\<exists>k \<in> set ks'. map_of (wk_subscribers k) stream \<noteq> None)"
    using assms by metis
  have "pipes_to stream ks = concat (map (\<lambda>x. case map_of x stream of None \<Rightarrow> [] | Some ps \<Rightarrow> ps) (map wk_subscribers ks))" for ks :: "'a worker list"
    by (simp add: pipes_to_def comp_def)
  then show "pipes_to stream ks = pipes_to stream ks'" using assms by metis
qed

lemma subscribed_pipes:
  assumes "supervisor_subscribe stream p ks = Inr ks1" "pipes_to stream ks = []"
  shows "pipes_to stream ks1 = [p]"
  using assms
proof (induction ks arbitrary: ks1)
  case (Cons k ks)
  show ?case
  proof (cases "map_of (wk_subscribers k) stream")
    case None
    then show ?thesis using Cons by (auto simp: worker_subscribe_none res_simps pipes_to_def)
  next
    case (Some ps)
    then show ?thesis using Cons.prems by (auto simp: worker_subscribe_def pipes_to_def map_of_update)
  qed
qed simp

lemma spawn_inserter_result:
  assumes "\<forall>r \<in> set rs. quiet_end (ir_end r)" "\<exists>k \<in> set ks. map_of (wk_subscribers k) stream \<noteq> None" "pipes_to stream ks = []"
  shows "\<exists>b ks'. spawn_inserter stream rs ks = (Inr b, ks')
    \<and> (if b then \<exists>r \<in> set rs. pipes_to stream ks' = [ir_pipe r] else pipes_to stream ks' = [])"
  using assms
proof (induction rs arbitrary: ks)
  case Nil
  then show ?case by (intro exI [of _ False] exI [of _ ks]) simp
next
  case (Cons r rs)
  obtain ks1 where s: "supervisor_subscribe stream (ir_pipe r) ks = Inr ks1"
    using supervisor_subscribe_at [OF Cons.prems(2)] by blast
  note one = subscribed_pipes [OF s Cons.prems(3)]
  have "quiet_end (ir_end r)" using Cons.prems(1) by simp
  then consider (over) "ir_end r = Inr () \<or> ir_end r = Inl CancelledError" | (err) m where "ir_end r = Inl (DataError m)"
    by (auto simp: quiet_end_def)
  then show ?case
  proof cases
    case over
    then have "spawn_inserter stream (r # rs) ks = (Inr True, ks1)" using s by (elim disjE) simp_all
    then show ?thesis using one by (intro exI [of _ True]) (simp del: spawn_inserter.simps)
  next
    case (err m)
    let ?ks2 = "snd (restart_producer stream (ir_procs r) ks1)"
    let ?i = "producer_of stream ks"
    let ?ks3 = "?ks2[?i := worker_unsubscribe stream (ir_pipe r) (?ks2 ! ?i)]"
    have m: "map wk_subscribers ?ks3 = map wk_subscribers ks"
      by (rule round_restores [OF s _ restart_subscribers Cons.prems(2)]) (simp add: Cons.prems(3))
    have u: "spawn_inserter stream (r # rs) ks = spawn_inserter stream rs ?ks3" using s err by (simp add: Let_def)
    have "\<exists>k \<in> set ?ks3. map_of (wk_subscribers k) stream \<noteq> None" "pipes_to stream ?ks3 = []"
      using same_subscribers [OF m, of stream] Cons.prems(2,3) by auto
    then show ?thesis unfolding u using Cons.IH [of ?ks3] Cons.prems(1) by fastforce
  qed
qed

lemma worker_subscribers:
  "map_of (wk_subscribers (worker_init (conf_of far m))) i
    = (if i \<in> target_key far ` snd ` set (mo_outputs m) then Some [] else None)"
  by (auto simp: worker_init_def conf_of_def map_of_map_restrict restrict_map_def comp_def split_def image_iff)

lemma workers_of_subscribers:
  "pipes_to i (workers_of far ms) = []"
  "(\<exists>k \<in> set (workers_of far ms). map_of (wk_subscribers k) i \<noteq> None) = (\<exists>m \<in> set ms. i \<in> target_key far ` snd ` set (mo_outputs m))"
  by (auto simp: pipes_to_def workers_of_def worker_subscribers)


definition demo_rounds :: "nat insert_round list" where
  "demo_rounds = [\<lparr>ir_pipe = 7, ir_end = Inl (DataError ''NaN''), ir_procs = [EndsInTime]\<rparr>,
     \<lparr>ir_pipe = 8, ir_end = Inr (), ir_procs = [EndsInTime]\<rparr>]"


section \<open>No message is lost among the repeated ones\<close>

lemma log_keeps_changes_from:
  assumes "lf_last_msg f = Some m"
  shows "subseq (remdups_adj (m # map snd ms)) (m # log_run max_gap ms f)"
  using assms
proof (induction ms arbitrary: m f)
  case (Cons x ms)
  obtain now msg where x: "x = (now, msg)" by fastforce
  show ?case
  proof (cases "msg = m")
    case True
    define f' where "f' = snd (log_dedup max_gap now m f)"
    have l: "lf_last_msg f' = Some m" using Cons.prems by (simp add: f'_def log_dedup_def Let_def)
    obtain o' where d: "log_dedup max_gap now m f = (o', f')" unfolding f'_def by (metis prod.collapse)
    have "subseq (m # log_run max_gap ms f') (m # log_run max_gap (x # ms) f)"
      using d x True by (cases o') auto
    with Cons.IH [OF l] have "subseq (remdups_adj (m # map snd ms)) (m # log_run max_gap (x # ms) f)" by (rule subseq_order.trans)
    then show ?thesis using True x by simp
  next
    case False
    let ?f = "f\<lparr>lf_last_time := 0, lf_last_msg := Some msg, lf_first_repeat := True\<rparr>"
    have "log_dedup max_gap now msg f = (Some msg, ?f)" using Cons.prems False by (simp add: log_dedup_def)
    then show ?thesis using Cons.IH [of ?f msg] False x by simp
  qed
qed simp

lemma log_keeps_changes: "subseq (remdups_adj (map snd ms)) (log_run max_gap ms log_filter_init)"
proof (cases ms)
  case (Cons x ms')
  obtain now msg where x: "x = (now, msg)" by fastforce
  have "log_dedup max_gap now msg log_filter_init = (Some msg, log_filter_init\<lparr>lf_last_msg := Some msg\<rparr>)"
    by (simp add: log_dedup_def log_filter_init_def)
  then show ?thesis using log_keeps_changes_from [of "log_filter_init\<lparr>lf_last_msg := Some msg\<rparr>" msg ms' max_gap] Cons x by simp
qed simp

section \<open>The users file keeps the table of users well-formed\<close>

lemma watch_users_ok: "masters_ok t \<Longrightarrow> watch_users_file like m fs t = (r, t') \<Longrightarrow> masters_ok t'"
  by (induction like m fs t rule: watch_users_file.induct) (auto split: prod.splits sum.splits if_splits dest: update_users_ok)

end
