(* ===== verification/Data_API.thy ===== *)
theory Data_API
  imports Inserter Catalogue_Safety Data_Transfer
begin

text \<open>
  The requests for data: \<open>controllers/data_controller.py\<close> and the checks of \<open>controllers/helpers.py\<close>.  A handler
  works on the session of the database and on the store, which has a table set per stream.  A query is the
  list of its parameters; PostgreSQL's reading of an id is the argument \<open>pg_int\<close>.
\<close>

section \<open>Queries\<close>

type_synonym ('f, 'v, 'a) data_request = "('f session \<times> (int \<Rightarrow> 'v tstore), 'a) act"

definition in_session :: "('f, 'a) handler \<Rightarrow> ('f, 'v, 'a) data_request" where
  "in_session h s = (case h (fst s) of (r, t) \<Rightarrow> (r, (t, snd s)))"

definition with_store :: "int \<Rightarrow> ('v tstore \<Rightarrow> ('a \<times> 'v tstore) res) \<Rightarrow> ('f, 'v, 'a) data_request" where
  "with_store i f s =
     (case f (snd s i) of Inl e \<Rightarrow> (Inl e, s) | Inr (x, t) \<Rightarrow> (Inr x, (fst s, (snd s)(i := t))))"

text \<open>The parameters in the order of the dictionary; the first that is not an integer is reported.\<close>

fun parse_params :: "string list \<Rightarrow> settings \<Rightarrow> (string \<times> int option) list res" where
  "parse_params [] q = Inr []"
| "parse_params (p # ps) q =
     (case map_of q p of
        None \<Rightarrow> bindE (parse_params ps q) (\<lambda>r. Inr ((p, None) # r))
      | Some v \<Rightarrow>
          (case py_int v of
             None \<Rightarrow> Inl (HTTPBadRequest ''parameter {parameter} must be an int'')
           | Some i \<Rightarrow> bindE (parse_params ps q) (\<lambda>r. Inr ((p, Some i) # r))))"

definition param :: "(string \<times> int option) list \<Rightarrow> string \<Rightarrow> int option" where
  "param r p = Option.bind (map_of r p) id"

definition validate_query_parameters :: "string list \<Rightarrow> settings \<Rightarrow> (string \<times> int option) list res" where
  "validate_query_parameters ps q =
     bindE (parse_params ps q) (\<lambda>r.
     case (param r ''start'', param r ''end'') of
       (Some a, Some e) \<Rightarrow> if e \<le> a then Inl (HTTPBadRequest ''[start] must be before [end]'') else Inr r
     | _ \<Rightarrow> Inr r)"

definition get_stream :: "int \<Rightarrow> (string \<Rightarrow> int option) \<Rightarrow> settings \<Rightarrow> ('f, 'f data_stream) handler" where
  "get_stream now pg_int q =
     (case map_of q ''path'' of
        Some p \<Rightarrow> locate_data now '''' (ByPath p)
      | None \<Rightarrow>
          (case map_of q ''id'' of
             Some i \<Rightarrow> (case pg_int i of None \<Rightarrow> raiseA StatementError | Some i \<Rightarrow> locate_data now '''' (ById i))
           | None \<Rightarrow> bad ''specify an id or a path''))"

section \<open>Reading\<close>

text \<open>
  The callback of a JSON read: the blocks that are complete and the segment of the interval that goes on.
\<close>

definition retrieve_data :: "'v block \<Rightarrow> 'v block list \<times> 'v block option \<Rightarrow> 'v block list \<times> 'v block option" where
  "retrieve_data data s =
     (case s of (blocks, segment) \<Rightarrow>
       if data = [None] then
         (case segment of Some g \<Rightarrow> (blocks @ [g], None) | None \<Rightarrow> (blocks, None))
       else if 0 < length data \<and> last data = None then
         (case segment of
            Some g \<Rightarrow> (blocks @ [g @ butlast data], None)
          | None \<Rightarrow> if butlast data \<noteq> [] then (blocks @ [butlast data], None) else (blocks, None))
       else
         (case segment of None \<Rightarrow> (blocks, Some data) | Some g \<Rightarrow> (blocks, Some (g @ data))))"

definition json_blocks :: "'v block list \<Rightarrow> 'v block list" where
  "json_blocks bs =
     (case fold retrieve_data bs ([], None) of
        (blocks, Some g) \<Rightarrow> blocks @ [g] | (blocks, None) \<Rightarrow> blocks)"

text \<open>The answers to a read; the factor is that of the last callback, one if there was none.\<close>

datatype 'v reply = JsonData "'v block list" nat | BinaryData string nat "'v block list" | NoData

definition data_read :: "nat \<Rightarrow> nat \<Rightarrow> (int option \<Rightarrow> int option \<Rightarrow> nat) \<Rightarrow> (nat \<Rightarrow> nat \<Rightarrow> nat) \<Rightarrow> int
    \<Rightarrow> (string \<Rightarrow> int option) \<Rightarrow> bool \<Rightarrow> settings \<Rightarrow> ('f, 'v, 'v reply) data_request" where
  "data_read n block_size count level_for now pg_int json q =
     seqA (in_session (get_stream now pg_int q)) (\<lambda>s.
     case validate_query_parameters [''start'', ''end'', ''max-rows'', ''decimation-level''] q of
       Inl e \<Rightarrow> raiseA e
     | Inr r \<Rightarrow>
         if param r ''max-rows'' \<noteq> None \<and> the (param r ''max-rows'') \<le> 0
         then raiseA (HTTPBadRequest ''[max-rows] must be > 0'')
         else if param r ''decimation-level'' \<noteq> None \<and> the (param r ''decimation-level'') \<le> 0
         then raiseA (HTTPBadRequest ''[decimation-level] must be > 0'')
         else
           with_store (ds_id s) (\<lambda>t.
             case store_extract n block_size count level_for t (param r ''start'') (param r ''end'')
                    (map_option nat (param r ''max-rows'')) (map_option nat (param r ''decimation-level'')) of
               Inl (DataError m) \<Rightarrow> Inl (HTTPBadRequest ''read error: {str(e)}'')
             | Inl e \<Rightarrow> Inl e
             | Inr None \<Rightarrow> Inl CancelledError
             | Inr (Some (bs, level)) \<Rightarrow>
                 Inr (if json then JsonData (json_blocks bs) (if bs = [] then 1 else level)
                      else if bs = [] then NoData
                      else BinaryData (if 1 < level then ds_decimated_layout s else ds_layout s) level bs, t)))"

section \<open>Subscribing\<close>

text \<open>
  The loop that sends the rows of the subscribed pipe to the client; \<open>left\<close> is how many writes the
  connection still takes, if it ends.
\<close>

definition send_chunk :: "byte list \<Rightarrow> nat option \<times> byte list list \<Rightarrow> (nat option \<times> byte list list) res" where
  "send_chunk c s =
     (case s of
        (Some 0, out) \<Rightarrow> Inl PyConnectionError
      | (Some (Suc k), out) \<Rightarrow> Inr (Some k, out @ [c])
      | (None, out) \<Rightarrow> Inr (None, out @ [c]))"

fun subscribe_loop :: "nat \<Rightarrow> ('p \<Rightarrow> bool res option \<times> 'p) \<Rightarrow> ('p \<Rightarrow> row list res option \<times> 'p)
    \<Rightarrow> ('p \<Rightarrow> int \<Rightarrow> unit res \<times> 'p) \<Rightarrow> ('p \<Rightarrow> bool) \<Rightarrow> dtype
    \<Rightarrow> nat option \<times> byte list list \<Rightarrow> 'p \<Rightarrow> (unit res \<times> byte list list) option" where
  "subscribe_loop 0 is_empty rd consume eoi d s p = None"
| "subscribe_loop (Suc n) is_empty rd consume eoi d s p =
     (case is_empty p of
        (None, p) \<Rightarrow> None
      | (Some (Inl e), p) \<Rightarrow> Some (Inl e, snd s)
      | (Some (Inr True), p) \<Rightarrow> Some (Inr (), snd s)
      | (Some (Inr False), p) \<Rightarrow>
          (case rd p of
             (None, p) \<Rightarrow> None
           | (Some (Inl e), p) \<Rightarrow> Some (Inl e, snd s)
           | (Some (Inr data), p) \<Rightarrow>
               (case consume p (int (length data)) of
                  (Inl e, p) \<Rightarrow> Some (Inl e, snd s)
                | (Inr _, p) \<Rightarrow>
                    (case (if data \<noteq> [] then send_chunk (concat data) s else Inr s) of
                       Inl e \<Rightarrow> Some (Inl e, snd s)
                     | Inr s \<Rightarrow>
                         (case (if eoi p then send_chunk (zero_row d) s else Inr s) of
                            Inl e \<Rightarrow> Some (Inl e, snd s)
                          | Inr s \<Rightarrow> subscribe_loop n is_empty rd consume eoi d s p)))))"

text \<open>
  \<open>_subscribe\<close>: the subscriptions of the workers are a list of stream and pipe, which the supervisor extends if
  the stream is produced.  A lost connection ends the request quietly; the subscription is always cancelled.
\<close>

definition data_subscribe :: "nat \<Rightarrow> ('p \<Rightarrow> bool res option \<times> 'p) \<Rightarrow> ('p \<Rightarrow> row list res option \<times> 'p)
    \<Rightarrow> ('p \<Rightarrow> int \<Rightarrow> unit res \<times> 'p) \<Rightarrow> ('p \<Rightarrow> bool) \<Rightarrow> dtype \<Rightarrow> bool \<Rightarrow> (int \<Rightarrow> bool) \<Rightarrow> nat option \<Rightarrow> int \<Rightarrow> int \<Rightarrow> 'p
    \<Rightarrow> (int \<times> int) list \<Rightarrow> ((byte list list) res \<times> (int \<times> int) list) option" where
  "data_subscribe n is_empty rd consume eoi d json produced left stream pipe_id p subs =
     (if json then Some (Inl (HTTPBadRequest ''JSON subscription not implemented''), subs)
      else if \<not> produced stream then Some (Inl (HTTPBadRequest ''stream is not being produced''), subs)
      else
        (case subscribe_loop n is_empty rd consume eoi d (left, []) p of
           None \<Rightarrow> None
         | Some (r, out) \<Rightarrow>
             Some (case r of Inl e \<Rightarrow> if e = PyConnectionError then Inr out else Inl e | Inr _ \<Rightarrow> Inr out,
                   remove1 (stream, pipe_id) (subs @ [(stream, pipe_id)]))))"

section \<open>Writing\<close>

definition set_active :: "bool \<Rightarrow> int \<Rightarrow> ('f, unit) handler" where
  "set_active b i =
     seqA (change (update_data i (\<lambda>s. s\<lparr>ds_is_destination := Some b\<rparr>))) (\<lambda>_. commit)"

definition merge_gap_of :: "settings \<Rightarrow> int res" where
  "merge_gap_of q =
     (case map_of q ''merge-gap'' of
        None \<Rightarrow> Inr 0
      | Some v \<Rightarrow>
          (case py_int v of
             None \<Rightarrow> Inl (HTTPBadRequest ''merge-gap must be an integer'')
           | Some g \<Rightarrow> if g < 0 then Inl (HTTPBadRequest ''merge-gap must be >= 0'') else Inr g))"

text \<open>\<open>except (DataError, ConnectionError)\<close>.\<close>

fun is_write_error :: "exn \<Rightarrow> bool" where
  "is_write_error (DataError m) = True"
| "is_write_error e = (e = PyConnectionError)"

text \<open>
  \<open>write\<close>: \<open>inserts\<close> is the inserter on the body of the request, with the merge gap; it changes the tables of
  the stream also when it fails.
\<close>

definition data_write :: "int \<Rightarrow> (string \<Rightarrow> int option) \<Rightarrow> ('f data_stream \<Rightarrow> int \<Rightarrow> 'v tstore \<Rightarrow> unit res \<times> 'v tstore)
    \<Rightarrow> settings \<Rightarrow> ('f, 'v, unit) data_request" where
  "data_write now pg_int inserts q =
     seqA (in_session (get_stream now pg_int q)) (\<lambda>s.
     seqA (in_session (set_active True (ds_id s))) (\<lambda>_.
     case merge_gap_of q of
       Inl e \<Rightarrow> raiseA e
     | Inr g \<Rightarrow> (\<lambda>st.
         case inserts s g (snd st (ds_id s)) of
           (r, t) \<Rightarrow>
             (case r of
                Inr _ \<Rightarrow> in_session (set_active False (ds_id s))
              | Inl e \<Rightarrow>
                  seqA (whenA (is_write_error e) (in_session (set_active False (ds_id s)))) (\<lambda>_.
                  seqA (in_session (set_active False (ds_id s))) (\<lambda>_.
                    raiseA (if is_write_error e then HTTPBadRequest ''str(e)'' else e))))
             (fst st, (snd st)(ds_id s := t)))))"

section \<open>The other requests\<close>

definition data_intervals :: "int \<Rightarrow> (string \<Rightarrow> int option) \<Rightarrow> settings \<Rightarrow> ('f, 'v, interval list) data_request" where
  "data_intervals now pg_int q =
     seqA (in_session (get_stream now pg_int q)) (\<lambda>s.
     case validate_query_parameters [''start'', ''end''] q of
       Inl e \<Rightarrow> raiseA e
     | Inr r \<Rightarrow> with_store (ds_id s) (\<lambda>t. bindE (intervals t (param r ''start'') (param r ''end'')) (\<lambda>is. Inr (is, t))))"

definition data_remove :: "(int \<Rightarrow> (int \<times> 'v) list \<Rightarrow> (int \<times> 'v) list) \<Rightarrow> int \<Rightarrow> (string \<Rightarrow> int option) \<Rightarrow> settings
    \<Rightarrow> ('f, 'v, unit) data_request" where
  "data_remove drop_chunks now pg_int q =
     seqA (in_session (get_stream now pg_int q)) (\<lambda>s.
     case validate_query_parameters [''start'', ''end''] q of
       Inl e \<Rightarrow> raiseA e
     | Inr r \<Rightarrow> with_store (ds_id s) (\<lambda>t.
         bindE (remove drop_chunks (param r ''start'') (param r ''end'') True t) (\<lambda>t. Inr ((), t))))"

definition max_gap_of :: "settings \<Rightarrow> int res" where
  "max_gap_of q =
     (case map_of q ''max_gap'' of
        None \<Rightarrow> Inl (HTTPBadRequest ''specify max_gap as us integer'')
      | Some v \<Rightarrow>
          (case py_int v of
             None \<Rightarrow> Inl (HTTPBadRequest ''max_gap must be postive integer'')
           | Some g \<Rightarrow> if g \<le> 0 then Inl (HTTPBadRequest ''max_gap must be postive integer'') else Inr g))"

definition data_consolidate :: "bool \<Rightarrow> int \<Rightarrow> (string \<Rightarrow> int option) \<Rightarrow> settings \<Rightarrow> ('f, 'v, nat) data_request" where
  "data_consolidate supported now pg_int q =
     (if \<not> supported then raiseA (HTTPBadRequest ''data store does not support decimation'')
      else
        seqA (in_session (get_stream now pg_int q)) (\<lambda>s.
        case bindE (validate_query_parameters [''start'', ''end''] q) (\<lambda>r. bindE (max_gap_of q) (\<lambda>g. Inr (r, g))) of
          Inl e \<Rightarrow> raiseA e
        | Inr (r, g) \<Rightarrow> with_store (ds_id s) (\<lambda>t. consolidate t (param r ''start'') (param r ''end'') g)))"

definition data_drop_decimations :: "bool \<Rightarrow> int \<Rightarrow> (string \<Rightarrow> int option) \<Rightarrow> settings \<Rightarrow> ('f, 'v, unit) data_request" where
  "data_drop_decimations supported now pg_int q =
     (if \<not> supported then raiseA (HTTPBadRequest ''data store does not support decimation'')
      else
        seqA (in_session (get_stream now pg_int q)) (\<lambda>s.
          with_store (ds_id s) (\<lambda>t. Inr ((), drop_decimation_tables t))))"

text \<open>
  \<open>TimescaleStore.decimate\<close>: the tables are dropped and every block of the stream goes through a new chain of
  decimators.
\<close>

definition redecimator :: "'f dec_fns \<Rightarrow> 'f list block \<Rightarrow> 'f drow list list \<times> 'f list tstore
    \<Rightarrow> unit res \<times> 'f drow list list \<times> 'f list tstore" where
  "redecimator F data s =
     (case s of (bufs, t) \<Rightarrow>
       if data = [] then (Inr (), bufs, t)
       else if data = [None] then (Inr (), dec_close_interval bufs, t)
       else if last data = None then
         (case dec_process F dec_factor False bufs (items_rows (butlast data)) t of
            (Inl e, bufs, t) \<Rightarrow> (Inl e, bufs, t)
          | (Inr _, bufs, t) \<Rightarrow> (Inr (), dec_close_interval bufs, t))
       else dec_process F dec_factor False bufs (items_rows data) t)"

fun redecimate :: "'f dec_fns \<Rightarrow> 'f list block list \<Rightarrow> 'f drow list list \<times> 'f list tstore \<Rightarrow> unit res \<times> 'f drow list list \<times> 'f list tstore" where
  "redecimate F [] s = (Inr (), s)"
| "redecimate F (b # bs) s =
     (case redecimator F b s of (Inl e, s) \<Rightarrow> (Inl e, s) | (Inr _, s) \<Rightarrow> redecimate F bs s)"

definition store_decimate :: "'f dec_fns \<Rightarrow> nat \<Rightarrow> 'f list tstore \<Rightarrow> (unit res \<times> 'f list tstore) option" where
  "store_decimate F n t =
     (let t = drop_decimation_tables t
      in case convert_time_bounds t None None of
           Inl e \<Rightarrow> Some (Inl e, t)
         | Inr None \<Rightarrow> Some (Inl PyTypeError, t)
         | Inr (Some (a, e)) \<Rightarrow>
             (case extract_data n 50000 (st_data t) (st_ivl t) (Some a) (Some e) of
                None \<Rightarrow> None
              | Some bs \<Rightarrow> (case redecimate F bs ([], t) of (r, bufs, t) \<Rightarrow> Some (r, t))))"

definition data_decimate :: "'f dec_fns \<Rightarrow> nat \<Rightarrow> bool \<Rightarrow> int \<Rightarrow> (string \<Rightarrow> int option) \<Rightarrow> settings \<Rightarrow> ('g, 'f list, unit) data_request" where
  "data_decimate F n supported now pg_int q =
     seqA (in_session (get_stream now pg_int q)) (\<lambda>s.
     if \<not> supported then raiseA (HTTPBadRequest ''data store does not support decimation'')
     else (\<lambda>st.
       case store_decimate F n (snd st (ds_id s)) of
         None \<Rightarrow> (Inl CancelledError, st)
       | Some (r, t) \<Rightarrow> (r, (fst st, (snd st)(ds_id s := t)))))"

section \<open>A JSON read returns the stretches\<close>

definition segments :: "'a option list \<Rightarrow> 'a option list list" where
  "segments xs = filter (\<lambda>p. p \<noteq> []) (between_tokens xs)"

lemma segments_break: "None \<notin> set xs \<Longrightarrow> segments (xs @ None # ys) = (if xs = [] then [] else [xs]) @ segments ys"
  by (simp add: segments_def pieces_break)

lemma segments_plain: "None \<notin> set xs \<Longrightarrow> segments xs = (if xs = [] then [] else [xs])"
  by (simp add: segments_def pieces_plain)

definition tail_token :: "'v block \<Rightarrow> bool" where
  "tail_token b = (b \<noteq> [] \<and> None \<notin> set (butlast b))"

definition seg_items :: "'v block option \<Rightarrow> 'v block" where
  "seg_items g = (case g of None \<Rightarrow> [] | Some x \<Rightarrow> x)"

definition seg_ok :: "'v block option \<Rightarrow> bool" where
  "seg_ok g = (None \<notin> set (seg_items g) \<and> g \<noteq> Some [])"

lemma retrieve_step:
  assumes "seg_ok g" "tail_token b"
  shows "\<exists>new g'. retrieve_data b (blocks, g) = (blocks @ new, g') \<and> seg_ok g'
     \<and> (\<forall>xs. segments (seg_items g @ b @ xs) = new @ segments (seg_items g' @ xs))"
proof (cases "last b")
  case None
  obtain p where b: "b = p @ [None]" using None assms(2) by (metis append_butlast_last_id tail_token_def)
  have p: "None \<notin> set p" using assms(2) b by (simp add: tail_token_def)
  have n: "None \<notin> set (seg_items g @ p)" using assms(1) p by (simp add: seg_ok_def)
  have s: "segments (seg_items g @ b @ xs) = (if seg_items g @ p = [] then [] else [seg_items g @ p]) @ segments xs" for xs
    using segments_break [OF n, of xs] b by simp
  show ?thesis
  proof (cases g)
    case None
    then show ?thesis using s b by (cases p) (auto simp: retrieve_data_def seg_ok_def seg_items_def)
  next
    case (Some x)
    then show ?thesis using s b assms(1) by (cases p) (auto simp: retrieve_data_def seg_ok_def seg_items_def)
  qed
next
  case (Some r)
  then have b: "None \<notin> set b" "b \<noteq> []"
    using assms(2) append_butlast_last_id [of b] by (auto simp: tail_token_def)
      (metis (no_types) Un_iff append_butlast_last_id empty_iff empty_set in_set_conv_decomp_last last_snoc list.set(2) option.distinct(1) set_append set_ConsD singletonD)
  have "retrieve_data b (blocks, g) = (blocks, Some (seg_items g @ b))"
    using Some b by (auto simp: retrieve_data_def seg_items_def split: option.split)
  then show ?thesis using assms(1) b by (auto simp: seg_ok_def seg_items_def)
qed

lemma json_blocks_segments:
  assumes "\<forall>b \<in> set bs. tail_token b"
  shows "json_blocks bs = segments (concat bs)"
proof -
  have "\<exists>new g'. fold retrieve_data bs (blocks, g) = (blocks @ new, g') \<and> seg_ok g'
     \<and> segments (seg_items g @ concat bs) = new @ segments (seg_items g')" if "seg_ok g" for blocks g
    using that assms
  proof (induction bs arbitrary: blocks g)
    case (Cons b bs)
    obtain n1 g1 where s: "retrieve_data b (blocks, g) = (blocks @ n1, g1)" "seg_ok g1"
        "\<And>xs. segments (seg_items g @ b @ xs) = n1 @ segments (seg_items g1 @ xs)"
      using retrieve_step [OF Cons.prems(1), of b blocks] Cons.prems(2) by auto
    obtain n2 g2 where "fold retrieve_data bs (blocks @ n1, g1) = (blocks @ n1 @ n2, g2)" "seg_ok g2"
        "segments (seg_items g1 @ concat bs) = n2 @ segments (seg_items g2)"
      using Cons.IH [OF s(2), of "blocks @ n1"] Cons.prems(2) by auto
    then show ?case using s(1,3) by (intro exI [of _ "n1 @ n2"] exI [of _ g2]) simp
  qed auto
  from this [of None "[]"] obtain new g' where f: "fold retrieve_data bs ([], None) = (new, g')" "seg_ok g'"
    "segments (concat bs) = new @ segments (seg_items g')" by (auto simp: seg_ok_def seg_items_def)
  then show ?thesis
    using segments_plain [of "seg_items g'"] by (cases g') (auto simp: json_blocks_def seg_ok_def seg_items_def segments_def)
qed

lemma extract_interval_tail:
  "extract_interval n bsz is_last rows start fin = Some bs \<Longrightarrow> \<forall>b \<in> set bs. tail_token b"
proof (induction n arbitrary: start bs)
  case (Suc n)
  let ?sel = "map Some (select_rows rows start fin bsz)"
  let ?d = "if length ?sel < bsz \<and> \<not> is_last then ?sel @ [None] else ?sel"
  have t: "?d \<noteq> [] \<Longrightarrow> tail_token ?d" by (auto simp: tail_token_def dest: in_set_butlastD)
  show ?case
  proof (cases "?d = []")
    case True
    then show ?thesis using Suc.prems by (simp only: extract_interval.simps Let_def if_True option.inject) simp
  next
    case False
    show ?thesis
    proof (cases "length ?d < bsz")
      case True
      have "extract_interval (Suc n) bsz is_last rows start fin = Some [?d]"
        using True False by (simp only: extract_interval.simps Let_def if_True if_False)
      with Suc.prems have "bs = [?d]" by (simp only: option.inject)
      then show ?thesis using t [OF False] by (simp only: list.set ball_simps simp_thms)
    next
      case long: False
      have "extract_interval (Suc n) bsz is_last rows start fin
        = map_option (\<lambda>bs. ?d # bs) (extract_interval n bsz is_last rows (Some (item_time (last ?d) + 1)) fin)"
        using long False by (simp only: extract_interval.simps Let_def if_False)
      with Suc.prems obtain bs1 where b: "bs = ?d # bs1"
          "extract_interval n bsz is_last rows (Some (item_time (last ?d) + 1)) fin = Some bs1"
        by (auto simp only: map_option_eq_Some)
      from Suc.IH [OF b(2)] show ?thesis using t [OF False] unfolding b(1) by (simp only: list.set ball_simps simp_thms)
    qed
  qed
qed simp

lemma extract_loop_tail: "extract_loop n bsz rows start fins = Some bs \<Longrightarrow> \<forall>b \<in> set bs. tail_token b"
proof (induction fins arbitrary: start bs)
  case (Cons fin fins)
  then show ?case
    by (auto split: if_splits option.splits dest!: extract_interval_tail)
qed simp

text \<open>The rows of each stretch between two boundaries, those without rows left out.\<close>

fun stretch_rows :: "(int \<times> 'v) list \<Rightarrow> int option \<Rightarrow> int option list \<Rightarrow> (int \<times> 'v) list list" where
  "stretch_rows rows start [] = []"
| "stretch_rows rows start (fin # fins) =
     (let r = sorted_rows rows start fin
      in (if start = fin \<or> r = [] then [] else [r]) @ stretch_rows rows fin fins)"

lemma segments_spec: "segments (extract_spec rows start fins) = map (map Some) (stretch_rows rows start fins)"
proof (induction fins arbitrary: start)
  case (Cons fin fins)
  have n: "None \<notin> set (map Some (sorted_rows rows start fin))" by auto
  show ?case
  proof (cases "start = fin")
    case True
    then show ?thesis using Cons.IH by simp
  next
    case False
    show ?thesis
    proof (cases fins)
      case Nil
      then show ?thesis using False segments_plain [OF n] by simp
    next
      case (Cons f fs)
      then have "extract_spec rows start (fin # fins) = map Some (sorted_rows rows start fin) @ None # extract_spec rows fin fins"
        using False by simp
      then show ?thesis using False segments_break [OF n] Cons.IH [of fin] by (simp add: Let_def)
    qed
  qed
qed (simp add: segments_def)

lemma validate_bounds:
  assumes "map_of q ''start'' = Some a" "map_of q ''end'' = Some e" "py_int a = Some i" "py_int e = Some j" "i < j"
    "map_of q ''max-rows'' = None" "map_of q ''decimation-level'' = None"
  shows "validate_query_parameters [''start'', ''end'', ''max-rows'', ''decimation-level''] q
    = Inr [(''start'', Some i), (''end'', Some j), (''max-rows'', None), (''decimation-level'', None)]"
  using assms by (simp add: validate_query_parameters_def param_def)


section \<open>A subscription sends what the pipe holds\<close>

context row_source
begin

lemma subscription_sends:
  assumes "holds p items" "length items < n"
  shows "\<exists>out taken lost. subscribe_loop n is_empty rd consume eoi d (None, sent) p = Some (Inr (), sent @ out)
     \<and> items = taken @ lost \<and> concat out = concat (map (item_row d) taken) \<and> missed lost"
  using assms
proof (induction n arbitrary: p items sent)
  case (Suc n)
  from turn [OF Suc.prems(1)] show ?case
  proof (elim disjE exE conjE)
    fix p'
    assume "is_empty p = (Some (Inr True), p')" "missed items"
    then show ?thesis by (intro exI [of _ "[]"] exI [of _ items]) auto
  next
    fix p1 p2 p3 rows rest
    assume t: "is_empty p = (Some (Inr False), p1)" "rd p1 = (Some (Inr rows), p2)"
      "consume p2 (int (length rows)) = (Inr (), p3)" "eoi p3 = eoi p2"
      and items: "items = map Some rows @ (if eoi p2 then [None] else []) @ rest"
      and rest: "holds p3 rest" "length rest < length items"
    let ?s = "sent @ (if rows = [] then [] else [concat rows]) @ (if eoi p2 then [zero_row d] else [])"
    obtain out taken lost where ih:
      "subscribe_loop n is_empty rd consume eoi d (None, ?s) p3 = Some (Inr (), ?s @ out)"
      "rest = taken @ lost" "concat out = concat (map (item_row d) taken)" "missed lost"
      using Suc.IH [OF rest(1), of ?s] rest(2) Suc.prems(2) by auto
    have "subscribe_loop (Suc n) is_empty rd consume eoi d (None, sent) p = Some (Inr (), ?s @ out)"
      using t ih(1) by (auto simp: send_chunk_def)
    moreover have "concat (map (item_row d) (map Some rows)) = concat rows"
      by (simp add: item_row_def comp_def)
    ultimately show ?thesis
      using items ih(2-4)
      apply (rule_tac exI [of _ "(if rows = [] then [] else [concat rows]) @ (if eoi p2 then [zero_row d] else []) @ out"])
      apply (rule_tac exI [of _ "map Some rows @ (if eoi p2 then [None] else []) @ taken"])
      apply (rule_tac exI [of _ lost])
      apply (auto simp: comp_def simp del: subscribe_loop.simps)
      done
  qed
qed simp

lemma lost_connection_quiet:
  "subscribe_loop n is_empty rd consume eoi d (left, sent) p = Some (Inl e, out) \<Longrightarrow> holds p items \<Longrightarrow> e = PyConnectionError"
proof (induction n arbitrary: p items left sent)
  case (Suc n)
  from turn [OF Suc.prems(2)] show ?case
  proof (elim disjE exE conjE)
    fix p'
    assume "is_empty p = (Some (Inr True), p')"
    then show ?thesis using Suc.prems(1) by simp
  next
    fix p1 p2 p3 rows rest
    assume t: "is_empty p = (Some (Inr False), p1)" "rd p1 = (Some (Inr rows), p2)"
      "consume p2 (int (length rows)) = (Inr (), p3)" "holds p3 rest"
    let ?a = "if rows \<noteq> [] then send_chunk (concat rows) (left, sent) else Inr (left, sent)"
    show ?thesis
    proof (cases ?a)
      case (Inl x)
      then have "x = PyConnectionError" by (auto simp: send_chunk_def split: if_splits option.splits nat.splits)
      then show ?thesis using Suc.prems(1) t Inl by simp
    next
      case (Inr s)
      let ?b = "if eoi p3 then send_chunk (zero_row d) s else Inr s"
      show ?thesis
      proof (cases ?b)
        case (Inl x)
        then have "x = PyConnectionError" by (auto simp: send_chunk_def split: if_splits option.splits nat.splits prod.splits)
        then show ?thesis using Suc.prems(1) t Inl \<open>?a = Inr s\<close> by simp
      next
        case (Inr s')
        obtain l o1 where s': "s' = (l, o1)" by fastforce
        then have "subscribe_loop n is_empty rd consume eoi d (l, o1) p3 = Some (Inl e, out)"
          using Suc.prems(1) t Inr \<open>?a = Inr s\<close> by simp
        then show ?thesis using Suc.IH t(4) by blast
      qed
    qed
  qed
qed simp

end

text \<open>
  A client that subscribes to a stream gets what its pipe holds: the bytes of the rows, in order, with an
  interval token for every mark, so that the pipe on the other side reads the same rows and marks; what is
  missing can only start with a mark that follows no unread row.  Whenever the client goes away the request ends without an error, and in
  all cases the subscriptions of the workers are those before.
\<close>

lemma data_subscribe_streams:
  assumes "lp_holds p items" "length items < n" "produced stream" "(stream, pipe_id) \<notin> set subs"
  shows "\<exists>out taken lost. data_subscribe n (lp_is_empty no_sub no_cb) (lp_read no_sub no_cb) lp_consume lp_end_of_interval d
        False produced None stream pipe_id p subs = Some (Inr out, subs)
     \<and> items = taken @ lost \<and> concat out = concat (map (item_row d) taken) \<and> (lost = [] \<or> hd lost = None)
     \<and> (\<forall>left r s. data_subscribe n (lp_is_empty no_sub no_cb) (lp_read no_sub no_cb) lp_consume lp_end_of_interval d
        False produced left stream pipe_id p subs = Some (r, s) \<longrightarrow> r \<noteq> Inl PyConnectionError \<and> s = subs)"
proof -
  obtain out taken lost where o: "subscribe_loop n (lp_is_empty no_sub no_cb) (lp_read no_sub no_cb) lp_consume lp_end_of_interval d
      (None, []) p = Some (Inr (), out)" "items = taken @ lost" "concat out = concat (map (item_row d) taken)" "lp_missed lost"
    using local_source.subscription_sends [OF assms(1,2), of d "[]"] by auto
  have q: "r \<noteq> Inl PyConnectionError \<and> s = subs"
    if "data_subscribe n (lp_is_empty no_sub no_cb) (lp_read no_sub no_cb) lp_consume lp_end_of_interval d
        False produced left stream pipe_id p subs = Some (r, s)" for left r s
    using that assms(3,4) by (auto simp: data_subscribe_def remove1_append split: option.splits sum.splits prod.splits if_splits)
  have "data_subscribe n (lp_is_empty no_sub no_cb) (lp_read no_sub no_cb) lp_consume lp_end_of_interval d
        False produced None stream pipe_id p subs = Some (Inr out, subs)"
    using o(1) assms(3,4) by (simp add: data_subscribe_def remove1_append)
  then show ?thesis using o(2-4) q unfolding lp_missed_def by blast
qed

section \<open>Writing marks the stream\<close>

definition active_flag :: "'f catalog \<Rightarrow> int \<Rightarrow> bool option option" where
  "active_flag c i = map_option ds_is_destination (get_data c i)"

lemma set_active_result:
  "set_active b i t = (Inr (), t\<lparr>se_work := update_data i (\<lambda>s. s\<lparr>ds_is_destination := Some b\<rparr>) (se_work t),
     se_db := update_data i (\<lambda>s. s\<lparr>ds_is_destination := Some b\<rparr>) (se_work t)\<rparr>)"
  by (simp add: set_active_def seqA_def change_def commit_def modifyA_def)

lemma active_update:
  "active_flag (update_data i (\<lambda>s. s\<lparr>ds_is_destination := Some b\<rparr>) c) i = map_option (\<lambda>_. Some b) (active_flag c i)"
  using get_update_data [of i "\<lambda>s. s\<lparr>ds_is_destination := Some b\<rparr>" c] by (simp add: active_flag_def option.map_comp comp_def)

lemma set_active_flag:
  "active_flag (se_work t) i \<noteq> None \<Longrightarrow> \<exists>t'. set_active b i t = (Inr (), t') \<and> active_flag (se_db t') i = Some (Some b)
     \<and> active_flag (se_work t') i = Some (Some b)"
  by (auto simp: set_active_result active_update)


section \<open>Witnesses\<close>

definition demo_data_session :: "int session" where
  "demo_data_session = \<lparr>se_db = demo_catalog, se_work = demo_catalog, se_destroyed = [], se_created = []\<rparr>"

definition demo_tables :: "int \<Rightarrow> nat tstore" where
  "demo_tables = (\<lambda>_. \<lparr>st_data = Some [(5, 1), (9, 2), (7, 3)], st_ivl = Some [6], st_decim = []\<rparr>)"

lemma demo_get: "get_stream 0 (\<lambda>_. None) [(''path'', ''/a/s'')] demo_data_session = (Inr demo_stream, demo_data_session)"
  "get_stream 0 (\<lambda>_. None) [(''path'', ''/a/s''), (''merge-gap'', ''-1'')] demo_data_session = (Inr demo_stream, demo_data_session)"
  "get_stream 0 (\<lambda>_. None) [(''path'', ''/a/s''), (''start'', ''5''), (''end'', ''10'')] demo_data_session = (Inr demo_stream, demo_data_session)"
  by code_simp+




lemma data_subscribe_streams_witness:
  "let p = (local_pipe_init demo_dtype False 0)\<lparr>lp_queue := [Some [demo_row 1], Some [demo_row 2]], lp_queued_rows := 2, lp_closed := True\<rparr>
   in \<exists>out. data_subscribe 4 (lp_is_empty no_sub no_cb) (lp_read no_sub no_cb) lp_consume lp_end_of_interval demo_dtype
        False (\<lambda>_. True) None 1 7 p [(1, 3)] = Some (Inr out, [(1, 3)])
     \<and> concat out = demo_row 1 @ demo_row 2"
proof -
  let ?p = "(local_pipe_init demo_dtype False 0)\<lparr>lp_queue := [Some [demo_row 1], Some [demo_row 2]], lp_queued_rows := 2, lp_closed := True\<rparr>"
  have h: "lp_holds ?p [Some (demo_row 1), Some (demo_row 2)]"
    by (simp add: lp_holds_def lp_plain_def lp_ok_def local_pipe_init_def)
  obtain out taken lost where o: "data_subscribe 4 (lp_is_empty no_sub no_cb) (lp_read no_sub no_cb) lp_consume lp_end_of_interval demo_dtype
        False (\<lambda>_. True) None 1 7 ?p [(1, 3)] = Some (Inr out, [(1, 3)])"
     "[Some (demo_row 1), Some (demo_row 2)] = taken @ lost" "concat out = concat (map (item_row demo_dtype) taken)"
     "lost = [] \<or> hd lost = None"
    using data_subscribe_streams [OF h, of 4 "\<lambda>_. True" 1 7 "[(1, 3)]" demo_dtype] by auto
  have "taken = [Some (demo_row 1), Some (demo_row 2)]"
    using o(2,4) by (auto simp: Cons_eq_append_conv)
  then show ?thesis using o(1,3) by (auto simp: Let_def item_row_def)
qed

end
