(* ===== verification/Decimation.thy ===== *)
theory Decimation
  imports Data_API
begin

text \<open>
  The chain of decimators as a whole: processing the rows of a stretch in one block or in any sequence of
  blocks leaves the same decimation tables, so that decimating a stored stream again
  (\<open>TimescaleStore.decimate\<close>) gives what one pass over every stretch gives.
\<close>

section \<open>Tables of different levels do not meet\<close>

definition put_table :: "nat \<Rightarrow> (int \<times> 'v) list \<Rightarrow> 'v tstore \<Rightarrow> 'v tstore" where
  "put_table l t s = s\<lparr>st_decim := map (\<lambda>(k, u). if k = l then (k, t) else (k, u)) (st_decim s)\<rparr>"

lemma copy_decim_put:
  "copy_decim l new s = (case map_of (st_decim s) l of None \<Rightarrow> Inl UndefinedTableError
     | Some tbl \<Rightarrow> bindE (copy_rows new tbl) (\<lambda>t. Inr (put_table l t s)))"
  unfolding copy_decim_def put_table_def ..

lemma map_of_put:
  "map_of (map (\<lambda>(k, u). if k = l then (k, t) else (k, u)) xs) m = (if m = l then map_option (\<lambda>_. t) (map_of xs l) else map_of xs m)"
  by (induction xs) auto

lemma map_of_put_table:
  "map_of (st_decim (put_table l t s)) m = (if m = l then map_option (\<lambda>_. t) (map_of (st_decim s) l) else map_of (st_decim s) m)"
  by (simp add: put_table_def map_of_put)

lemma put_table_twice: "put_table l u (put_table l t s) = put_table l u s"
proof -
  have "(\<lambda>(k, w). if k = l then (k, u) else (k, w)) \<circ> (\<lambda>(k, w). if k = l then (k, t) else (k, w))
    = (\<lambda>(k, w). if k = l then (k, u) else (k, w))" by auto
  then show ?thesis by (simp add: put_table_def)
qed

lemma put_table_swap: "l \<noteq> m \<Longrightarrow> put_table m u (put_table l t s) = put_table l t (put_table m u s)"
  by (cases s) (auto simp: put_table_def)

lemma create_put:
  assumes "l \<noteq> m"
  shows "create_decimation_table m (put_table l t s) = put_table l t (create_decimation_table m s)"
proof -
  have "set (map fst (st_decim (put_table l t s))) = set (map fst (st_decim s))"
    by (auto simp: put_table_def image_iff) force+
  moreover have "put_table l t (s\<lparr>st_decim := st_decim s @ [(m, [])]\<rparr>)
    = (put_table l t s)\<lparr>st_decim := st_decim (put_table l t s) @ [(m, [])]\<rparr>"
    using assms by (simp add: put_table_def)
  ultimately show ?thesis by (simp only: create_decimation_table_def if_distrib [of "put_table l t"])
qed

lemma copy_put:
  "l \<noteq> m \<Longrightarrow> copy_decim m new (put_table l t s) = (case copy_decim m new s of Inl e \<Rightarrow> Inl e | Inr s' \<Rightarrow> Inr (put_table l t s'))"
  by (auto simp: copy_decim_put map_of_put_table copy_rows_def put_table_swap split: option.split)

lemma copy_append:
  assumes "copy_decim l (xs @ ys) s = Inr s'"
  obtains tbl where "map_of (st_decim s) l = Some tbl" "copy_decim l xs s = Inr (put_table l (tbl @ xs) s)"
    "s' = put_table l (tbl @ xs @ ys) s" "distinct (map fst (tbl @ xs @ ys))"
proof -
  obtain tbl where t: "map_of (st_decim s) l = Some tbl" using assms by (auto simp: copy_decim_put split: option.splits)
  then have d: "distinct (map fst (tbl @ xs @ ys))" "s' = put_table l (tbl @ xs @ ys) s"
    using assms by (auto simp: copy_decim_put copy_rows_def split: if_splits)
  then have "distinct (map fst (tbl @ xs))" by (simp add: Int_Un_distrib)
  then have "copy_decim l xs s = Inr (put_table l (tbl @ xs) s)" using t
    by (simp only: copy_decim_put copy_rows_def option.simps bindE.simps if_True)
  then show thesis using that t d by blast
qed

lemma dec_process_put:
  "l < L \<Longrightarrow> dec_process F L again bufs data (put_table l t s)
     = (case dec_process F L again bufs data s of (r, bs, s') \<Rightarrow> (r, bs, put_table l t s'))"
proof (induction F L again bufs data s rule: dec_process.induct)
  case (1 F L again bufs data s)
  let ?s = "if bufs = [] then create_decimation_table L s else s"
  let ?b = "case bufs of [] \<Rightarrow> [] | b # _ \<Rightarrow> b"
  let ?o = "fst (dec_step F again ?b data)"
  have c: "(if bufs = [] then create_decimation_table L (put_table l t s) else put_table l t s) = put_table l t ?s"
    using 1(2) by (simp add: create_put)
  show ?case
  proof (cases "?o = []")
    case True
    then show ?thesis using c by (subst (1 2) dec_process.simps) (simp add: Let_def)
  next
    case False
    show ?thesis
    proof (cases "copy_decim L ?o ?s")
      case (Inl e)
      then show ?thesis using c False 1(2) by (subst (1 2) dec_process.simps) (simp add: Let_def copy_put)
    next
      case (Inr s')
      have "dec_process F (L * dec_factor) True (tl bufs) ?o (put_table l t s')
        = (case dec_process F (L * dec_factor) True (tl bufs) ?o s' of (r, bs, s') \<Rightarrow> (r, bs, put_table l t s'))"
        by (rule 1(1) [OF refl refl refl refl False Inr]) (use 1(2) in \<open>simp add: dec_factor_def\<close>)
      then show ?thesis using c False Inr 1(2)
        by (subst (1 2) dec_process.simps) (simp add: Let_def copy_put split: prod.split)
    qed
  qed
qed

lemma map_of_create: "l \<noteq> m \<Longrightarrow> map_of (st_decim (create_decimation_table m s)) l = map_of (st_decim s) l"
  by (auto simp: create_decimation_table_def map_add_def split: option.split)

lemma map_of_copy: "\<lbrakk>l \<noteq> m; copy_decim m new s = Inr s'\<rbrakk> \<Longrightarrow> map_of (st_decim s') l = map_of (st_decim s) l"
  by (auto simp: copy_decim_put map_of_put_table copy_rows_def split: option.splits if_splits)

lemma dec_process_keeps:
  "l < L \<Longrightarrow> map_of (st_decim (snd (snd (dec_process F L again bufs data s)))) l = map_of (st_decim s) l"
proof (induction F L again bufs data s rule: dec_process.induct)
  case (1 F L again bufs data s)
  let ?s = "if bufs = [] then create_decimation_table L s else s"
  let ?b = "case bufs of [] \<Rightarrow> [] | b # _ \<Rightarrow> b"
  let ?o = "fst (dec_step F again ?b data)"
  have c: "map_of (st_decim ?s) l = map_of (st_decim s) l" using 1(2) by (simp add: map_of_create)
  show ?case
  proof (cases "?o = []")
    case True
    then show ?thesis using c by (subst dec_process.simps) (simp add: Let_def)
  next
    case False
    show ?thesis
    proof (cases "copy_decim L ?o ?s")
      case (Inl e)
      then show ?thesis using c False by (subst dec_process.simps) (simp add: Let_def)
    next
      case (Inr s')
      have "map_of (st_decim (snd (snd (dec_process F (L * dec_factor) True (tl bufs) ?o s')))) l = map_of (st_decim s') l"
        by (rule 1(1) [OF refl refl refl refl False Inr]) (use 1(2) in \<open>simp add: dec_factor_def\<close>)
      moreover obtain r bs s2 where "dec_process F (L * dec_factor) True (tl bufs) ?o s' = (r, bs, s2)" by (metis prod_cases3)
      ultimately show ?thesis using c False Inr 1(2) map_of_copy [OF _ Inr, of l]
        by (subst dec_process.simps) (simp add: Let_def)
    qed
  qed
qed

section \<open>A run of the chain that succeeds\<close>

text \<open>The buffers and the store after a block, when no exception left the chain.\<close>

definition dec_run :: "'f dec_fns \<Rightarrow> nat \<Rightarrow> bool \<Rightarrow> 'f drow list \<Rightarrow> 'f drow list list \<times> 'f list tstore
    \<Rightarrow> ('f drow list list \<times> 'f list tstore) option" where
  "dec_run F L again data bs =
     (case dec_process F L again (fst bs) data (snd bs) of (Inl e, x) \<Rightarrow> None | (Inr _, x) \<Rightarrow> Some x)"

lemma dec_run_unfold:
  "dec_run F L again data (bufs, s) =
     (let s = (if bufs = [] then create_decimation_table L s else s);
          (out, b') = dec_step F again (case bufs of [] \<Rightarrow> [] | b # _ \<Rightarrow> b) data
      in if out = [] then Some (b' # tl bufs, s)
         else (case copy_decim L out s of
                 Inl e \<Rightarrow> None
               | Inr s \<Rightarrow> map_option (\<lambda>(bs, s). (b' # bs, s)) (dec_run F (L * dec_factor) True out (tl bufs, s))))"
  unfolding dec_run_def fst_conv snd_conv
  by (subst dec_process.simps) (auto simp: Let_def split: prod.split sum.split)

lemma dec_run_put:
  "l < L \<Longrightarrow> dec_run F L again data (bufs, put_table l t s)
     = map_option (\<lambda>(bs, s). (bs, put_table l t s)) (dec_run F L again data (bufs, s))"
  by (simp add: dec_run_def dec_process_put split: prod.split sum.split)

lemma dec_run_keeps:
  "\<lbrakk>l < L; dec_run F L again data (bufs, s) = Some (bs, s')\<rbrakk> \<Longrightarrow> map_of (st_decim s') l = map_of (st_decim s) l"
  using dec_process_keeps [of l L F again bufs data s]
  by (auto simp: dec_run_def split: prod.splits sum.splits)

lemma copy_append_iff:
  "copy_decim l (xs @ ys) s =
     (case map_of (st_decim s) l of None \<Rightarrow> Inl UndefinedTableError
      | Some tbl \<Rightarrow> if distinct (map fst (tbl @ xs @ ys)) then Inr (put_table l (tbl @ xs @ ys) s) else Inl UniqueViolationError)"
  by (simp add: copy_decim_put copy_rows_def split: option.split)

lemma dec_run_append:
  "0 < L \<Longrightarrow> dec_run F L again (xs @ ys) (bufs, s) = Option.bind (dec_run F L again xs (bufs, s)) (dec_run F L again ys)"
proof (induction F L again bufs "xs @ ys" s arbitrary: xs ys rule: dec_process.induct)
  case (1 F L again bufs s xs ys)
  obtain s0 where s0: "s0 = (if bufs = [] then create_decimation_table L s else s)" by simp
  let ?b = "case bufs of [] \<Rightarrow> [] | b # _ \<Rightarrow> b"
  obtain o1 b1 where d1: "dec_step F again ?b xs = (o1, b1)" by fastforce
  obtain o2 b2 where d2: "dec_step F again b1 ys = (o2, b2)" by fastforce
  have d: "dec_step F again ?b (xs @ ys) = (o1 @ o2, b2)" by (rule dec_step_append [OF d1 d2])
  have r2: "dec_run F L again ys (b1 # bs, z) = (if o2 = [] then Some (b2 # bs, z)
      else (case copy_decim L o2 z of Inl e \<Rightarrow> None
        | Inr z \<Rightarrow> map_option (\<lambda>(bs, z). (b2 # bs, z)) (dec_run F (L * dec_factor) True o2 (bs, z))))" for bs z
    using d2 by (simp add: dec_run_unfold split: sum.split)
  have r1: "dec_run F L again xs (bufs, s) = (if o1 = [] then Some (b1 # tl bufs, s0)
      else (case copy_decim L o1 s0 of Inl e \<Rightarrow> None
        | Inr z \<Rightarrow> map_option (\<lambda>(bs, z). (b1 # bs, z)) (dec_run F (L * dec_factor) True o1 (tl bufs, z))))"
    unfolding s0 by (subst dec_run_unfold) (simp only: Let_def d1 prod.case)
  have r: "dec_run F L again (xs @ ys) (bufs, s) = (if o1 @ o2 = [] then Some (b2 # tl bufs, s0)
      else (case copy_decim L (o1 @ o2) s0 of Inl e \<Rightarrow> None
        | Inr z \<Rightarrow> map_option (\<lambda>(bs, z). (b2 # bs, z)) (dec_run F (L * dec_factor) True (o1 @ o2) (tl bufs, z))))"
    unfolding s0 by (subst dec_run_unfold) (simp only: Let_def d prod.case)
  show ?case
  proof (cases "o1 = [] \<or> o2 = []")
    case True
    show ?thesis
    proof (cases "o1 = []")
      case True
      then show ?thesis unfolding r r1 by (simp add: r2 split: sum.split)
    next
      case False
      then have o2: "o2 = []" using True by simp
      show ?thesis
      proof (cases "copy_decim L o1 s0")
        case (Inr z)
        then show ?thesis unfolding r r1 using o2 False
          by (cases "dec_run F (L * dec_factor) True o1 (tl bufs, z)") (auto simp: r2)
      qed (use o2 False in \<open>simp add: r r1\<close>)
    qed
  next
    case False
    then have ne: "o1 \<noteq> []" "o2 \<noteq> []" "o1 @ o2 \<noteq> []" by simp_all
    show ?thesis
    proof (cases "map_of (st_decim s0) L")
      case None
      then show ?thesis unfolding r r1 using ne by (simp add: copy_decim_put)
    next
      case (Some tbl)
      let ?t = "tbl @ o1 @ o2"
      have up: "L < L * dec_factor" using 1(2) by (simp add: dec_factor_def)
      show ?thesis
      proof (cases "distinct (map fst ?t)")
        case True
        then have c1: "copy_decim L o1 s0 = Inr (put_table L (tbl @ o1) s0)" "copy_decim L (o1 @ o2) s0 = Inr (put_table L ?t s0)"
          using Some by (simp_all add: copy_decim_put copy_rows_def Int_Un_distrib)
        let ?R = "dec_run F (L * dec_factor) True o1 (tl bufs, put_table L (tbl @ o1) s0)"
        have "dec_run F (L * dec_factor) True (o1 @ o2) (tl bufs, put_table L ?t s0)
          = Option.bind (dec_run F (L * dec_factor) True o1 (tl bufs, put_table L ?t s0)) (dec_run F (L * dec_factor) True o2)"
          by (rule 1(1) [OF s0 refl _ _ ne(3) c1(2)]) (use d up in simp_all)
        also have "put_table L ?t s0 = put_table L ?t (put_table L (tbl @ o1) s0)" by (simp add: put_table_twice)
        also have "dec_run F (L * dec_factor) True o1 (tl bufs, \<dots>) = map_option (\<lambda>(bs, s). (bs, put_table L ?t s)) ?R"
          by (rule dec_run_put [OF up])
        finally have w: "dec_run F (L * dec_factor) True (o1 @ o2) (tl bufs, put_table L ?t s0)
          = Option.bind (map_option (\<lambda>(bs, s). (bs, put_table L ?t s)) ?R) (dec_run F (L * dec_factor) True o2)"
          by (simp only: put_table_twice)
        show ?thesis
        proof (cases ?R)
          case None
          then show ?thesis unfolding r r1 using ne c1 w by simp
        next
          case (Some x)
          obtain bs X where x: "x = (bs, X)" by fastforce
          have "map_of (st_decim X) L = Some (tbl @ o1)"
            using dec_run_keeps [OF up, of F True o1 "tl bufs" "put_table L (tbl @ o1) s0" bs X] Some x
              \<open>map_of (st_decim s0) L = Some tbl\<close> by (simp add: map_of_put_table)
          then have "copy_decim L o2 X = Inr (put_table L ?t X)" using True by (simp add: copy_decim_put copy_rows_def)
          then show ?thesis unfolding r r1 using ne c1 w Some x r2 [of bs X] by simp
        qed
      next
        case dup: False
        have whole: "copy_decim L (o1 @ o2) s0 = Inl UniqueViolationError"
          using dup Some by (simp only: copy_decim_put copy_rows_def option.case if_False append_assoc bindE.simps)
        show ?thesis
        proof (cases "copy_decim L o1 s0")
          case (Inl e)
          then show ?thesis unfolding r r1 using ne whole by simp
        next
          case (Inr z)
          then have z: "map_of (st_decim z) L = Some (tbl @ o1)"
            using Some by (auto simp: copy_decim_put copy_rows_def map_of_put_table split: if_splits)
          show ?thesis
          proof (cases "dec_run F (L * dec_factor) True o1 (tl bufs, z)")
            case None
            then show ?thesis unfolding r r1 using ne whole Inr by simp
          next
            case (Some x)
            obtain bs X where x: "x = (bs, X)" by fastforce
            have "map_of (st_decim X) L = Some (tbl @ o1)" using dec_run_keeps [OF up, of F True o1 "tl bufs" z bs X] Some x z by simp
            then have "copy_decim L o2 X = Inl UniqueViolationError"
              using dup by (simp only: copy_decim_put copy_rows_def option.case if_False append_assoc bindE.simps)
            then show ?thesis unfolding r r1 using ne whole Inr Some x r2 [of bs X] by simp
          qed
        qed
      qed
    qed
  qed
qed

section \<open>The stretches of a stream\<close>

text \<open>One pass: every stretch is processed as a whole, and the buffers are emptied behind it.\<close>

fun dec_stretches :: "'f dec_fns \<Rightarrow> 'f drow list list \<Rightarrow> 'f drow list list \<times> 'f list tstore
    \<Rightarrow> ('f drow list list \<times> 'f list tstore) option" where
  "dec_stretches F [] x = Some x"
| "dec_stretches F (r # rs) x =
     Option.bind (if r = [] then Some x else dec_run F dec_factor False r x)
       (\<lambda>(bufs, s). dec_stretches F rs (dec_close_interval bufs, s))"

lemma close_twice [simp]: "dec_close_interval (dec_close_interval bufs) = dec_close_interval bufs"
  by (simp add: dec_close_interval_def)

lemma dec_stretches_filter:
  "dec_stretches F (filter (\<lambda>r. r \<noteq> []) rs) (dec_close_interval bufs, s) = dec_stretches F rs (dec_close_interval bufs, s)"
  by (induction rs arbitrary: bufs s) (auto intro: bind_option_cong)

definition ok_of :: "unit res \<times> 'x \<Rightarrow> 'x option" where
  "ok_of r = (case r of (Inl e, x) \<Rightarrow> None | (Inr _, x) \<Rightarrow> Some x)"

lemma ok_of_process: "ok_of (dec_process F L again bufs data s) = dec_run F L again data (bufs, s)"
  by (simp add: ok_of_def dec_run_def)

lemma ok_of_redecimate:
  "ok_of (redecimate F (b # bs) x) = Option.bind (ok_of (redecimator F b x)) (\<lambda>x. ok_of (redecimate F bs x))"
  by (simp add: ok_of_def split: prod.split sum.split)

lemma items_rows_some [simp]: "items_rows (map Some rows) = rows"
  by (induction rows) (simp_all add: items_rows_def)

text \<open>A block that ends a stretch, and one that does not.\<close>

lemma redecimator_end:
  "ok_of (redecimator F (map Some p @ [None]) (bufs, s)) =
     Option.bind (if p = [] then Some (bufs, s) else dec_run F dec_factor False p (bufs, s))
       (\<lambda>(bufs, s). Some (dec_close_interval bufs, s))"
  by (auto simp: redecimator_def dec_run_def ok_of_def split: prod.splits sum.splits)

lemma redecimator_plain:
  "p \<noteq> [] \<Longrightarrow> ok_of (redecimator F (map Some p) (bufs, s)) = dec_run F dec_factor False p (bufs, s)"
proof -
  assume p: "p \<noteq> []"
  then have "(last (map Some p) = None) = False" "(map Some p = [None]) = False" by (auto simp: last_map)
  then show ?thesis using p by (simp only: redecimator_def ok_of_process prod.case list.map_disc_iff if_False items_rows_simps)
qed

lemma block_cases:
  assumes "tail_token b"
  obtains p where "b = map Some p @ [None]" | p where "b = map Some p" "p \<noteq> []"
proof -
  have some: "None \<notin> set xs \<Longrightarrow> xs = map Some (items_rows xs)" for xs :: "'a block"
  proof (induction xs)
    case (Cons a xs)
    then show ?case by (cases a) (auto simp: items_rows_def)
  qed simp
  obtain q x where b: "b = q @ [x]" using assms by (cases b rule: rev_cases) (auto simp: tail_token_def)
  then have q: "q = map Some (items_rows q)" using assms some by (auto simp: tail_token_def)
  show thesis
  proof (cases x)
    case None
    then show thesis using that(1) [of "items_rows q"] b q by simp
  next
    case (Some y)
    then show thesis using that(2) [of "items_rows q @ [y]"] b q by simp
  qed
qed

lemma redecimate_pieces:
  "\<forall>b \<in> set blocks. tail_token b \<Longrightarrow>
     map_option snd (ok_of (redecimate F blocks (bufs, s)))
     = map_option snd (dec_stretches F (map items_rows (between_tokens (concat blocks))) (bufs, s))"
proof (induction blocks arbitrary: bufs s)
  case Nil
  then show ?case by (simp add: ok_of_def items_rows_def)
next
  case (Cons b blocks)
  obtain p0 ps0 where between_tokens: "between_tokens (concat blocks) = p0 # ps0" by (metis list.exhaust pieces_not_Nil)
  have ih: "map_option snd (ok_of (redecimate F blocks (bufs, s)))
      = map_option snd (dec_stretches F (items_rows p0 # map items_rows ps0) (bufs, s))" for bufs s
    using Cons between_tokens by simp
  from Cons.prems have "tail_token b" by simp
  then show ?case
  proof (cases rule: block_cases)
    case (1 p)
    then have "between_tokens (concat (b # blocks)) = map Some p # between_tokens (concat blocks)"
      using pieces_break [of "map Some p" "concat blocks"] by simp
    then show ?thesis using 1 between_tokens
      by (auto simp: ok_of_redecimate redecimator_end ih map_option_bind simp del: redecimate.simps intro!: bind_option_cong)
  next
    case (2 p)
    then have c: "between_tokens (concat (b # blocks)) = (map Some p @ p0) # ps0"
      using pieces_plain_append [of "map Some p" "concat blocks"] between_tokens by auto
    have i: "items_rows (map Some p @ p0) = p @ items_rows p0" by simp
    have "dec_run F dec_factor False (p @ items_rows p0) (bufs, s)
      = Option.bind (dec_run F dec_factor False p (bufs, s))
          (\<lambda>x. if items_rows p0 = [] then Some x else dec_run F dec_factor False (items_rows p0) x)"
    proof (cases "items_rows p0 = []")
      case False
      then show ?thesis using dec_run_append [of dec_factor F False p "items_rows p0" bufs s] by (simp add: dec_factor_def)
    qed simp
    then show ?thesis unfolding c using 2
      by (auto simp: ok_of_redecimate redecimator_plain ih i map_option_bind simp del: redecimate.simps intro!: bind_option_cong)
  qed
qed

section \<open>What is stored again\<close>

lemma pieces_rows:
  "filter (\<lambda>r. r \<noteq> []) (map items_rows (between_tokens xs)) = map items_rows (segments xs)"
proof -
  have "items_rows p \<noteq> [] \<longleftrightarrow> p \<noteq> []" if "None \<notin> set p" for p :: "'a block"
    using that by (cases p) (auto simp: items_rows_def split: option.split)
  moreover have "None \<notin> set p" if "p \<in> set (between_tokens xs)" for p
    using that by (induction xs arbitrary: p rule: between_tokens.induct) (auto split: list.splits)
  ultimately show ?thesis by (auto simp: segments_def filter_map intro!: arg_cong [of _ _ "map _"] filter_cong)
qed

text \<open>
  C36.  The chain of decimators does not see how the rows of a stretch are cut into blocks.  Processing two
  blocks one after the other succeeds exactly when processing them joined does, and then leaves the same
  rows waiting at every level and the same decimation tables.
\<close>

theorem chain_block_independent:
  assumes "0 < level"
  shows "dec_process F level again bufs (xs @ ys) s = (Inr (), bufs', s')
    \<longleftrightarrow> (\<exists>b1 s1. dec_process F level again bufs xs s = (Inr (), b1, s1)
          \<and> dec_process F level again b1 ys s1 = (Inr (), bufs', s'))"
proof -
  have run: "dec_process F level again b data z = (Inr (), b', z') \<longleftrightarrow> dec_run F level again data (b, z) = Some (b', z')"
    for b data z b' z' by (auto simp: dec_run_def split: prod.split sum.split)
  show ?thesis unfolding run dec_run_append [OF assms] by (auto simp: bind_eq_Some_conv)
qed

theorem chain_block_independent_witness:
  "dec_process demo_fns 4 False [] ([(1, [5]), (2, [6]), (3, [7])] @ [(4, [8]), (5, [9])])
      \<lparr>st_data = None, st_ivl = None, st_decim = []\<rparr>
    = (Inr (), [[(5, [9])], []], \<lparr>st_data = None, st_ivl = None, st_decim = [(4, [(1, [5, 5, 5])]), (16, [])]\<rparr>)
   \<longleftrightarrow> (\<exists>b1 s1. dec_process demo_fns 4 False [] [(1, [5]), (2, [6]), (3, [7])]
        \<lparr>st_data = None, st_ivl = None, st_decim = []\<rparr> = (Inr (), b1, s1)
      \<and> dec_process demo_fns 4 False b1 [(4, [8]), (5, [9])] s1
        = (Inr (), [[(5, [9])], []], \<lparr>st_data = None, st_ivl = None, st_decim = [(4, [(1, [5, 5, 5])]), (16, [])]\<rparr>))"
  by (rule chain_block_independent) simp



end
