(* ===== verification/Filters.thy ===== *)
theory Filters
  imports Prelude
begin

text \<open>
  The filter modules that Joule brings along: the FIR filter of \<open>client/fir_filter_module.py\<close>, from which
  \<open>client/builtins/mean_filter.py\<close> makes the moving average, and \<open>client/builtins/median_filter.py\<close>.  The value of
  a filter on one column of a window is an argument: numpy's and scipy's arithmetic.

  A run is a sequence of turns of the loop.  What was read and not consumed comes first in the next read; the end
  of the list stands for the end of the input, which \<open>read\<close> reports with \<open>EmptyPipeError\<close>.
\<close>

section \<open>The loop\<close>

record 'f filter_turn =
  ft_new :: "(int \<times> 'f list) list"
  ft_end_of_interval :: bool
  ft_closed :: bool

text \<open>The slice \<open>xs[b:-b]\<close>.\<close>

definition inner_slice :: "nat \<Rightarrow> 'a list \<Rightarrow> 'a list" where
  "inner_slice b xs = (if b = 0 then [] else take (length xs - b - b) (drop b xs))"

text \<open>The filter by columns, for the windows that lie in the data.\<close>

definition filter_columns :: "nat \<Rightarrow> ('f list \<Rightarrow> 'f) \<Rightarrow> (int \<times> 'f list) list \<Rightarrow> 'f list list" where
  "filter_columns N f rows =
     (let width = length (snd (hd rows))
      in map (\<lambda>i. map (\<lambda>j. f (map (\<lambda>r. snd r ! j) (take N (drop i rows)))) [0..<width]) [0..<length rows - N + 1])"

text \<open>
  The output of one block; numpy refuses to assign times or values of another number to it.
\<close>

definition output_block :: "int list \<Rightarrow> 'f list list \<Rightarrow> nat \<Rightarrow> (int \<times> 'f list) list res" where
  "output_block ts vs n = (if length ts = n \<and> length vs = n then Inr (zip ts vs) else Inl PyValueError)"

definition fir_block :: "('f list \<Rightarrow> 'f) \<Rightarrow> nat \<Rightarrow> (int \<times> 'f list) list \<Rightarrow> (int \<times> 'f list) list res" where
  "fir_block f N data = output_block (inner_slice (N div 2) (map fst data)) (filter_columns N f data) (length data - N + 1)"

text \<open>
  \<open>medfilt\<close> pads the data with zeros, and the padded windows are cut off again; it accepts odd windows only.
\<close>

definition median_block :: "('f list \<Rightarrow> 'f) \<Rightarrow> nat \<Rightarrow> (int \<times> 'f list) list \<Rightarrow> (int \<times> 'f list) list res" where
  "median_block med N data =
     (if even N then Inl PyValueError
      else output_block (inner_slice (N div 2) (map fst data))
             (if N div 2 = 0 then [] else filter_columns N med data) (length data - N + 1))"

text \<open>The rows written and, as \<open>None\<close>, the ends of intervals.\<close>

fun filter_loop :: "(nat \<Rightarrow> (int \<times> 'f list) list \<Rightarrow> (int \<times> 'f list) list res) \<Rightarrow> nat \<Rightarrow> 'f filter_turn list
    \<Rightarrow> (int \<times> 'f list) list \<Rightarrow> (int \<times> 'f list) option list \<Rightarrow> unit res \<times> (int \<times> 'f list) option list" where
  "filter_loop block N [] pending out = (Inl EmptyPipeError, out)"
| "filter_loop block N (t # ts) pending out =
     (let data = pending @ ft_new t
      in if length data < N * 2 then
           if ft_closed t then (Inr (), out)
           else if ft_end_of_interval t then filter_loop block N ts [] (out @ [None])
           else filter_loop block N ts data out
         else
           (case block N data of
              Inl e \<Rightarrow> (Inl e, out)
            | Inr rows \<Rightarrow>
                if ft_end_of_interval t then filter_loop block N ts [] (out @ map Some rows @ [None])
                else filter_loop block N ts (drop (length rows) data) (out @ map Some rows)))"

definition fir_run :: "('f list \<Rightarrow> 'f) \<Rightarrow> nat \<Rightarrow> 'f filter_turn list \<Rightarrow> unit res \<times> (int \<times> 'f list) option list" where
  "fir_run f N ts = (if even N then (Inl PyAssertionError, []) else filter_loop (fir_block f) N ts [] [])"

text \<open>The moving average: \<open>mean\<close> is the sum of a column with the taps \<open>1/window\<close>.\<close>

definition mean_filter :: "('f list \<Rightarrow> 'f) \<Rightarrow> int \<Rightarrow> 'f filter_turn list \<Rightarrow> unit res \<times> (int \<times> 'f list) option list" where
  "mean_filter mean window ts = (if window < 0 then (Inl PyValueError, []) else fir_run mean (nat window) ts)"

definition median_filter :: "('f list \<Rightarrow> 'f) \<Rightarrow> nat \<Rightarrow> 'f filter_turn list \<Rightarrow> unit res \<times> (int \<times> 'f list) option list" where
  "median_filter med N ts = filter_loop (median_block med) N ts [] []"

section \<open>What the filters compute\<close>

text \<open>One row for each window of \<open>N\<close> rows, at the time of its middle row.\<close>

definition window_row :: "nat \<Rightarrow> ('f list \<Rightarrow> 'f) \<Rightarrow> nat \<Rightarrow> (int \<times> 'f list) list \<Rightarrow> int \<times> 'f list" where
  "window_row N f width w = (fst (w ! (N div 2)), map (\<lambda>j. f (map (\<lambda>r. snd r ! j) w)) [0..<width])"

definition windows :: "nat \<Rightarrow> ('f list \<Rightarrow> 'f) \<Rightarrow> nat \<Rightarrow> (int \<times> 'f list) list \<Rightarrow> (int \<times> 'f list) list" where
  "windows N f width rows = map (\<lambda>i. window_row N f width (take N (drop i rows))) [0..<length rows + 1 - N]"

lemma length_windows [simp]: "length (windows N f width rows) = length rows + 1 - N"
  by (simp add: windows_def)

lemma windows_drop: "m \<le> length rows \<Longrightarrow> windows N f width (drop m rows) = drop m (windows N f width rows)"
  by (rule nth_equalityI) (auto simp: windows_def add.commute)

lemma windows_append: "m \<le> length rows + 1 - N \<Longrightarrow> take m (windows N f width (rows @ ys)) = take m (windows N f width rows)"
  by (rule nth_equalityI) (auto simp: windows_def)

lemma block_windows:
  assumes "odd N" "3 \<le> N" "N * 2 \<le> length data" "\<forall>r \<in> set data. length (snd r) = width"
  shows "fir_block f N data = Inr (windows N f width data)" "median_block f N data = Inr (windows N f width data)"
proof -
  let ?b = "N div 2"
  have b: "0 < ?b" "N = ?b + ?b + 1" using assms(1,2) by (auto elim: oddE)
  have "data \<noteq> []" using assms(2,3) by auto
  then have w: "length (snd (hd data)) = width" using assms(4) by simp
  have len: "length (inner_slice ?b (map fst data)) = length data - N + 1" "length (filter_columns N f data) = length data - N + 1"
    using b assms(3) by (auto simp: inner_slice_def filter_columns_def Let_def)
  have "zip (inner_slice ?b (map fst data)) (filter_columns N f data) = windows N f width data"
  proof (rule nth_equalityI)
    show "length (zip (inner_slice ?b (map fst data)) (filter_columns N f data)) = length (windows N f width data)"
      using len assms(3) by simp
    fix i assume "i < length (zip (inner_slice ?b (map fst data)) (filter_columns N f data))"
    then have i: "i < length data - N + 1" using len by simp
    then have "inner_slice ?b (map fst data) ! i = fst (data ! (?b + i))" using b assms(3) by (auto simp: inner_slice_def)
    moreover have "take N (drop i data) ! ?b = data ! (i + ?b)" using i b assms(3) by simp
    ultimately show "zip (inner_slice ?b (map fst data)) (filter_columns N f data) ! i = windows N f width data ! i"
      using i len w assms(3) by (simp add: windows_def window_row_def filter_columns_def Let_def add.commute del: upt_Suc)
  qed
  then show "fir_block f N data = Inr (windows N f width data)" "median_block f N data = Inr (windows N f width data)"
    using len b assms(1) by (simp_all add: fir_block_def median_block_def output_block_def)
qed

text \<open>What is read, by intervals.\<close>

definition filter_input :: "'f filter_turn list \<Rightarrow> (int \<times> 'f list) option list" where
  "filter_input ts = concat (map (\<lambda>t. map Some (ft_new t) @ (if ft_end_of_interval t then [None] else [])) ts)"

text \<open>From the rows of an interval the windows are computed in order, up to fewer than \<open>2 N\<close> rows.\<close>

definition filtered :: "nat \<Rightarrow> ('f list \<Rightarrow> 'f) \<Rightarrow> nat \<Rightarrow> (int \<times> 'f list) option list \<Rightarrow> (int \<times> 'f list) option list \<Rightarrow> bool" where
  "filtered N f width rows out =
     (\<exists>rs m. rows = map Some rs \<and> out = map Some (take m (windows N f width rs)) \<and> m \<le> length rs + 1 - N \<and> length rs < m + 2 * N)"

lemma filter_loop_long:
  "\<lbrakk>\<not> length (pending @ ft_new t) < N * 2; block N (pending @ ft_new t) = Inr rows\<rbrakk>
    \<Longrightarrow> filter_loop block N (t # ts) pending out =
      (if ft_end_of_interval t then filter_loop block N ts [] (out @ map Some rows @ [None])
       else filter_loop block N ts (drop (length rows) (pending @ ft_new t)) (out @ map Some rows))"
  by (simp add: Let_def)

lemma filter_loop_windows:
  assumes "\<forall>data. N * 2 \<le> length data \<and> (\<forall>r \<in> set data. length (snd r) = width) \<longrightarrow> block N data = Inr (windows N f width data)"
    and "0 < N" "\<forall>t \<in> set ts. \<not> ft_closed t \<and> (\<forall>r \<in> set (ft_new t). length (snd r) = width)"
    and "m \<le> length rs" "m \<le> length rs + 1 - N" "length rs < m + 2 * N" "\<forall>r \<in> set rs. length (snd r) = width"
  shows "\<exists>tail. filter_loop block N ts (drop m rs) (out @ map Some (take m (windows N f width rs))) = (Inl EmptyPipeError, out @ tail)
    \<and> list_all2 (filtered N f width) (between_tokens (map Some rs @ filter_input ts)) (between_tokens tail)"
  using assms(3-)
proof (induction ts arbitrary: m rs out)
  case Nil
  have "filtered N f width (map Some rs) (map Some (take m (windows N f width rs)))" using Nil by (auto simp: filtered_def)
  then show ?case
    by (intro exI [of _ "map Some (take m (windows N f width rs))"]) (simp add: filter_input_def pieces_plain)
next
  case (Cons t ts)
  let ?rs = "rs @ ft_new t"
  let ?d = "drop m rs @ ft_new t"
  have d: "?d = drop m ?rs" using Cons.prems(2) by simp
  have wd: "\<forall>r \<in> set ?rs. length (snd r) = width" "\<forall>r \<in> set ?d. length (snd r) = width"
    using Cons.prems(1,5) by (auto dest: in_set_dropD)
  have cl: "\<not> ft_closed t" and ts: "\<forall>t \<in> set ts. \<not> ft_closed t \<and> (\<forall>r \<in> set (ft_new t). length (snd r) = width)"
    using Cons.prems(1) by simp_all
  obtain m' where m': "m \<le> m'" "m' \<le> length ?rs" "m' \<le> length ?rs + 1 - N" "length ?rs < m' + 2 * N"
    and step: "filter_loop block N (t # ts) (drop m rs) (out @ map Some (take m (windows N f width rs)))
      = (if ft_end_of_interval t then filter_loop block N ts [] (out @ map Some (take m' (windows N f width ?rs)) @ [None])
         else filter_loop block N ts (drop m' ?rs) (out @ map Some (take m' (windows N f width ?rs))))"
  proof (cases "length ?d < N * 2")
    case True
    show thesis
    proof (rule that [of m])
      have "take m (windows N f width ?rs) = take m (windows N f width rs)" by (rule windows_append [OF Cons.prems(3)])
      then show "filter_loop block N (t # ts) (drop m rs) (out @ map Some (take m (windows N f width rs)))
        = (if ft_end_of_interval t then filter_loop block N ts [] (out @ map Some (take m (windows N f width ?rs)) @ [None])
           else filter_loop block N ts (drop m ?rs) (out @ map Some (take m (windows N f width ?rs))))"
        unfolding d [symmetric] using True cl by (simp add: Let_def del: drop_append)
    qed (use Cons.prems(2,3) True in auto)
  next
    case False
    then have b: "block N ?d = Inr (windows N f width ?d)" using assms(1) wd(2) by simp
    have w: "windows N f width ?d = drop m (windows N f width ?rs)" unfolding d by (rule windows_drop) (use Cons.prems(2) in simp)
    have all: "map Some (take m (windows N f width rs)) @ map Some (windows N f width ?d) = map Some (windows N f width ?rs)"
      unfolding w windows_append [OF Cons.prems(3), of f width "ft_new t", symmetric] map_append [symmetric] append_take_drop_id ..
    let ?m = "length ?rs + 1 - N"
    have m2: "m \<le> ?m" using Cons.prems(3) by simp
    have l: "length (windows N f width ?d) = ?m - m" unfolding w by simp
    show thesis
    proof (rule that [of ?m])
      show "filter_loop block N (t # ts) (drop m rs) (out @ map Some (take m (windows N f width rs)))
        = (if ft_end_of_interval t then filter_loop block N ts [] (out @ map Some (take ?m (windows N f width ?rs)) @ [None])
           else filter_loop block N ts (drop ?m ?rs) (out @ map Some (take ?m (windows N f width ?rs))))"
        unfolding filter_loop_long [of _ t N block, OF False b] l
        using all drop_drop [of "?m - m" m ?rs] m2 d by (simp only: append_assoc le_add_diff_inverse2 length_windows take_all order_refl)
          (metis append_assoc)
    qed (use m2 False Cons.prems(2) assms(2) in auto)
  qed
  have f1: "filtered N f width (map Some ?rs) (map Some (take m' (windows N f width ?rs)))"
    using m' unfolding filtered_def by blast
  show ?case
  proof (cases "ft_end_of_interval t")
    case True
    obtain tail where tail: "filter_loop block N ts [] (out @ map Some (take m' (windows N f width ?rs)) @ [None])
        = (Inl EmptyPipeError, (out @ map Some (take m' (windows N f width ?rs)) @ [None]) @ tail)"
      "list_all2 (filtered N f width) (between_tokens (filter_input ts)) (between_tokens tail)"
      using Cons.IH [OF ts, of 0 "[]" "out @ map Some (take m' (windows N f width ?rs)) @ [None]"] assms(2) by auto
    have i: "map Some rs @ filter_input (t # ts) = map Some ?rs @ None # filter_input ts"
      using True by (simp add: filter_input_def)
    have p: "between_tokens (map Some ?rs @ None # filter_input ts) = map Some ?rs # between_tokens (filter_input ts)"
      by (rule pieces_break) auto
    show ?thesis unfolding step i p
      using True tail f1 by (intro exI [of _ "map Some (take m' (windows N f width ?rs)) @ None # tail"]) (simp add: pieces_break)
  next
    case False
    have i: "map Some rs @ filter_input (t # ts) = map Some ?rs @ filter_input ts"
      using False by (simp add: filter_input_def)
    show ?thesis unfolding step i using False Cons.IH [OF ts m'(2-4) wd(1), of out] by simp
  qed
qed

text \<open>
  C39.  The moving average, every FIR filter and the median filter with an odd window of at least three rows
  write, for every interval of the input, the values of its first windows in order, each at the time of the
  middle row of the window, and the interval's end.  No window spans two intervals or is computed twice, however the
  input is cut into blocks; of each interval fewer than two windows' length of rows remain unused.
\<close>

theorem filters_compute_windows:
  assumes "odd N" "3 \<le> N" "\<forall>t \<in> set ts. \<not> ft_closed t \<and> (\<forall>r \<in> set (ft_new t). length (snd r) = width)"
  shows "\<exists>out. fir_run f N ts = (Inl EmptyPipeError, out) \<and> median_filter f N ts = (Inl EmptyPipeError, out)
      \<and> list_all2 (filtered N f width) (between_tokens (filter_input ts)) (between_tokens out)"
proof -
  have loop: "\<exists>out. filter_loop block N ts [] [] = (Inl EmptyPipeError, out)
      \<and> list_all2 (filtered N f width) (between_tokens (filter_input ts)) (between_tokens out)"
    if "\<forall>data. N * 2 \<le> length data \<and> (\<forall>r \<in> set data. length (snd r) = width) \<longrightarrow> block N data = Inr (windows N f width data)" for block
    using filter_loop_windows [where N = N and width = width and block = block and f = f and ts = ts and m = 0 and rs = "[]" and out = "[]"]
      that assms(2,3) by simp
  have same: "filter_loop (fir_block f) N ts p out = filter_loop (median_block f) N ts p out" for p out
    using assms(1,2) by (induction "fir_block f" N ts p out rule: filter_loop.induct) (auto simp: fir_block_def median_block_def Let_def split: sum.split elim: oddE)
  have "\<forall>data. N * 2 \<le> length data \<and> (\<forall>r \<in> set data. length (snd r) = width) \<longrightarrow> fir_block f N data = Inr (windows N f width data)"
    using block_windows(1) [OF assms(1,2)] by blast
  from loop [of "fir_block f", OF this] show ?thesis using assms(1) by (simp add: fir_run_def median_filter_def same)qed

definition demo_blocks :: "int filter_turn list" where
  "demo_blocks = [\<lparr>ft_new = map (\<lambda>t. (t, [t * t])) [1..6], ft_end_of_interval = False, ft_closed = False\<rparr>,
     \<lparr>ft_new = map (\<lambda>t. (t, [t * t])) [7..8], ft_end_of_interval = True, ft_closed = False\<rparr>]"

lemma filters_compute_windows_witness:
  "\<exists>out. fir_run sum_list 3 demo_blocks = (Inl EmptyPipeError, out) \<and> median_filter sum_list 3 demo_blocks = (Inl EmptyPipeError, out)
      \<and> list_all2 (filtered 3 sum_list 1) (between_tokens (filter_input demo_blocks)) (between_tokens out)"
  by (rule filters_compute_windows) (simp_all add: demo_blocks_def)

text \<open>
  How many windows at the end of an interval are left out depends on the blocks: the same eight rows give six
  averages in one block and four in two.
\<close>

lemma average_depends_on_blocks:
  "snd (mean_filter hd 3 [\<lparr>ft_new = map (\<lambda>t. (t, [t])) [1..8], ft_end_of_interval = True, ft_closed = False\<rparr>])
     = map (\<lambda>t. Some (t + 1, [t])) [1..6] @ [None]"
  "snd (mean_filter hd 3 [\<lparr>ft_new = map (\<lambda>t. (t, [t])) [1..6], ft_end_of_interval = False, ft_closed = False\<rparr>,
       \<lparr>ft_new = map (\<lambda>t. (t, [t])) [7..8], ft_end_of_interval = True, ft_closed = False\<rparr>])
     = map (\<lambda>t. Some (t + 1, [t])) [1..4] @ [None]"
  by code_simp+

text \<open>A window of one row, which is odd, fails at the first two rows.\<close>

lemma window_one_fails:
  assumes "2 \<le> length (ft_new t)"
  shows "mean_filter f 1 (t # ts) = (Inl PyValueError, [])" "median_filter f 1 (t # ts) = (Inl PyValueError, [])"
  using assms by (auto simp: mean_filter_def fir_run_def median_filter_def fir_block_def median_block_def output_block_def inner_slice_def)

end
