(* ===== verification/Annotations.thy ===== *)
theory Annotations
  imports Catalogue_Safety
begin

text \<open>
  Annotations of data streams: the table (\<open>models/annotation.py\<close>), the handlers of
  \<open>controllers/annotation_controller.py\<close> and the client of \<open>api/annotation.py\<close>.  A time is kept in microseconds.  It
  passes through floating point numbers of seconds on the way in and on the way out; these conversions are
  parameters: \<open>to_us\<close> of the JSON values, \<open>of_us\<close> of the integers in a query, \<open>read_back\<close> of a stored time.
\<close>

section \<open>The table\<close>

record annotation =
  an_id :: int
  an_title :: "string option"
  an_content :: "string option"
  an_start :: int
  an_end :: "int option"
  an_stream :: int

record annotation_table =
  at_rows :: "annotation list"
  at_seq :: int

text \<open>A key may be missing, and its value may be null.\<close>

record 'j annotation_json =
  aj_title :: "string option option"
  aj_content :: "string option option"
  aj_start :: "'j option"
  aj_end :: "'j option option"

definition annotation_to_json :: "(int \<Rightarrow> int) \<Rightarrow> annotation \<Rightarrow> annotation" where
  "annotation_to_json read_back a = a\<lparr>an_start := read_back (an_start a), an_end := map_option read_back (an_end a)\<rparr>"

definition update_annotation :: "'j annotation_json \<Rightarrow> annotation \<Rightarrow> annotation" where
  "update_annotation json a =
     (let a = (case aj_title json of None \<Rightarrow> a | Some t \<Rightarrow> a\<lparr>an_title := t\<rparr>)
      in case aj_content json of None \<Rightarrow> a | Some c \<Rightarrow> a\<lparr>an_content := c\<rparr>)"

definition value_error :: "exn \<Rightarrow> 'a res \<Rightarrow> 'a res" where
  "value_error e r =
     (case r of
        Inl PyValueError \<Rightarrow> Inl e
      | Inl PyTypeError \<Rightarrow> Inl e
      | Inl (PyKeyError k) \<Rightarrow> Inl e
      | r \<Rightarrow> r)"

definition annotation_from_json :: "('j \<Rightarrow> int res) \<Rightarrow> 'j annotation_json \<Rightarrow> annotation res" where
  "annotation_from_json to_us json =
     value_error (ApiError ''invalid values for annotation'')
       (bindE (case aj_title json of None \<Rightarrow> Inl (PyKeyError ''title'') | Some t \<Rightarrow> Inr t) (\<lambda>title.
        bindE (case aj_start json of None \<Rightarrow> Inl (PyKeyError ''start'') | Some j \<Rightarrow> to_us j) (\<lambda>start.
        bindE (case aj_end json of Some (Some j) \<Rightarrow> bindE (to_us j) (\<lambda>t. Inr (Some t)) | _ \<Rightarrow> Inr None) (\<lambda>fin.
        Inr \<lparr>an_id = 0, an_title = title, an_content = (case aj_content json of None \<Rightarrow> None | Some c \<Rightarrow> c),
             an_start = start, an_end = fin, an_stream = 0\<rparr>))))"

section \<open>The handlers\<close>

type_synonym ('f, 'a) annotation_request = "('f session \<times> annotation_table, 'a) act"

definition in_catalogue :: "('f, 'a) handler \<Rightarrow> ('f, 'a) annotation_request" where
  "in_catalogue h s = (case h (fst s) of (r, t) \<Rightarrow> (r, (t, snd s)))"

text \<open>
  The bounds of a query; \<open>None\<close> when a bound is missing.
\<close>

definition parse_bound :: "(int \<Rightarrow> int res) \<Rightarrow> string option \<Rightarrow> int option res" where
  "parse_bound of_us v =
     (case v of
        None \<Rightarrow> Inr None
      | Some t \<Rightarrow> (case py_int t of None \<Rightarrow> Inl PyValueError | Some i \<Rightarrow> bindE (of_us i) (\<lambda>t. Inr (Some t))))"

definition parse_time_bounds :: "(int \<Rightarrow> int res) \<Rightarrow> settings \<Rightarrow> (int option \<times> int option) res" where
  "parse_time_bounds of_us q =
     (case bindE (parse_bound of_us (map_of q ''start'')) (\<lambda>a.
           bindE (parse_bound of_us (map_of q ''end'')) (\<lambda>e. Inr (a, e))) of
        Inl PyValueError \<Rightarrow> Inl (HTTPBadRequest ''[start] and [end] must be microsecond utc timestamps'')
      | r \<Rightarrow> r)"

definition within :: "int option \<times> int option \<Rightarrow> annotation \<Rightarrow> bool" where
  "within b a =
     ((case fst b of None \<Rightarrow> True | Some s \<Rightarrow> s \<le> an_start a) \<and> (case snd b of None \<Rightarrow> True | Some e \<Rightarrow> an_start a \<le> e))"

definition select_annotations :: "int \<Rightarrow> int option \<times> int option \<Rightarrow> annotation_table \<Rightarrow> annotation list" where
  "select_annotations stream b t = filter (within b) (filter (\<lambda>a. an_stream a = stream) (at_rows t))"

text \<open>The stream of a body or a query, by id first.\<close>

definition locator_of :: "int option \<Rightarrow> string option \<Rightarrow> locator" where
  "locator_of stream_id path =
     (case stream_id of Some i \<Rightarrow> ById i | None \<Rightarrow> (case path of Some p \<Rightarrow> ByPath p | None \<Rightarrow> Unspecified))"

definition query_locator :: "(string \<Rightarrow> int option) \<Rightarrow> settings \<Rightarrow> locator res" where
  "query_locator pg_int q =
     (case map_of q ''stream_id'' of
        Some v \<Rightarrow> (case pg_int v of None \<Rightarrow> Inl StatementError | Some i \<Rightarrow> Inr (ById i))
      | None \<Rightarrow> Inr (locator_of None (map_of q ''stream_path'')))"

definition annotation_info :: "(int \<Rightarrow> int) \<Rightarrow> int \<Rightarrow> (string \<Rightarrow> int option) \<Rightarrow> settings
    \<Rightarrow> ('f, int option \<times> int option \<times> nat) annotation_request" where
  "annotation_info read_back now pg_int q =
     (case query_locator pg_int q of
        Inl e \<Rightarrow> raiseA e
      | Inr l \<Rightarrow>
          seqA (in_catalogue (locate_data now ''must specify an id or a path'' l)) (\<lambda>s st.
            let ts = map an_start (filter (\<lambda>a. an_stream a = ds_id s) (at_rows (snd st)))
            in (Inr (map_option read_back (list_min ts), map_option read_back (list_max ts), length ts), st)))"

text \<open>The streams of \<open>index\<close>: first the ids given, then those of the paths.\<close>

fun ids_of_paths :: "int \<Rightarrow> string list \<Rightarrow> ('f, int list) annotation_request" where
  "ids_of_paths now [] = pureA []"
| "ids_of_paths now (p # ps) =
     seqA (in_catalogue (locate_data now '''' (ByPath p))) (\<lambda>s.
     seqA (ids_of_paths now ps) (\<lambda>is. pureA (ds_id s # is)))"

definition annotation_index :: "(int \<Rightarrow> int) \<Rightarrow> (int \<Rightarrow> int res) \<Rightarrow> int \<Rightarrow> (string \<Rightarrow> int option) \<Rightarrow> string list \<Rightarrow> string list
    \<Rightarrow> settings \<Rightarrow> ('f, annotation list) annotation_request" where
  "annotation_index read_back of_us now pg_int ids paths q =
     (case parse_time_bounds of_us q of
        Inl e \<Rightarrow> raiseA e
      | Inr b \<Rightarrow>
          if ids = [] \<and> paths = [] then raiseA (HTTPBadRequest ''must specify at least one stream_id or stream_path'')
          else
            seqA (ids_of_paths now paths) (\<lambda>is st.
              if list_ex (\<lambda>v. pg_int v = None) ids then (Inl StatementError, st)
              else (Inr (concat (map (\<lambda>i. map (annotation_to_json read_back) (select_annotations i b (snd st)))
                      (map (\<lambda>v. the (pg_int v)) ids @ is))), st)))"

definition no_title :: "annotation \<Rightarrow> bool" where
  "no_title a = (an_title a = None \<or> an_title a = Some '''')"

definition annotation_update :: "(int \<Rightarrow> int) \<Rightarrow> int option \<Rightarrow> 'j annotation_json \<Rightarrow> ('f, annotation) annotation_request" where
  "annotation_update read_back key body st =
     (case key of
        None \<Rightarrow> (Inl (HTTPBadRequest ''specify an id''), st)
      | Some i \<Rightarrow>
          (case List.find (\<lambda>a. an_id a = i) (at_rows (snd st)) of
             None \<Rightarrow> (Inl (HTTPNotFound ''annotation does not exist''), st)
           | Some a \<Rightarrow>
               if no_title (update_annotation body a) then (Inl (HTTPBadRequest ''annotation title is reqiured''), st)
               else (Inr (annotation_to_json read_back (update_annotation body a)),
                     (fst st, (snd st)\<lparr>at_rows := map (\<lambda>x. if an_id x = i then update_annotation body x else x) (at_rows (snd st))\<rparr>))))"

definition check_new_annotation :: "annotation res \<Rightarrow> annotation res" where
  "check_new_annotation r =
     (case r of
        Inl (ApiError m) \<Rightarrow> Inl (HTTPBadRequest m)
      | Inl e \<Rightarrow> Inl e
      | Inr a \<Rightarrow>
          if no_title a then Inl (HTTPBadRequest ''title is reqiured'')
          else if an_end a \<noteq> None \<and> the (an_end a) \<le> an_start a
          then Inl (HTTPBadRequest ''[start] must be before [end]'')
          else Inr a)"

definition add_annotation :: "int \<Rightarrow> annotation \<Rightarrow> annotation_table \<Rightarrow> annotation \<times> annotation_table" where
  "add_annotation stream a t =
     (let a = a\<lparr>an_id := at_seq t + 1, an_stream := stream\<rparr> in (a, \<lparr>at_rows = at_rows t @ [a], at_seq = at_seq t + 1\<rparr>))"

definition annotation_create :: "('j \<Rightarrow> int res) \<Rightarrow> (int \<Rightarrow> int) \<Rightarrow> int \<Rightarrow> locator \<Rightarrow> 'j annotation_json
    \<Rightarrow> ('f, annotation) annotation_request" where
  "annotation_create to_us read_back now l body =
     seqA (in_catalogue (locate_data now ''specify a stream_id'' l)) (\<lambda>s.
     case check_new_annotation (annotation_from_json to_us body) of
       Inl e \<Rightarrow> raiseA e
     | Inr a \<Rightarrow>
         (\<lambda>st. case add_annotation (ds_id s) a (snd st) of
                 (a, t) \<Rightarrow> (Inr (annotation_to_json read_back a), (fst st, t))))"

definition annotation_delete :: "(string \<Rightarrow> int option) \<Rightarrow> settings \<Rightarrow> ('f, unit) annotation_request" where
  "annotation_delete pg_int q st =
     (case map_of q ''id'' of
        None \<Rightarrow> (Inl (HTTPBadRequest ''specify an id''), st)
      | Some v \<Rightarrow>
          (case pg_int v of
             None \<Rightarrow> (Inl StatementError, st)
           | Some i \<Rightarrow>
               if i \<notin> an_id ` set (at_rows (snd st)) then (Inl (HTTPNotFound ''annotation does not exist''), st)
               else (Inr (), (fst st, (snd st)\<lparr>at_rows := filter (\<lambda>a. an_id a \<noteq> i) (at_rows (snd st))\<rparr>))))"

text \<open>\<open>delete_all\<close> looks at the bounds before it reports that the stream does not exist.\<close>

definition annotation_delete_all :: "(int \<Rightarrow> int res) \<Rightarrow> int \<Rightarrow> (string \<Rightarrow> int option) \<Rightarrow> settings
    \<Rightarrow> ('f, unit) annotation_request" where
  "annotation_delete_all of_us now pg_int q st =
     (case query_locator pg_int q of
        Inl e \<Rightarrow> (Inl e, st)
      | Inr l \<Rightarrow>
          (case in_catalogue (locate_data now ''must specify an id or a path'' l) st of
             (Inl (HTTPNotFound m), st) \<Rightarrow>
               (case parse_time_bounds of_us q of Inl e \<Rightarrow> (Inl e, st) | Inr _ \<Rightarrow> (Inl (HTTPNotFound m), st))
           | (Inl e, st) \<Rightarrow> (Inl e, st)
           | (Inr s, st) \<Rightarrow>
               (case parse_time_bounds of_us q of
                  Inl e \<Rightarrow> (Inl e, st)
                | Inr b \<Rightarrow>
                    (Inr (), (fst st, (snd st)\<lparr>at_rows := filter (\<lambda>a. \<not> (an_stream a = ds_id s \<and> within b a)) (at_rows (snd st))\<rparr>)))))"

section \<open>The client\<close>

record api_annotation =
  aa_id :: "int option"
  aa_title :: "string option"
  aa_content :: "string option"
  aa_start :: int
  aa_end :: "int option"
  aa_stream :: "int option"

text \<open>\<open>__eq__\<close> compares neither ids nor streams.\<close>

definition same_annotation :: "api_annotation \<Rightarrow> api_annotation \<Rightarrow> bool" where
  "same_annotation a b =
     (aa_title a = aa_title b \<and> aa_content a = aa_content b \<and> aa_start a = aa_start b \<and> aa_end a = aa_end b)"

definition api_annotation_from_json :: "annotation \<Rightarrow> api_annotation" where
  "api_annotation_from_json j =
     \<lparr>aa_id = Some (an_id j), aa_title = an_title j, aa_content = an_content j, aa_start = an_start j,
      aa_end = an_end j, aa_stream = Some (an_stream j)\<rparr>"

definition create_body :: "api_annotation \<Rightarrow> int annotation_json" where
  "create_body a = \<lparr>aj_title = Some (aa_title a), aj_content = Some (aa_content a), aj_start = Some (aa_start a),
     aj_end = Some (aa_end a)\<rparr>"

definition update_body :: "api_annotation \<Rightarrow> int annotation_json" where
  "update_body a = \<lparr>aj_title = Some (aa_title a), aj_content = Some (aa_content a), aj_start = None, aj_end = None\<rparr>"

definition client_create :: "(int \<Rightarrow> int res) \<Rightarrow> (int \<Rightarrow> int) \<Rightarrow> int \<Rightarrow> locator \<Rightarrow> api_annotation
    \<Rightarrow> ('f, api_annotation) annotation_request" where
  "client_create to_us read_back now l a =
     seqA (annotation_create to_us read_back now l (create_body a)) (\<lambda>j. pureA (api_annotation_from_json j))"

definition bound_query :: "int option \<Rightarrow> int option \<Rightarrow> settings" where
  "bound_query start fin =
     (case start of None \<Rightarrow> [] | Some s \<Rightarrow> [(''start'', int_str s)]) @ (case fin of None \<Rightarrow> [] | Some e \<Rightarrow> [(''end'', int_str e)])"

definition client_get :: "(int \<Rightarrow> int) \<Rightarrow> (int \<Rightarrow> int res) \<Rightarrow> int \<Rightarrow> (string \<Rightarrow> int option) \<Rightarrow> int \<Rightarrow> int option \<Rightarrow> int option
    \<Rightarrow> ('f, api_annotation list) annotation_request" where
  "client_get read_back of_us now pg_int stream start fin =
     seqA (annotation_index read_back of_us now pg_int [int_str stream] [] (bound_query start fin))
       (\<lambda>js. pureA (map api_annotation_from_json js))"

section \<open>The table stays well-formed\<close>

text \<open>Ids are unique, every annotation has a title, and a range starts before it ends.\<close>

definition annotation_ok :: "annotation \<Rightarrow> bool" where
  "annotation_ok a = (\<not> no_title a \<and> (case an_end a of None \<Rightarrow> True | Some e \<Rightarrow> an_start a < e))"

definition annotations_ok :: "annotation_table \<Rightarrow> bool" where
  "annotations_ok t = (distinct (map an_id (at_rows t)) \<and> (\<forall>a \<in> set (at_rows t). annotation_ok a \<and> an_id a \<le> at_seq t))"

lemma annotations_ok_filter: "annotations_ok t \<Longrightarrow> annotations_ok (t\<lparr>at_rows := filter P (at_rows t)\<rparr>)"
  by (auto simp: annotations_ok_def distinct_map_filter)

lemma update_annotation_times [simp]:
  "an_start (update_annotation b a) = an_start a" "an_end (update_annotation b a) = an_end a" "an_id (update_annotation b a) = an_id a"
  by (simp_all add: update_annotation_def Let_def split: option.split)

lemma annotation_ok_update: "\<lbrakk>annotation_ok a; \<not> no_title (update_annotation b a)\<rbrakk> \<Longrightarrow> annotation_ok (update_annotation b a)"
  by (auto simp: annotation_ok_def split: option.splits)

lemma in_catalogue_table: "in_catalogue h st = (r, st') \<Longrightarrow> snd st' = snd st"
  by (auto simp: in_catalogue_def split: prod.splits)

lemma check_new_ok: "check_new_annotation r = Inr a \<Longrightarrow> annotation_ok a"
  by (auto simp: check_new_annotation_def annotation_ok_def not_le split: sum.splits exn.splits if_splits option.splits)

lemma add_annotation_ok:
  assumes "annotations_ok t" "annotation_ok a"
  shows "annotations_ok (snd (add_annotation i a t))"
proof -
  have new: "annotation_ok (a\<lparr>an_id := at_seq t + 1, an_stream := i\<rparr>)"
    using assms(2) by (auto simp: annotation_ok_def no_title_def split: option.splits)
  have old: "\<forall>x \<in> set (at_rows t). annotation_ok x \<and> an_id x < at_seq t + 1" "distinct (map an_id (at_rows t))"
    using assms(1) by (auto simp: annotations_ok_def)
  then have "at_seq t + 1 \<notin> an_id ` set (at_rows t)" by auto
  then show ?thesis using old new by (auto simp: add_annotation_def annotations_ok_def Let_def less_imp_le)
qed

lemma create_ok: "\<lbrakk>annotations_ok (snd st); annotation_create to_us rb now l body st = (r, st')\<rbrakk> \<Longrightarrow> annotations_ok (snd st')"
  by (auto simp: annotation_create_def seqA_def raiseA_def dest!: in_catalogue_table
      split: prod.splits sum.splits intro: add_annotation_ok check_new_ok) (metis add_annotation_ok check_new_ok snd_conv)+

lemma update_ok: "\<lbrakk>annotations_ok (snd st); annotation_update rb key body st = (r, st')\<rbrakk> \<Longrightarrow> annotations_ok (snd st')"
proof -
  assume ok: "annotations_ok (snd st)" and u: "annotation_update rb key body st = (r, st')"
  show "annotations_ok (snd st')"
  proof (cases "Option.bind key (\<lambda>i. List.find (\<lambda>a. an_id a = i) (at_rows (snd st)))")
    case None
    then show ?thesis using u ok by (cases key) (auto simp: annotation_update_def)
  next
    case (Some a)
    then obtain i where k: "key = Some i" and f: "List.find (\<lambda>a. an_id a = i) (at_rows (snd st)) = Some a"
      by (auto simp: bind_eq_Some_conv)
    have i: "a \<in> set (at_rows (snd st))" "an_id a = i" using f by (auto simp: find_Some_iff)
    show ?thesis
    proof (cases "no_title (update_annotation body a)")
      case True
      then show ?thesis using u ok k f by (simp add: annotation_update_def)
    next
      case False
      let ?up = "\<lambda>x. if an_id x = i then update_annotation body x else x"
      have s: "snd st' = (snd st)\<lparr>at_rows := map ?up (at_rows (snd st))\<rparr>"
        using u k f False by (auto simp: annotation_update_def)
      have eq: "x = a" if "x \<in> set (at_rows (snd st))" "an_id x = i" for x
        using ok i that by (auto simp: annotations_ok_def distinct_map dest: inj_onD)
      have m: "map an_id (map ?up (at_rows (snd st))) = map an_id (at_rows (snd st))" by simp
      have "annotation_ok (?up x) \<and> an_id (?up x) \<le> at_seq (snd st)" if x: "x \<in> set (at_rows (snd st))" for x
        using ok x False eq [OF x] by (cases "an_id x = i") (auto simp: annotations_ok_def intro: annotation_ok_update)
      then have "\<forall>y \<in> ?up ` set (at_rows (snd st)). annotation_ok y \<and> an_id y \<le> at_seq (snd st)" by blast
      then show ?thesis using ok m unfolding annotations_ok_def s
        by (simp del: map_map if_image_distrib)
    qed
  qed
qed

lemma delete_ok: "\<lbrakk>annotations_ok (snd st); annotation_delete pg_int q st = (r, st')\<rbrakk> \<Longrightarrow> annotations_ok (snd st')"
  by (auto simp: annotation_delete_def annotations_ok_filter split: option.splits if_splits)

lemma delete_all_ok: "\<lbrakk>annotations_ok (snd st); annotation_delete_all of_us now pg_int q st = (r, st')\<rbrakk> \<Longrightarrow> annotations_ok (snd st')"
  by (auto simp: annotation_delete_all_def annotations_ok_filter dest!: in_catalogue_table
      split: prod.splits sum.splits exn.splits)

section \<open>What a client creates it gets back\<close>

text \<open>The times of an annotation pass through the conversions unchanged, to the stored times.\<close>

definition exact_times :: "(int \<Rightarrow> int res) \<Rightarrow> (int \<Rightarrow> int) \<Rightarrow> api_annotation \<Rightarrow> int \<Rightarrow> int option \<Rightarrow> bool" where
  "exact_times to_us read_back a u v =
     (to_us (aa_start a) = Inr u \<and> read_back u = aa_start a
      \<and> (case (aa_end a, v) of
           (None, None) \<Rightarrow> True
         | (Some e, Some w) \<Rightarrow> to_us e = Inr w \<and> read_back w = e \<and> u < w
         | _ \<Rightarrow> False))"

definition titled :: "api_annotation \<Rightarrow> bool" where
  "titled a = (aa_title a \<noteq> None \<and> aa_title a \<noteq> Some '''')"

definition stored_annotation :: "int \<Rightarrow> int \<Rightarrow> api_annotation \<Rightarrow> int \<Rightarrow> int option \<Rightarrow> annotation" where
  "stored_annotation key stream a u v =
     \<lparr>an_id = key, an_title = aa_title a, an_content = aa_content a, an_start = u, an_end = v, an_stream = stream\<rparr>"

definition received :: "(int \<Rightarrow> int) \<Rightarrow> annotation \<Rightarrow> api_annotation" where
  "received read_back a = api_annotation_from_json (annotation_to_json read_back a)"

lemma received_same: "exact_times to_us rb a u v \<Longrightarrow> same_annotation a (received rb (stored_annotation k i a u v))"
  by (auto simp: exact_times_def same_annotation_def received_def stored_annotation_def api_annotation_from_json_def
      annotation_to_json_def split: option.splits)

lemma created:
  assumes "locate_data now ''specify a stream_id'' l t = (Inr s, t')" "titled a" "exact_times to_us rb a u v"
  shows "client_create to_us rb now l a (t, tbl)
    = (Inr (received rb (stored_annotation (at_seq tbl + 1) (ds_id s) a u v)),
       (t', \<lparr>at_rows = at_rows tbl @ [stored_annotation (at_seq tbl + 1) (ds_id s) a u v], at_seq = at_seq tbl + 1\<rparr>))"
proof -
  have c: "check_new_annotation (annotation_from_json to_us (create_body a)) = Inr (stored_annotation 0 0 a u v)"
    using assms(2,3)
    by (auto simp: titled_def exact_times_def annotation_from_json_def create_body_def value_error_def check_new_annotation_def
        no_title_def stored_annotation_def split: option.splits)
  show ?thesis
    using assms(1) c by (simp add: client_create_def annotation_create_def in_catalogue_def seqA_def add_annotation_def
        stored_annotation_def received_def Let_def pureA_def)
qed

lemma got:
  assumes "pg_int (int_str i) = Some i" "parse_time_bounds of_us (bound_query start fin) = Inr b"
  shows "client_get rb of_us now pg_int i start fin (t, tbl) = (Inr (map (received rb) (select_annotations i b tbl)), (t, tbl))"
  using assms by (simp add: client_get_def annotation_index_def seqA_def pureA_def received_def comp_def)

lemma parse_bound_query:
  "parse_time_bounds of_us (bound_query start fin) =
     (case bindE (case start of None \<Rightarrow> Inr None | Some s \<Rightarrow> bindE (of_us s) (\<lambda>t. Inr (Some t))) (\<lambda>a.
           bindE (case fin of None \<Rightarrow> Inr None | Some e \<Rightarrow> bindE (of_us e) (\<lambda>t. Inr (Some t))) (\<lambda>e. Inr (a, e))) of
        Inl PyValueError \<Rightarrow> Inl (HTTPBadRequest ''[start] and [end] must be microsecond utc timestamps'')
      | r \<Rightarrow> r)"
proof -
  have "map_of (bound_query start fin) ''start'' = map_option int_str start" "map_of (bound_query start fin) ''end'' = map_option int_str fin"
    by (cases start; cases fin; simp add: bound_query_def)+
  then show ?thesis by (cases start; cases fin) (simp_all add: parse_time_bounds_def parse_bound_def py_int_str)
qed


text \<open>Removing the annotations of a range leaves none there and all others.\<close>

lemma deleted_all:
  assumes "query_locator pg_int q = Inr l" "locate_data now ''must specify an id or a path'' l t = (Inr s, t')"
    and "parse_time_bounds of_us q = Inr b"
  shows "\<exists>tbl'. annotation_delete_all of_us now pg_int q (t, tbl) = (Inr (), (t', tbl')) \<and> select_annotations (ds_id s) b tbl' = []
    \<and> (i \<noteq> ds_id s \<longrightarrow> select_annotations i c tbl' = select_annotations i c tbl)"
  using assms by (auto simp: annotation_delete_all_def in_catalogue_def select_annotations_def filter_empty_conv intro!: filter_cong)

definition demo_annotation :: api_annotation where
  "demo_annotation = \<lparr>aa_id = None, aa_title = Some ''on'', aa_content = Some '''', aa_start = 5, aa_end = Some 9, aa_stream = None\<rparr>"

definition demo_annotation_session :: "int session" where
  "demo_annotation_session = \<lparr>se_db = demo_catalog, se_work = demo_catalog, se_destroyed = [], se_created = []\<rparr>"


end
