(* ===== verification/Client_API.thy ===== *)
theory Client_API
  imports Data_API
begin

text \<open>
  The client's side of the requests on data streams: \<open>api/data_stream.py\<close> with its own classes for streams and
  elements, the parameters it puts into a request for each way to name a stream or a folder, and what
  the handlers of the server make of them.  Elements travel as JSON in both directions; the class of the
  client has one attribute for each key.
\<close>

section \<open>Streams and elements of the client\<close>

record 'f api_element =
  ae_id :: "int option"
  ae_index :: nat
  ae_name :: string
  ae_units :: "string option"
  ae_plottable :: "bool option"
  ae_display_type :: string
  ae_offset :: 'f
  ae_scale_factor :: 'f
  ae_default_max :: "'f option"
  ae_default_min :: "'f option"

definition api_element_to_json :: "'f api_element \<Rightarrow> 'f element_json" where
  "api_element_to_json e =
     \<lparr>ej_id = ae_id e, ej_index = ae_index e, ej_name = ae_name e, ej_units = ae_units e, ej_plottable = ae_plottable e,
      ej_display_type = ae_display_type e, ej_offset = ae_offset e, ej_scale_factor = ae_scale_factor e,
      ej_default_max = ae_default_max e, ej_default_min = ae_default_min e\<rparr>"

definition elem_from_json :: "'f element_json \<Rightarrow> 'f api_element" where
  "elem_from_json j =
     \<lparr>ae_id = ej_id j, ae_index = ej_index j, ae_name = ej_name j, ae_units = ej_units j, ae_plottable = ej_plottable j,
      ae_display_type = ej_display_type j, ae_offset = ej_offset j, ae_scale_factor = ej_scale_factor j,
      ae_default_max = ej_default_max j, ae_default_min = ej_default_min j\<rparr>"

record 'f api_stream =
  as_id :: "int option"
  as_name :: "string option"
  as_description :: "string option"
  as_datatype :: string
  as_keep_us :: int
  as_is_configured :: bool
  as_is_source :: "bool option"
  as_is_destination :: "bool option"
  as_locked :: bool
  as_active :: bool
  as_decimate :: bool
  as_elements :: "'f api_element list"

text \<open>The JSON of a stream with the keys that only the client reads.\<close>

record 'f full_stream_json = "'f stream_json" +
  fj_locked :: bool
  fj_active :: bool

definition full_to_json :: "'f data_stream \<Rightarrow> 'f full_stream_json" where
  "full_to_json s = stream_json.extend (stream_to_json s) (full_stream_json.fields (ds_locked s) (ds_active s))"

definition api_stream_from_json :: "'f full_stream_json \<Rightarrow> 'f api_stream" where
  "api_stream_from_json j =
     \<lparr>as_id = Some (sj_id j), as_name = sj_name j, as_description = sj_description j, as_datatype = sj_datatype j,
      as_keep_us = sj_keep_us j, as_is_configured = sj_is_configured j, as_is_source = sj_is_source j,
      as_is_destination = sj_is_destination j, as_locked = fj_locked j, as_active = fj_active j,
      as_decimate = sj_decimate j, as_elements = map elem_from_json (sj_elements j)\<rparr>"

text \<open>A stream without an id has a null there, which no handler reads; the model puts zero.\<close>

definition api_stream_to_json :: "'f api_stream \<Rightarrow> 'f full_stream_json" where
  "api_stream_to_json s =
     \<lparr>sj_id = (case as_id s of None \<Rightarrow> 0 | Some i \<Rightarrow> i), sj_name = as_name s, sj_description = as_description s,
      sj_datatype = as_datatype s, sj_keep_us = as_keep_us s, sj_decimate = as_decimate s,
      sj_is_configured = as_is_configured s, sj_is_source = as_is_source s, sj_is_destination = as_is_destination s,
      sj_elements = map api_element_to_json (as_elements s), fj_locked = as_locked s, fj_active = as_active s\<rparr>"

definition api_stream_layout :: "'f api_stream \<Rightarrow> string" where
  "api_stream_layout s = py_lower (as_datatype s) @ ''_'' @ nat_str (length (as_elements s))"

definition api_id :: "int option \<Rightarrow> int res" where
  "api_id i = (case i of None \<Rightarrow> Inl (ApiError ''this is a local model with no ID. See API docs'') | Some i \<Rightarrow> Inr i)"

section \<open>Parameters of the requests\<close>

text \<open>A stream or a folder is given as an object of the client with its id, a number or a path.\<close>

datatype reference = Object "int option" | Number int | Path string | Other

datatype param_value = PInt int | PStr string

type_synonym params = "(string \<times> param_value) list"

definition ref_params :: "exn \<Rightarrow> string \<Rightarrow> string \<Rightarrow> reference \<Rightarrow> params res" where
  "ref_params e id_key path_key r =
     (case r of
        Object i \<Rightarrow> bindE (api_id i) (\<lambda>i. Inr [(id_key, PInt i)])
      | Number i \<Rightarrow> Inr [(id_key, PInt i)]
      | Path p \<Rightarrow> Inr [(path_key, PStr p)]
      | Other \<Rightarrow> Inl e)"

definition invalid_stream :: exn where
  "invalid_stream = ApiError ''Invalid stream datatype. Must be DataStream, Path, or ID''"

definition stream_delete_params :: "reference \<Rightarrow> params res" where
  "stream_delete_params r = ref_params invalid_stream ''id'' ''path'' r"

definition stream_info_params :: "reference \<Rightarrow> params res" where
  "stream_info_params r = ref_params invalid_stream ''id'' ''path'' r"

definition stream_get_params :: "reference \<Rightarrow> params res" where
  "stream_get_params r = bindE (ref_params invalid_stream ''id'' ''path'' r) (\<lambda>ps. Inr (ps @ [(''no-info'', PStr '''')]))"

definition stream_create_params :: "reference \<Rightarrow> params res" where
  "stream_create_params folder =
     ref_params (ApiError ''Invalid folder datatype. Must be Folder, Path, or ID'') ''dest_id'' ''dest_path'' folder"

definition stream_move_params :: "reference \<Rightarrow> reference \<Rightarrow> params res" where
  "stream_move_params source dest =
     bindE (ref_params (ApiError ''Invalid source datatype. Must be DataStream, Path, or ID'') ''src_id'' ''src_path'' source) (\<lambda>ps.
     bindE (ref_params (ApiError ''Invalid destination datatype. Must be Folder, Path, or ID'') ''dest_id'' ''dest_path'' dest) (\<lambda>qs.
     Inr (ps @ qs)))"

definition stream_annotation_delete_params :: "reference \<Rightarrow> int option \<Rightarrow> int option \<Rightarrow> params res" where
  "stream_annotation_delete_params r start fin =
     bindE (ref_params (ApiError ''Invalid source datatype. Must be DataStream, Path, or ID'') ''stream_id'' ''stream_path'' r) (\<lambda>ps.
     Inr ((case start of None \<Rightarrow> [] | Some s \<Rightarrow> [(''start'', PInt s)]) @ (case fin of None \<Rightarrow> [] | Some e \<Rightarrow> [(''end'', PInt e)]) @ ps))"

section \<open>Answers\<close>

text \<open>
  The client's view of a failed request: the text of the answer and its status.
\<close>

definition answer_text :: "exn \<Rightarrow> string" where
  "answer_text e =
     (case e of
        HTTPBadRequest m \<Rightarrow> ''400: '' @ m
      | HTTPNotFound m \<Rightarrow> ''404: '' @ m
      | HTTPForbidden \<Rightarrow> ''403: Forbidden''
      | _ \<Rightarrow> ''500 Internal Server Error'')"

definition api_failure :: "exn \<Rightarrow> exn" where
  "api_failure e =
     (case e of
        ApiError m \<Rightarrow> ApiError m
      | _ \<Rightarrow> ApiError (answer_text e @ '' ['' @ take 3 (answer_text e) @ '']''))"

definition api :: "('s, 'a) act \<Rightarrow> ('s, 'a) act" where
  "api h s = (case h s of (Inl e, s') \<Rightarrow> (Inl (api_failure e), s') | r \<Rightarrow> r)"

section \<open>What the handlers read\<close>

text \<open>In a URL every value is a string; in a JSON body a number stays one.\<close>

definition as_query :: "params \<Rightarrow> settings" where
  "as_query ps = map (\<lambda>(k, v). (k, case v of PInt i \<Rightarrow> int_str i | PStr s \<Rightarrow> s)) ps"

definition body_locator :: "string \<Rightarrow> string \<Rightarrow> params \<Rightarrow> locator" where
  "body_locator path_key id_key ps =
     (case map_of ps path_key of
        Some (PStr p) \<Rightarrow> ByPath p
      | Some (PInt i) \<Rightarrow> ByPath (int_str i)
      | None \<Rightarrow> (case map_of ps id_key of Some (PInt i) \<Rightarrow> ById i | _ \<Rightarrow> Unspecified))"

text \<open>\<open>info\<close>, for a client that does not want the description of the data.\<close>

definition serve_stream_info :: "int \<Rightarrow> (string \<Rightarrow> int option) \<Rightarrow> settings \<Rightarrow> ('f, 'f full_stream_json) handler" where
  "serve_stream_info now pg_int q = seqA (get_stream now pg_int q) (\<lambda>s. pureA (full_to_json s))"

text \<open>A client's call: its own error, or the request and what it makes of the answer.\<close>

definition client_call :: "params res \<Rightarrow> (params \<Rightarrow> ('f, 'a) handler) \<Rightarrow> ('f, 'a) handler" where
  "client_call ps h = (case ps of Inl e \<Rightarrow> raiseA e | Inr ps \<Rightarrow> h ps)"

definition client_stream_get :: "int \<Rightarrow> (string \<Rightarrow> int option) \<Rightarrow> reference \<Rightarrow> ('f, 'f api_stream) handler" where
  "client_stream_get now pg_int r =
     client_call (stream_get_params r)
       (\<lambda>ps. seqA (serve_stream_info now pg_int (as_query ps)) (\<lambda>j. pureA (api_stream_from_json j)))"

text \<open>The answer to a creation is the stream as it is in the catalogue afterwards.\<close>

definition post_stream :: "int \<Rightarrow> 'f full_stream_json \<Rightarrow> reference \<Rightarrow> ('f, 'f api_stream) handler" where
  "post_stream now j folder =
     client_call (stream_create_params folder)
       (\<lambda>ps. seqA (stream_create now (Some (Inr (stream_json.truncate j))) (body_locator ''dest_path'' ''dest_id'' ps)) (\<lambda>_.
             view (\<lambda>c. case get_data c (ct_data_seq c) of
               None \<Rightarrow> raiseA PyAttributeError
             | Some s \<Rightarrow> pureA (api_stream_from_json (full_to_json s)))))"

definition client_stream_create :: "int \<Rightarrow> 'f api_stream \<Rightarrow> reference \<Rightarrow> ('f, 'f api_stream) handler" where
  "client_stream_create now s folder = post_stream now (api_stream_to_json s) folder"

definition client_stream_move :: "int \<Rightarrow> reference \<Rightarrow> reference \<Rightarrow> ('f, unit) handler" where
  "client_stream_move now source dest =
     client_call (stream_move_params source dest)
       (\<lambda>ps. stream_move now (body_locator ''src_path'' ''src_id'' ps) (body_locator ''dest_path'' ''dest_id'' ps))"

text \<open>The handler of a deletion looks for its stream as \<open>info\<close> does.\<close>

definition query_stream_locator :: "(string \<Rightarrow> int option) \<Rightarrow> settings \<Rightarrow> locator" where
  "query_stream_locator pg_int q =
     (case map_of q ''path'' of Some p \<Rightarrow> ByPath p | None \<Rightarrow> (case Option.bind (map_of q ''id'') pg_int of Some i \<Rightarrow> ById i | None \<Rightarrow> Unspecified))"

definition client_stream_delete :: "int \<Rightarrow> (string \<Rightarrow> int option) \<Rightarrow> reference \<Rightarrow> ('f, unit) handler" where
  "client_stream_delete now pg_int r =
     client_call (stream_delete_params r) (\<lambda>ps. stream_delete now (query_stream_locator pg_int (as_query ps)))"

text \<open>\<open>info\<close> with the description of the data; the size of the tables is known to the database only.\<close>

record stream_info =
  si_start :: "int option"
  si_end :: "int option"
  si_rows :: nat
  si_total_time :: int

definition store_info :: "'v tstore \<Rightarrow> stream_info" where
  "store_info t =
     (let ts = map fst (table_rows t); a = list_min ts; e = list_max ts
      in \<lparr>si_start = a, si_end = e, si_rows = length ts,
          si_total_time = (case (a, e) of (Some a, Some e) \<Rightarrow> e - a | _ \<Rightarrow> 0)\<rparr>)"

definition client_stream_info :: "int \<Rightarrow> (string \<Rightarrow> int option) \<Rightarrow> reference \<Rightarrow> ('f, 'v, stream_info) data_request" where
  "client_stream_info now pg_int r =
     (case stream_info_params r of
        Inl e \<Rightarrow> raiseA e
      | Inr ps \<Rightarrow> seqA (in_session (get_stream now pg_int (as_query ps))) (\<lambda>s st. (Inr (store_info (snd st (ds_id s))), st)))"

definition interval_params :: "reference \<Rightarrow> int option \<Rightarrow> int option \<Rightarrow> params res" where
  "interval_params r start fin =
     bindE (ref_params invalid_stream ''id'' ''path'' r) (\<lambda>ps.
     Inr (ps @ (case start of None \<Rightarrow> [] | Some s \<Rightarrow> [(''start'', PInt s)]) @ (case fin of None \<Rightarrow> [] | Some e \<Rightarrow> [(''end'', PInt e)])))"

definition client_data_intervals :: "int \<Rightarrow> (string \<Rightarrow> int option) \<Rightarrow> reference \<Rightarrow> int option \<Rightarrow> int option
    \<Rightarrow> ('f, 'v, interval list) data_request" where
  "client_data_intervals now pg_int r start fin =
     (case interval_params r start fin of Inl e \<Rightarrow> raiseA e | Inr ps \<Rightarrow> data_intervals now pg_int (as_query ps))"

end
