(* ===== verification/Data_Copy.thy ===== *)
theory Data_Copy
  imports Client_API Annotations
begin

text \<open>
  Copying a stream from one node to another: \<open>cli/data/copy.py\<close>.  The copier asks both nodes for their intervals,
  takes those of the source that the destination lacks, and passes the rows of each through a pipe into a
  request to the destination; then it adds the annotations that are missing there.  A node is the state its
  handlers work on; nodes have names, and source and destination may be the same node.
\<close>

section \<open>Nodes and requests\<close>

record ('g, 'f) node =
  nd_session :: "'g session"
  nd_tables :: "int \<Rightarrow> 'f list tstore"
  nd_notes :: annotation_table

type_synonym ('g, 'f) world = "string \<Rightarrow> ('g, 'f) node"
type_synonym ('g, 'f, 'a) call = "(('g, 'f) world, 'a) act"

text \<open>
  What surrounds the program: the parameters of the handlers, numpy's conversion of the values of a row to bytes and
  back, and the connection, which delivers the bytes of a body in pieces.
\<close>

record 'f copy_env =
  ce_fuel :: nat
  ce_now :: int
  ce_pg_int :: "string \<Rightarrow> int option"
  ce_block_size :: nat
  ce_buffer_size :: nat
  ce_np :: "kind \<Rightarrow> int \<Rightarrow> int \<Rightarrow> dtype res"
  ce_enc :: "'f drow \<Rightarrow> row"
  ce_dec :: "row \<Rightarrow> 'f drow"
  ce_cut :: "byte list \<Rightarrow> reader"
  ce_fns :: "'f dec_fns"
  ce_nan :: "'f \<Rightarrow> bool"
  ce_drop :: "int \<Rightarrow> 'f drow list \<Rightarrow> 'f drow list"
  ce_cleanup :: nat
  ce_to_us :: "int \<Rightarrow> int res"
  ce_of_us :: "int \<Rightarrow> int res"
  ce_read_back :: "int \<Rightarrow> int"

definition on_catalogue :: "string \<Rightarrow> ('g, 'a) handler \<Rightarrow> ('g, 'f, 'a) call" where
  "on_catalogue k h w = (case h (nd_session (w k)) of (r, s) \<Rightarrow> (r, w(k := (w k)\<lparr>nd_session := s\<rparr>)))"

definition on_data :: "string \<Rightarrow> ('g, 'f list, 'a) data_request \<Rightarrow> ('g, 'f, 'a) call" where
  "on_data k h w =
     (case h (nd_session (w k), nd_tables (w k)) of (r, (s, t)) \<Rightarrow> (r, w(k := (w k)\<lparr>nd_session := s, nd_tables := t\<rparr>)))"

definition on_notes :: "string \<Rightarrow> ('g, 'a) annotation_request \<Rightarrow> ('g, 'f, 'a) call" where
  "on_notes k h w =
     (case h (nd_session (w k), nd_notes (w k)) of (r, (s, t)) \<Rightarrow> (r, w(k := (w k)\<lparr>nd_session := s, nd_notes := t\<rparr>)))"

section \<open>The streams\<close>

definition retrieve_source :: "'f copy_env \<Rightarrow> string \<Rightarrow> string \<Rightarrow> ('g, 'f, 'g api_stream) call" where
  "retrieve_source E k path =
     seqA (api (on_catalogue k (client_stream_get (ce_now E) (ce_pg_int E) (Path path)))) (\<lambda>s.
     seqA (api (on_data k (client_stream_info (ce_now E) (ce_pg_int E) (Path path)))) (\<lambda>info.
     if si_start info = None \<or> si_end info = None then raiseA (ApiError ''[%s] has no data'') else pureA s))"

definition create_joule_stream :: "'f copy_env \<Rightarrow> string \<Rightarrow> string \<Rightarrow> 'g api_stream \<Rightarrow> ('g, 'f, 'g api_stream) call" where
  "create_joule_stream E k path template =
     (case stream_from_json (ce_now E) (stream_json.truncate (api_stream_to_json template)) of
        Inl e \<Rightarrow> raiseA e
      | Inr s \<Rightarrow>
          (let names = py_split (CHR ''/'') path
           in api (on_catalogue k (post_stream (ce_now E)
                (full_to_json (s\<lparr>ds_keep_us := -1, ds_name := last names\<rparr>)) (Path (py_join ''/'' (butlast names)))))))"

definition retrieve_destination :: "'f copy_env \<Rightarrow> string \<Rightarrow> string \<Rightarrow> 'g api_stream \<Rightarrow> ('g, 'f, 'g api_stream) call" where
  "retrieve_destination E k path template w =
     (case api (on_catalogue k (client_stream_get (ce_now E) (ce_pg_int E) (Path path))) w of
        (Inl (ApiError m), w') \<Rightarrow>
          if occurs_in ''404'' m then create_joule_stream E k path template w' else (Inl (ApiError m), w')
      | r \<Rightarrow> r)"

definition sorted_elements :: "'g api_stream \<Rightarrow> 'g api_element list" where
  "sorted_elements s = sort_key ae_index (as_elements s)"

definition elements_differ :: "'g api_stream \<Rightarrow> 'g api_stream \<Rightarrow> bool" where
  "elements_differ a b =
     list_ex (\<lambda>(x, y). ae_name x \<noteq> ae_name y \<or> ae_units x \<noteq> ae_units y) (zip (sorted_elements a) (sorted_elements b))"

section \<open>The bounds\<close>

text \<open>The library that reads dates is the parameter \<open>parse\<close>.\<close>

definition human_to_timestamp :: "(string \<Rightarrow> int option) \<Rightarrow> string \<Rightarrow> int res" where
  "human_to_timestamp parse t =
     (case py_int t of Some i \<Rightarrow> Inr i | None \<Rightarrow> (case parse t of None \<Rightarrow> Inl PyValueError | Some i \<Rightarrow> Inr i))"

definition parse_time :: "(string \<Rightarrow> int option) \<Rightarrow> string \<Rightarrow> string option \<Rightarrow> int option res" where
  "parse_time parse msg t =
     (case t of
        None \<Rightarrow> Inr None
      | Some t \<Rightarrow> (case human_to_timestamp parse t of Inl _ \<Rightarrow> Inl (ApiError msg) | Inr i \<Rightarrow> Inr (Some i)))"

definition copy_bounds :: "(string \<Rightarrow> int option) \<Rightarrow> bool \<Rightarrow> string option \<Rightarrow> string option \<Rightarrow> (int option \<times> int option) res" where
  "copy_bounds parse new start fin =
     (if new \<and> start \<noteq> None then Inl (ClickException ''Error: either specify 'new' or a starting timestamp, not both'')
      else
        bindE (parse_time parse ''invalid start time: [%s]'' start) (\<lambda>a.
        bindE (parse_time parse ''invalid end time: [%s]'' fin) (\<lambda>e.
        case (a, e) of
          (Some x, Some y) \<Rightarrow>
            if y - x \<le> 0 then Inl (ClickException ''Error: start [%s] must be before end [%s]'') else Inr (a, e)
        | _ \<Rightarrow> Inr (a, e))))"

section \<open>The data of an interval\<close>

text \<open>\<open>_data_sender\<close>: the parts of the body; interval marks are not passed on.\<close>

fun copy_sender :: "nat \<Rightarrow> ('p \<Rightarrow> bool res option \<times> 'p) \<Rightarrow> ('p \<Rightarrow> row list res option \<times> 'p)
    \<Rightarrow> ('p \<Rightarrow> int \<Rightarrow> unit res \<times> 'p) \<Rightarrow> byte list list \<Rightarrow> 'p \<Rightarrow> (unit res \<times> byte list list) option" where
  "copy_sender 0 is_empty rd consume out p = None"
| "copy_sender (Suc n) is_empty rd consume out p =
     (case is_empty p of
        (None, p) \<Rightarrow> None
      | (Some (Inl e), p) \<Rightarrow> Some (Inl e, out)
      | (Some (Inr True), p) \<Rightarrow> Some (Inr (), out)
      | (Some (Inr False), p) \<Rightarrow>
          (case rd p of
             (None, p) \<Rightarrow> None
           | (Some (Inl e), p) \<Rightarrow> Some (Inl e, out)
           | (Some (Inr data), p) \<Rightarrow>
               (case consume p (int (length data)) of
                  (Inl e, p) \<Rightarrow> Some (Inl e, out)
                | (Inr _, p) \<Rightarrow> copy_sender n is_empty rd consume (if data \<noteq> [] then out @ [concat data] else out) p)))"

text \<open>What the server sends for the blocks of an extraction, and what its inserter reads from a body.\<close>

definition wire_bytes :: "dtype \<Rightarrow> ('f drow \<Rightarrow> row) \<Rightarrow> 'f list block list \<Rightarrow> byte list" where
  "wire_bytes d enc bs = concat (map (\<lambda>i. case i of None \<Rightarrow> zero_row d | Some r \<Rightarrow> enc r) (concat bs))"

fun read_turns :: "nat \<Rightarrow> int \<Rightarrow> (row \<Rightarrow> 'f drow) \<Rightarrow> input_pipe \<Rightarrow> (fault \<times> int \<times> 'f drow list \<times> bool) list" where
  "read_turns 0 now dec p = []"
| "read_turns (Suc n) now dec p =
     (case ip_read p of
        (Inl e, p) \<Rightarrow> []
      | (Inr data, p) \<Rightarrow>
          (No_Fault, now, map dec data, ip_end_of_interval p) # read_turns n now dec (snd (ip_consume p (int (length data)))))"

definition stream_pipe :: "'f copy_env \<Rightarrow> dtype \<Rightarrow> byte list \<Rightarrow> input_pipe" where
  "stream_pipe E d bytes = input_pipe_init d (ce_buffer_size E) (Some (ce_cut E bytes)) [] False"

definition insert_body :: "'f copy_env \<Rightarrow> byte list list \<Rightarrow> 'g data_stream \<Rightarrow> int \<Rightarrow> 'f list tstore \<Rightarrow> unit res \<times> 'f list tstore" where
  "insert_body E parts s gap t =
     (case compute_dtype (ce_np E) (ds_layout s) of
        Inl e \<Rightarrow> (Inl e, t)
      | Inr d \<Rightarrow>
          (case ins_run (ce_fns E) (ce_nan E) (ce_drop E)
                  \<lparr>ic_decimate = ds_decimate s, ic_keep_us = ds_keep_us s, ic_merge_gap = gap, ic_cleanup_interval = ce_cleanup E\<rparr>
                  (read_turns (ce_fuel E) (ce_now E) (ce_dec E) (stream_pipe E d (concat parts))) [] (ins_start t) of
             (r, st) \<Rightarrow> (r, in_store st)))"

definition number_params :: "(string \<times> int) list \<Rightarrow> settings" where
  "number_params ps = as_query (map (\<lambda>(k, v). (k, PInt v)) ps)"

text \<open>The body of the answer to a read of the source; \<open>None\<close> when there are no rows.\<close>

definition get_data_body :: "'f copy_env \<Rightarrow> string \<Rightarrow> int \<Rightarrow> int \<Rightarrow> int \<Rightarrow> ('g, 'f, byte list option) call" where
  "get_data_body E k i a e =
     seqA (\<lambda>w. case on_data k (data_read (ce_fuel E) (ce_block_size E) (\<lambda>_ _. 0) (\<lambda>_ _. 1) (ce_now E) (ce_pg_int E) False
                   (number_params [(''id'', i), (''start'', a), (''end'', e)])) w of
             (Inl x, w') \<Rightarrow> (Inl (ClickException ''Error reading from source: %s''), w')
           | r \<Rightarrow> r)
       (\<lambda>reply. case reply of
          BinaryData layout level bs \<Rightarrow>
            (case compute_dtype (ce_np E) layout of
               Inl x \<Rightarrow> raiseA x
             | Inr d \<Rightarrow> pureA (Some (wire_bytes d (ce_enc E) bs)))
        | _ \<Rightarrow> pureA None)"

definition post_data_body :: "'f copy_env \<Rightarrow> string \<Rightarrow> int \<Rightarrow> byte list list \<Rightarrow> ('g, 'f, unit) call" where
  "post_data_body E k i parts w =
     (case on_data k (data_write (ce_now E) (ce_pg_int E) (insert_body E parts) (number_params [(''id'', i)])) w of
        (Inl x, w') \<Rightarrow> (Inl (ApiError ''Error writing to destination: %s''), w')
      | r \<Rightarrow> r)"

text \<open>If the sender fails, the destination keeps what it got, and the sender's exception ends the copy.\<close>

definition copy_interval :: "'f copy_env \<Rightarrow> string \<Rightarrow> string \<Rightarrow> int \<Rightarrow> int \<Rightarrow> string \<Rightarrow> int \<Rightarrow> int \<Rightarrow> ('g, 'f, unit) call" where
  "copy_interval E k1 k2 i1 i2 layout a e =
     seqA (get_data_body E k1 i1 a e) (\<lambda>body.
     case body of
       None \<Rightarrow> pureA ()
     | Some bytes \<Rightarrow>
         (case compute_dtype (ce_np E) layout of
            Inl x \<Rightarrow> raiseA x
          | Inr d \<Rightarrow>
              (case copy_sender (ce_fuel E) ip_empty_call ip_read_call ip_consume [] (stream_pipe E d bytes) of
                 None \<Rightarrow> raiseA CancelledError
               | Some (Inr _, parts) \<Rightarrow> post_data_body E k2 i2 parts
               | Some (Inl x, parts) \<Rightarrow> (\<lambda>w. (Inl x, snd (post_data_body E k2 i2 parts w))))))"

section \<open>The copy\<close>

definition node_annotations :: "'f copy_env \<Rightarrow> string \<Rightarrow> int \<Rightarrow> int \<Rightarrow> int \<Rightarrow> ('g, 'f, api_annotation list) call" where
  "node_annotations E k i a e =
     api (on_notes k (client_get (ce_read_back E) (ce_of_us E) (ce_now E) (ce_pg_int E) i (Some a) (Some e)))"

definition node_annotate :: "'f copy_env \<Rightarrow> string \<Rightarrow> int \<Rightarrow> api_annotation \<Rightarrow> ('g, 'f, unit) call" where
  "node_annotate E k i a =
     seqA (api (on_notes k (client_create (ce_to_us E) (ce_read_back E) (ce_now E) (ById i) a))) (\<lambda>_. pureA ())"

definition copy_annotations :: "'f copy_env \<Rightarrow> string \<Rightarrow> string \<Rightarrow> int \<Rightarrow> int \<Rightarrow> int \<times> int \<Rightarrow> ('g, 'f, unit) call" where
  "copy_annotations E k1 k2 i1 i2 ivl =
     seqA (node_annotations E k1 i1 (fst ivl) (snd ivl)) (\<lambda>src.
     seqA (node_annotations E k2 i2 (fst ivl) (snd ivl)) (\<lambda>dest.
     eachA (node_annotate E k2 i2) (filter (\<lambda>a. \<not> list_ex (same_annotation a) dest) src)))"

definition node_intervals :: "'f copy_env \<Rightarrow> string \<Rightarrow> int \<Rightarrow> int option \<Rightarrow> int option \<Rightarrow> ('g, 'f, interval list) call" where
  "node_intervals E k i start fin =
     api (on_data k (client_data_intervals (ce_now E) (ce_pg_int E) (Object (Some i)) start fin))"

definition copy_data :: "'f copy_env \<Rightarrow> string \<Rightarrow> string \<Rightarrow> int \<Rightarrow> int \<Rightarrow> string \<Rightarrow> int option \<Rightarrow> int option \<Rightarrow> ('g, 'f, unit) call" where
  "copy_data E k1 k2 i1 i2 layout start fin =
     seqA (node_intervals E k1 i1 start fin) (\<lambda>src.
     seqA (node_intervals E k2 i2 start fin) (\<lambda>dest.
     let new = interval_difference src dest;
         existing = interval_difference src new;
         notes = copy_annotations E k1 k2 i1 i2
     in if new = [] then eachA notes src
        else seqA (eachA notes existing) (\<lambda>_.
             eachA (\<lambda>ivl. seqA (copy_interval E k1 k2 i1 i2 layout (fst ivl) (snd ivl)) (\<lambda>_. notes ivl)) new)))"

record copy_options =
  co_start :: "string option"
  co_end :: "string option"
  co_new :: bool
  co_destination_node :: "string option"

definition copy_run :: "'f copy_env \<Rightarrow> (string \<Rightarrow> int option) \<Rightarrow> (string \<Rightarrow> bool) \<Rightarrow> bool \<Rightarrow> string \<Rightarrow> copy_options
    \<Rightarrow> string \<Rightarrow> string \<Rightarrow> ('g, 'f, unit) call" where
  "copy_run E parse known confirm k1 opts src_path dest_path =
     (let k2 = (case co_destination_node opts of None \<Rightarrow> k1 | Some k \<Rightarrow> k)
      in if co_destination_node opts \<noteq> None \<and> \<not> known k2
         then raiseA (ClickException ''Error: cannot connect to destination node [%s]'')
         else
           seqA (retrieve_source E k1 src_path) (\<lambda>s1.
           seqA (retrieve_destination E k2 dest_path s1) (\<lambda>s2.
           if api_stream_layout s1 \<noteq> api_stream_layout s2
           then raiseA (ApiError ''Error: source (%s) and destination (%s) datatypes are not compatible'')
           else if elements_differ s1 s2 \<and> \<not> confirm then pureA ()
           else
             case bindE (copy_bounds parse (co_new opts) (co_start opts) (co_end opts)) (\<lambda>b.
                  bindE (api_id (as_id s1)) (\<lambda>i1. bindE (api_id (as_id s2)) (\<lambda>i2. Inr (b, i1, i2)))) of
               Inl e \<Rightarrow> raiseA e
             | Inr ((start, fin), i1, i2) \<Rightarrow>
                 seqA (if co_new opts
                       then seqA (node_intervals E k2 i2 None None) (\<lambda>is. pureA (if is = [] then start else Some (snd (last is))))
                       else pureA start)
                   (\<lambda>start. copy_data E k1 k2 i1 i2 (api_stream_layout s2) start fin))))"

end
