(* ===== verification/Copy_Correct.thy ===== *)
theory Copy_Correct
  imports Data_Copy Pgcopy
begin

text \<open>
  What a copy does: which rows reach the destination, that nothing of the source changes, that the new stream of the
  destination has the attributes of the source, and that the annotations are there afterwards.
\<close>

lemma eachA_Cons: "f x s = (Inr (), s') \<Longrightarrow> eachA f (x # xs) s = eachA f xs s'"
  by (simp add: seqA_def)

section \<open>The rows on their way\<close>

context row_source
begin

lemma copy_sender_result:
  assumes "holds p items" "length items < n"
  shows "\<exists>out' taken lost. copy_sender n is_empty rd consume out p = Some (Inr (), out') \<and> items = taken @ lost
    \<and> concat out' = concat out @ concat (rows_of taken) \<and> missed lost"
  using assms
proof (induction n arbitrary: p items out)
  case 0
  then show ?case by simp
next
  case (Suc n)
  from turn [OF Suc.prems(1)] show ?case
  proof (elim disjE exE conjE)
    fix p'
    assume "is_empty p = (Some (Inr True), p')" "missed items"
    then show ?thesis by (intro exI [of _ out] exI [of _ "[]"] exI [of _ items]) simp
  next
    fix p1 p2 p3 rows rest
    assume t: "is_empty p = (Some (Inr False), p1)" "rd p1 = (Some (Inr rows), p2)"
      "consume p2 (int (length rows)) = (Inr (), p3)"
      and items: "items = map Some rows @ (if eoi p2 then [None] else []) @ rest"
      and rest: "holds p3 rest" "length rest < length items"
    let ?out = "if rows \<noteq> [] then out @ [concat rows] else out"
    obtain out' taken lost where ih: "copy_sender n is_empty rd consume ?out p3 = Some (Inr (), out')" "rest = taken @ lost"
      "concat out' = concat ?out @ concat (rows_of taken)" "missed lost"
      using Suc.IH [OF rest(1), of ?out] rest(2) Suc.prems(2) by fastforce
    have "concat ?out = concat out @ concat rows" by simp
    then show ?thesis using t ih items
      by (intro exI [of _ out'] exI [of _ "map Some rows @ (if eoi p2 then [None] else []) @ taken"] exI [of _ lost]) auto
  qed
qed

end

lemma read_turns_result:
  assumes "ip_source p items" "length items < n"
  shows "\<exists>taken lost. arriving (read_turns n now dec p) = map dec (rows_of taken) \<and> items = taken @ lost \<and> length lost \<le> 1
    \<and> (\<forall>(f, t, rows, eoi) \<in> set (read_turns n now dec p). f = No_Fault)"
  using assms
proof (induction n arbitrary: p items)
  case 0
  then show ?case by simp
next
  case (Suc n)
  from ip_source_read [OF Suc.prems(1)] show ?case
  proof (elim disjE exE conjE)
    fix p'
    assume "ip_read p = (Inl EmptyPipeError, p')" "ip_missed items"
    then show ?thesis by (intro exI [of _ "[]"] exI [of _ items]) (simp add: ip_missed_def)
  next
    fix p' p3 rows rest
    assume t: "ip_read p = (Inr rows, p')" "ip_consume p' (int (length rows)) = (Inr (), p3)"
      and items: "items = map Some rows @ (if ip_end_of_interval p' then [None] else []) @ rest"
      and rest: "ip_source p3 rest" "length rest < length items"
    obtain taken lost where "arriving (read_turns n now dec p3) = map dec (rows_of taken)" "rest = taken @ lost" "length lost \<le> 1"
      "\<forall>(f, t, rows, eoi) \<in> set (read_turns n now dec p3). f = No_Fault"
      using Suc.IH [OF rest(1)] rest(2) Suc.prems(2) by fastforce
    then show ?thesis using t items
      by (intro exI [of _ "map Some rows @ (if ip_end_of_interval p' then [None] else []) @ taken"] exI [of _ lost]) auto
  qed
qed

text \<open>Numpy's conversions for the rows of the source, and the connection.\<close>

definition codec_ok :: "'f copy_env \<Rightarrow> dtype \<Rightarrow> 'f drow list \<Rightarrow> bool" where
  "codec_ok E d rows =
     (0 < ce_buffer_size E \<and> (\<forall>bs. rd_bytes (ce_cut E bs) = bs)
      \<and> (\<forall>r \<in> set rows. clean_row d (ce_enc E r) \<and> ce_enc E r \<noteq> zero_row d \<and> ce_dec E (ce_enc E r) = r
            \<and> list_all (\<lambda>x. \<not> ce_nan E x) (snd r)))"

text \<open>A list that lacks at most \<open>n\<close> elements of another at its end.\<close>

definition lacks :: "nat \<Rightarrow> 'a list \<Rightarrow> 'a list \<Rightarrow> bool" where
  "lacks n xs ys = (\<exists>zs. ys = xs @ zs \<and> length zs \<le> n)"

lemma lacks_trans: "lacks m xs ys \<Longrightarrow> lacks n ys zs \<Longrightarrow> lacks (m + n) xs zs"
  by (auto simp: lacks_def)

lemma lacks_set: "lacks n xs ys \<Longrightarrow> set xs \<subseteq> set ys"
  by (auto simp: lacks_def)

lemma lacks_rows_of: "items = taken @ lost \<Longrightarrow> length lost \<le> 1 \<Longrightarrow> lacks 1 (rows_of taken) (rows_of items)"
  by (cases lost) (auto simp: lacks_def rows_of_def split: option.splits)

lemma pipe_items: "codec_ok E d rows \<Longrightarrow> list_all (clean_row d) rs \<Longrightarrow> bytes = concat rs \<Longrightarrow> ip_source (stream_pipe E d bytes) (row_items d rs)"
  by (simp add: codec_ok_def stream_pipe_def ip_source_init)

text \<open>The items of an extraction as rows on the wire.\<close>

definition wire_row :: "dtype \<Rightarrow> ('f drow \<Rightarrow> row) \<Rightarrow> 'f drow option \<Rightarrow> row" where
  "wire_row d enc i = (case i of None \<Rightarrow> zero_row d | Some r \<Rightarrow> enc r)"

lemma wire_rows:
  assumes "codec_ok E d rows" "set (items_rows items) \<subseteq> set rows"
  shows "list_all (clean_row d) (map (wire_row d (ce_enc E)) items)"
    and "rows_of (row_items d (map (wire_row d (ce_enc E)) items)) = map (ce_enc E) (items_rows items)"
proof -
  have z: "clean_row d (zero_row d)" by (simp add: clean_row_def zero_row_def)
  show "list_all (clean_row d) (map (wire_row d (ce_enc E)) items)"
    using assms z by (induction items) (auto simp: wire_row_def codec_ok_def items_rows_def split: option.splits)
  show "rows_of (row_items d (map (wire_row d (ce_enc E)) items)) = map (ce_enc E) (items_rows items)"
    using assms by (induction items) (auto simp: wire_row_def codec_ok_def items_rows_def row_items_def rows_of_def split: option.splits)
qed

lemma lacks_map: "lacks n xs (map f ys) \<Longrightarrow> \<exists>zs. xs = map f zs \<and> lacks n zs ys"
  by (auto simp: lacks_def map_eq_append_conv)

lemma transfer_rows:
  assumes ok: "codec_ok E d rows" and sub: "set (items_rows items) \<subseteq> set rows" and fuel: "length items < ce_fuel E"
  shows "\<exists>parts got. copy_sender (ce_fuel E) ip_empty_call ip_read_call ip_consume []
      (stream_pipe E d (concat (map (wire_row d (ce_enc E)) items))) = Some (Inr (), parts)
    \<and> arriving (read_turns (ce_fuel E) now (ce_dec E) (stream_pipe E d (concat parts))) = got \<and> lacks 2 got (items_rows items)
    \<and> (\<forall>(f, t, rows, eoi) \<in> set (read_turns (ce_fuel E) now (ce_dec E) (stream_pipe E d (concat parts))). f = No_Fault)"
proof -
  let ?rs = "map (wire_row d (ce_enc E)) items"
  have len: "length (row_items d xs) = length xs" for xs by (simp add: row_items_def)
  have "ip_source (stream_pipe E d (concat ?rs)) (row_items d ?rs)"
    using pipe_items [OF ok wire_rows(1) [OF ok sub] refl] .
  from input_source.copy_sender_result [OF this, of "ce_fuel E" "[]"] fuel
  obtain parts taken lost where s: "copy_sender (ce_fuel E) ip_empty_call ip_read_call ip_consume [] (stream_pipe E d (concat ?rs))
      = Some (Inr (), parts)" "row_items d ?rs = taken @ lost" "concat parts = concat (rows_of taken)" "ip_missed lost"
    by (auto simp: len)
  have "lacks 1 (rows_of taken) (map (ce_enc E) (items_rows items))"
    using lacks_rows_of [OF s(2)] s(4) wire_rows(2) [OF ok sub] by (simp add: ip_missed_def)
  then obtain sent where sent: "rows_of taken = map (ce_enc E) sent" "lacks 1 sent (items_rows items)"
    using lacks_map by blast
  have in_rows: "set sent \<subseteq> set rows" using lacks_set [OF sent(2)] sub by blast
  have cl: "list_all (clean_row d) (map (ce_enc E) sent)" "zero_row d \<notin> set (map (ce_enc E) sent)"
    using ok in_rows by (auto simp: codec_ok_def list_all_iff)
  have "ip_source (stream_pipe E d (concat parts)) (map Some (map (ce_enc E) sent))"
    using pipe_items [OF ok cl(1), of "concat parts"] s(3) sent(1) row_items_rows [OF cl(2)] by simp
  moreover have "length (map Some (map (ce_enc E) sent)) < ce_fuel E"
  proof -
    have "length sent \<le> length (items_rows items)" using sent(2) by (auto simp: lacks_def)
    also have "\<dots> \<le> length items" by (induction items) (auto simp: items_rows_def split: option.split)
    finally show ?thesis using fuel by simp
  qed
  ultimately obtain taken' lost' where r:
    "arriving (read_turns (ce_fuel E) now (ce_dec E) (stream_pipe E d (concat parts))) = map (ce_dec E) (rows_of taken')"
    "map Some (map (ce_enc E) sent) = taken' @ lost'" "length lost' \<le> 1"
    "\<forall>(f, t, rows, eoi) \<in> set (read_turns (ce_fuel E) now (ce_dec E) (stream_pipe E d (concat parts))). f = No_Fault"
    using read_turns_result [of _ _ "ce_fuel E" now "ce_dec E"] by blast
  have "lacks 1 (rows_of taken') (map (ce_enc E) sent)" using lacks_rows_of [OF r(2,3)] by (simp del: map_map)
  then obtain got where got: "rows_of taken' = map (ce_enc E) got" "lacks 1 got sent" using lacks_map by blast
  have "map (ce_dec E) (map (ce_enc E) got) = got"
    using ok lacks_set [OF got(2)] in_rows by (auto simp: codec_ok_def intro!: map_idI)
  moreover have "lacks 2 got (items_rows items)" using lacks_trans [OF got(2) sent(2)] by (simp add: numeral_2_eq_2)
  ultimately show ?thesis using s(1) r(1,4) got(1) by auto
qed

section \<open>Requests to a node\<close>

text \<open>A node has a stream with the id: what the handlers need to know of its catalogue.\<close>

definition stream_core :: "('g, 'f) node \<Rightarrow> int \<Rightarrow> (string \<times> bool \<times> int) option" where
  "stream_core nd i = map_option (\<lambda>s. (ds_layout s, ds_decimate s, ds_keep_us s)) (get_data (se_work (nd_session nd)) i)"

definition has_stream :: "'f copy_env \<Rightarrow> ('g, 'f) node \<Rightarrow> int \<Rightarrow> string \<Rightarrow> bool" where
  "has_stream E nd i layout = (ce_pg_int E (int_str i) = Some i \<and> (\<exists>c. stream_core nd i = Some (layout, c)))"

lemma has_streamE:
  assumes "has_stream E nd i layout"
  obtains s where "ce_pg_int E (int_str i) = Some i" "get_data (se_work (nd_session nd)) i = Some s" "ds_layout s = layout"
  using assms by (auto simp: has_stream_def stream_core_def)

lemma get_data_id: "get_data c i = Some s \<Longrightarrow> ds_id s = i"
  by (auto simp: get_data_def find_Some_iff)

lemma number_params_simps [simp]:
  "number_params [] = []" "number_params ((k, i) # ps) = (k, int_str i) # number_params ps"
  by (simp_all add: number_params_def as_query_def)

lemma get_by_id:
  assumes "pg_int (int_str i) = Some i" "get_data (se_work t) i = Some s"
    and "map_of q ''path'' = None" "map_of q ''id'' = Some (int_str i)"
  shows "get_stream now pg_int q t = (Inr s, t)"
  using assms by (simp add: get_stream_def locate_data_def seqA_def pureA_def view_def)

lemma on_data_unchanged: "h (nd_session (w k), nd_tables (w k)) = (r, (nd_session (w k), nd_tables (w k))) \<Longrightarrow> on_data k h w = (r, w)"
  by (simp add: on_data_def fun_upd_idem)

text \<open>The tables of a stream with rows, and a range within the times of its rows.\<close>

definition tables_ok :: "'f copy_env \<Rightarrow> 'f drow list \<Rightarrow> int list \<Rightarrow> bool" where
  "tables_ok E rows bounds =
     (distinct (map fst rows) \<and> 2 \<le> ce_block_size E \<and> length rows + length bounds + 2 < ce_fuel E
      \<and> (\<forall>a e. no_full_interval (ce_block_size E) rows (Some a)
               (map Some (sort (filter (in_bounds (Some a) (Some e)) bounds)) @ [Some e])))"

definition inside :: "(int \<times> 'v) list \<Rightarrow> int \<Rightarrow> int \<Rightarrow> bool" where
  "inside rows a e = (a < e \<and> (\<exists>r \<in> set rows. fst r \<le> a) \<and> (\<exists>r \<in> set rows. e \<le> fst r + 1))"

lemma limit_inside:
  assumes "st_data t = Some rows" "inside rows a e"
  shows "limit_time_bounds t (Some a) (Some e) = Inr (Some a, Some e)"
proof -
  have "map fst rows \<noteq> []" using assms(2) by (auto simp: inside_def)
  then obtain m x where m: "list_min (map fst rows) = Some m" "list_max (map fst rows) = Some x"
    by (metis list_min_None list_max_None not_None_eq)
  have "\<forall>r \<in> set rows. m \<le> fst r" "\<forall>r \<in> set rows. fst r \<le> x"
    using m by (simp_all add: list_min_Some_iff list_max_Some_iff)
  then have "m \<le> a" "e \<le> x + 1" using assms(2) by (fastforce simp: inside_def)+
  then show ?thesis using assms(1) m by (simp add: limit_time_bounds_def convert_time_bounds_def)
qed

lemma extract_spec_length: "length (extract_spec rows a fins) \<le> length (items_rows (extract_spec rows a fins)) + length fins"
  by (induction fins arbitrary: a) (auto intro: le_SucI)

lemma read_query:
  assumes "a < e"
  shows "validate_query_parameters [''start'', ''end'', ''max-rows'', ''decimation-level'']
      (number_params [(''id'', i), (''start'', a), (''end'', e)])
    = Inr [(''start'', Some a), (''end'', Some e), (''max-rows'', None), (''decimation-level'', None)]"
  by (rule validate_bounds [of _ "int_str a" "int_str e"]) (use assms in \<open>simp_all add: Prelude.py_int_str\<close>)

lemma read_body:
  assumes "has_stream E (w k) i layout" "st_data (nd_tables (w k) i) = Some rows" "st_ivl (nd_tables (w k) i) = Some bounds"
    and ok: "tables_ok E rows bounds" and r: "inside rows a e" and d: "compute_dtype (ce_np E) layout = Inr d"
  shows "\<exists>items. get_data_body E k i a e w = (Inr (if items = [] then None else Some (concat (map (wire_row d (ce_enc E)) items))), w)
    \<and> items_rows items = sorted_rows rows (Some a) (Some e) \<and> length items < ce_fuel E"
proof -
  let ?mid = "sort (filter (in_bounds (Some a) (Some e)) bounds)"
  let ?items = "extract_spec rows (Some a) (map Some ?mid @ [Some e])"
  obtain s where s: "ce_pg_int E (int_str i) = Some i" "get_data (se_work (nd_session (w k))) i = Some s" "ds_layout s = layout"
    using assms(1) by (rule has_streamE)
  obtain bs where bs: "extract_data (ce_fuel E) (ce_block_size E) (Some rows) (Some bounds) (Some a) (Some e) = Some bs"
    "concat bs = ?items" "\<forall>b \<in> set bs. b \<noteq> []"
    using extract_data_ok [of rows "ce_block_size E" "ce_fuel E" a e bounds] ok by (auto simp: tables_ok_def)
  have ae: "a < e" using r by (simp add: inside_def)
  have g: "get_stream (ce_now E) (ce_pg_int E) (number_params [(''id'', i), (''start'', a), (''end'', e)]) (nd_session (w k))
      = (Inr s, nd_session (w k))"
    by (rule get_by_id) (use s in simp_all)
  let ?read = "data_read (ce_fuel E) (ce_block_size E) (\<lambda>_ _. 0) (\<lambda>_ _. 1) (ce_now E) (ce_pg_int E) False
      (number_params [(''id'', i), (''start'', a), (''end'', e)])"
  have "?read (nd_session (w k), nd_tables (w k))
    = (Inr (if bs = [] then NoData else BinaryData layout 1 bs), (nd_session (w k), nd_tables (w k)))"
    using g assms(2,3) bs(1) limit_inside [OF assms(2) r] get_data_id [OF s(2)] s(3)
    by (simp add: data_read_def seqA_def in_session_def with_store_def param_def store_extract_def fun_upd_idem read_query [OF ae]
        del: number_params_simps)
  from on_data_unchanged [of ?read w k, OF this] have "get_data_body E k i a e w
      = (Inr (if bs = [] then None else Some (wire_bytes d (ce_enc E) bs)), w)"
    using d by (simp add: get_data_body_def seqA_def pureA_def del: number_params_simps)
  moreover have "bs = [] \<longleftrightarrow> ?items = []" using bs(2,3) by (cases bs) auto
  moreover have "wire_bytes d (ce_enc E) bs = concat (map (wire_row d (ce_enc E)) ?items)"
    unfolding wire_bytes_def wire_row_def bs(2) ..
  moreover have "sorted (a # ?mid @ [e])" using ae by (auto simp: in_bounds_def sorted_append less_imp_le)
  then have rows: "items_rows ?items = sorted_rows rows (Some a) (Some e)" by (rule extract_spec_rows)
  moreover have "length ?items < ce_fuel E"
  proof -
    have "length (sorted_rows rows (Some a) (Some e)) \<le> length rows" "length ?mid \<le> length bounds" by simp_all
    moreover have "length ?items \<le> length (sorted_rows rows (Some a) (Some e)) + (length ?mid + 1)"
      using extract_spec_length [of rows "Some a" "map Some ?mid @ [Some e]"] unfolding rows by simp
    moreover have "length rows + length bounds + 2 < ce_fuel E" using ok by (simp add: tables_ok_def)
    ultimately show ?thesis by linarith
  qed
  ultimately show ?thesis by (intro exI [of _ ?items]) simp
qed

lemma core_update:
  assumes "\<And>x. ds_id (g x) = ds_id x" "\<And>x. ds_layout (g x) = ds_layout x \<and> ds_decimate (g x) = ds_decimate x \<and> ds_keep_us (g x) = ds_keep_us x"
    and "se_work s = update_data i g (se_work (nd_session nd))"
  shows "stream_core (nd\<lparr>nd_session := s, nd_tables := t\<rparr>) j = stream_core nd j"
proof -
  let ?f = "\<lambda>x. if ds_id x = i then g x else x"
  have "get_data (se_work s) j = map_option ?f (get_data (se_work (nd_session nd)) j)"
    unfolding assms(3) get_data_def update_data_def
    by (simp add: find_map_same [where f = ?f] assms(1))
  then show ?thesis using assms(2) by (cases "get_data (se_work (nd_session nd)) j") (auto simp: stream_core_def)
qed

lemma post_body:
  fixes w :: "('g, 'f) world" and E :: "'f copy_env"
  defines "turns \<equiv> \<lambda>d parts. read_turns (ce_fuel E) (ce_now E) (ce_dec E) (stream_pipe E d (concat parts))"
  assumes pg: "ce_pg_int E (int_str i) = Some i" and core: "stream_core (w k) i = Some (layout, False, -1)"
    and d: "compute_dtype (ce_np E) layout = Inr d" and old: "table_rows (nd_tables (w k) i) = old" "distinct (map fst old)"
    and turns: "\<forall>(f, t, rows, eoi) \<in> set (turns d parts). f = No_Fault" "arriving (turns d parts) = got"
    and got: "sorted_wrt (<) (map fst got)" "fst ` set old \<inter> fst ` set got = {}" "list_all (\<lambda>r. list_all (\<lambda>x. \<not> ce_nan E x) (snd r)) got"
  shows "\<exists>ss tb. post_data_body E k i parts w = (Inr (), w(k := (w k)\<lparr>nd_session := ss, nd_tables := (nd_tables (w k))(i := tb)\<rparr>))
    \<and> table_rows tb = old @ got \<and> (\<forall>t j. stream_core ((w k)\<lparr>nd_session := ss, nd_tables := t\<rparr>) j = stream_core (w k) j)"
proof -
  obtain s where s: "get_data (se_work (nd_session (w k))) i = Some s" "ds_layout s = layout" "\<not> ds_decimate s" "ds_keep_us s = -1"
    using core by (auto simp: stream_core_def)
  let ?C = "\<lparr>ic_decimate = ds_decimate s, ic_keep_us = ds_keep_us s, ic_merge_gap = 0, ic_cleanup_interval = ce_cleanup E\<rparr>"
  obtain st where st: "ins_run (ce_fns E) (ce_nan E) (ce_drop E) ?C (turns d parts) [] (ins_start (nd_tables (w k) i)) = (Inr (), st)"
    "st_data (in_store st) = Some (old @ got)"
    using stores_all [of ?C "turns d parts" "nd_tables (w k) i" old "ce_nan E" "ce_fns E" "ce_drop E"] s(3,4) turns old got by auto
  have ins: "insert_body E parts s 0 (nd_tables (w k) i) = (Inr (), in_store st)"
    using st(1) s(2) d by (simp add: insert_body_def turns_def)
  let ?g = "\<lambda>s. s\<lparr>ds_is_destination := Some False\<rparr> :: 'g data_stream"
  let ?h = "\<lambda>s. s\<lparr>ds_is_destination := Some True\<rparr> :: 'g data_stream"
  have gt: "get_stream (ce_now E) (ce_pg_int E) [(''id'', int_str i)] (nd_session (w k)) = (Inr s, nd_session (w k))"
    by (rule get_by_id) (use pg s in simp_all)
  obtain ss where ss: "data_write (ce_now E) (ce_pg_int E) (insert_body E parts) [(''id'', int_str i)] (nd_session (w k), nd_tables (w k))
      = (Inr (), (ss, (nd_tables (w k))(i := in_store st)))"
    "se_work ss = update_data i ?g (update_data i ?h (se_work (nd_session (w k))))"
    using gt ins get_data_id [OF s(1)]
    by (simp add: data_write_def seqA_def in_session_def set_active_result merge_gap_of_def)
  have "update_data i ?g (update_data i ?h c) = update_data i (?g \<circ> ?h) c" for c :: "'g catalog"
    by (auto simp: update_data_def)
  then have "stream_core ((w k)\<lparr>nd_session := ss, nd_tables := t\<rparr>) j = stream_core (w k) j" for t j
    using core_update [of "?g \<circ> ?h" ss i "w k" t j] ss(2) by (simp add: ds_layout_def)
  moreover have "table_rows (in_store st) = old @ got" using st(2) by (simp add: table_rows_def)
  ultimately show ?thesis using ss(1) by (simp add: post_data_body_def on_data_def) blast
qed

section \<open>Annotations\<close>

text \<open>The annotations of a stream are well-formed and their times survive the conversions.\<close>

definition notes_exact :: "'f copy_env \<Rightarrow> int \<Rightarrow> ('g, 'f) node \<Rightarrow> bool" where
  "notes_exact E i nd =
     (\<forall>a \<in> set (at_rows (nd_notes nd)). an_stream a = i \<longrightarrow> annotation_ok a
        \<and> exact_times (ce_to_us E) (ce_read_back E) (received (ce_read_back E) a) (an_start a) (an_end a))"

definition times_readable :: "'f copy_env \<Rightarrow> bool" where
  "times_readable E = (\<forall>t. \<exists>u. ce_of_us E t = Inr u)"

definition notes_between :: "'f copy_env \<Rightarrow> int \<Rightarrow> int \<times> int \<Rightarrow> ('g, 'f) node \<Rightarrow> annotation list" where
  "notes_between E i ivl nd =
     (case (ce_of_us E (fst ivl), ce_of_us E (snd ivl)) of
        (Inr a, Inr e) \<Rightarrow> select_annotations i (Some a, Some e) (nd_notes nd)
      | _ \<Rightarrow> [])"

lemma node_annotations_result:
  assumes "ce_pg_int E (int_str i) = Some i" "times_readable E"
  shows "node_annotations E k i (fst ivl) (snd ivl) w = (Inr (map (received (ce_read_back E)) (notes_between E i ivl (w k))), w)"
proof -
  obtain a e where "ce_of_us E (fst ivl) = Inr a" "ce_of_us E (snd ivl) = Inr e" using assms(2) unfolding times_readable_def by meson
  then show ?thesis
    using got [of "ce_pg_int E" i "ce_of_us E" "Some (fst ivl)" "Some (snd ivl)" "(Some a, Some e)" "ce_read_back E" "ce_now E"
        "nd_session (w k)" "nd_notes (w k)"] assms(1)
    by (simp add: node_annotations_def api_def on_notes_def notes_between_def parse_bound_query fun_upd_idem)
qed

text \<open>Annotations as a copy leaves them at the other stream.\<close>

definition note_copies :: "int \<Rightarrow> annotation list \<Rightarrow> annotation list \<Rightarrow> bool" where
  "note_copies i as bs = list_all2 (\<lambda>a b. b = a\<lparr>an_id := an_id b, an_stream := i\<rparr>) as bs"

lemma annotate_result:
  assumes "stream_core (w k) i \<noteq> None" "annotation_ok a"
    and "exact_times (ce_to_us E) (ce_read_back E) (received (ce_read_back E) a) (an_start a) (an_end a)"
  shows "\<exists>j. node_annotate E k i (received (ce_read_back E) a) w
    = (Inr (), w(k := (w k)\<lparr>nd_notes := \<lparr>at_rows = at_rows (nd_notes (w k)) @ [a\<lparr>an_id := j, an_stream := i\<rparr>], at_seq = j\<rparr>\<rparr>))"
proof -
  obtain s where s: "get_data (se_work (nd_session (w k))) i = Some s" using assms(1) by (auto simp: stream_core_def)
  let ?a = "received (ce_read_back E) a" and ?j = "at_seq (nd_notes (w k)) + 1"
  have l: "locate_data (ce_now E) ''specify a stream_id'' (ById i) (nd_session (w k)) = (Inr s, nd_session (w k))"
    using s by (simp add: locate_data_def seqA_def pureA_def view_def)
  have t: "titled ?a"
    using assms(2) by (simp add: titled_def annotation_ok_def no_title_def received_def api_annotation_from_json_def annotation_to_json_def)
  have "stored_annotation ?j i ?a (an_start a) (an_end a) = a\<lparr>an_id := ?j, an_stream := i\<rparr>"
    by (simp add: stored_annotation_def received_def api_annotation_from_json_def annotation_to_json_def)
  then show ?thesis using created [OF l t assms(3), of "nd_notes (w k)"] get_data_id [OF s]
    by (intro exI [of _ ?j]) (simp add: node_annotate_def seqA_def api_def on_notes_def pureA_def)
qed

lemma annotate_each:
  assumes "stream_core (w k) i \<noteq> None"
    and "\<forall>a \<in> set as. annotation_ok a
        \<and> exact_times (ce_to_us E) (ce_read_back E) (received (ce_read_back E) a) (an_start a) (an_end a)"
  shows "\<exists>t new. eachA (node_annotate E k i) (map (received (ce_read_back E)) as) w = (Inr (), w(k := (w k)\<lparr>nd_notes := t\<rparr>))
    \<and> at_rows t = at_rows (nd_notes (w k)) @ new \<and> note_copies i as new"
  using assms
proof (induction as arbitrary: w)
  case Nil
  show ?case by (intro exI [of _ "nd_notes (w k)"] exI [of _ "[]"]) (simp add: note_copies_def fun_upd_idem)
next
  case (Cons a as)
  have a: "annotation_ok a" "exact_times (ce_to_us E) (ce_read_back E) (received (ce_read_back E) a) (an_start a) (an_end a)"
    using Cons.prems(2) by simp_all
  obtain j where j: "node_annotate E k i (received (ce_read_back E) a) w
    = (Inr (), w(k := (w k)\<lparr>nd_notes := \<lparr>at_rows = at_rows (nd_notes (w k)) @ [a\<lparr>an_id := j, an_stream := i\<rparr>], at_seq = j\<rparr>\<rparr>))"
    using annotate_result [of w k i a E, OF Cons.prems(1) a] by blast
  let ?w = "w(k := (w k)\<lparr>nd_notes := \<lparr>at_rows = at_rows (nd_notes (w k)) @ [a\<lparr>an_id := j, an_stream := i\<rparr>], at_seq = j\<rparr>\<rparr>)"
  have "stream_core (?w k) i \<noteq> None" using Cons.prems(1) by (simp add: stream_core_def)
  moreover have "\<forall>a \<in> set as. annotation_ok a
      \<and> exact_times (ce_to_us E) (ce_read_back E) (received (ce_read_back E) a) (an_start a) (an_end a)" using Cons.prems(2) by simp
  ultimately obtain t new where ih:
    "eachA (node_annotate E k i) (map (received (ce_read_back E)) as) ?w = (Inr (), ?w(k := (?w k)\<lparr>nd_notes := t\<rparr>))"
    "at_rows t = at_rows (nd_notes (?w k)) @ new" "note_copies i as new" using Cons.IH [of ?w] by blast
  have "eachA (node_annotate E k i) (map (received (ce_read_back E)) (a # as)) w
      = eachA (node_annotate E k i) (map (received (ce_read_back E)) as) ?w"
    using j by (simp add: seqA_def [of "node_annotate E k i (received (ce_read_back E) a)"])
  then show ?case using ih
    by (intro exI [of _ t] exI [of _ "a\<lparr>an_id := j, an_stream := i\<rparr> # new"]) (auto simp: note_copies_def fun_eq_iff)
qed

definition missing_notes :: "'f copy_env \<Rightarrow> int \<Rightarrow> int \<Rightarrow> int \<times> int \<Rightarrow> ('g, 'f) node \<Rightarrow> ('g, 'f) node \<Rightarrow> annotation list" where
  "missing_notes E i1 i2 ivl n1 n2 =
     filter (\<lambda>a. \<not> list_ex (same_annotation (received (ce_read_back E) a))
         (map (received (ce_read_back E)) (notes_between E i2 ivl n2))) (notes_between E i1 ivl n1)"

lemma copy_annotations_missing:
  assumes pg: "ce_pg_int E (int_str i1) = Some i1" "ce_pg_int E (int_str i2) = Some i2" and times: "times_readable E"
  shows "copy_annotations E k1 k2 i1 i2 ivl w
    = eachA (node_annotate E k2 i2) (map (received (ce_read_back E)) (missing_notes E i1 i2 ivl (w k1) (w k2))) w"
  using node_annotations_result [OF pg(1) times, of k1 ivl w] node_annotations_result [OF pg(2) times, of k2 ivl w]
  by (simp add: copy_annotations_def seqA_def [of "node_annotations E _ _ _ _"] missing_notes_def filter_map comp_def)

lemma copy_annotations_result:
  assumes pg: "ce_pg_int E (int_str i1) = Some i1" "ce_pg_int E (int_str i2) = Some i2" and times: "times_readable E"
    and core: "stream_core (w k2) i2 \<noteq> None" and exact: "notes_exact E i1 (w k1)"
  shows "\<exists>t new. copy_annotations E k1 k2 i1 i2 ivl w = (Inr (), w(k2 := (w k2)\<lparr>nd_notes := t\<rparr>))
    \<and> at_rows t = at_rows (nd_notes (w k2)) @ new \<and> note_copies i2 (missing_notes E i1 i2 ivl (w k1) (w k2)) new"
proof -
  let ?missing = "missing_notes E i1 i2 ivl (w k1) (w k2)"
  have "set (notes_between E i1 ivl (w k1)) \<subseteq> {a \<in> set (at_rows (nd_notes (w k1))). an_stream a = i1}"
    by (auto simp: notes_between_def select_annotations_def split: sum.splits)
  then have "\<forall>a \<in> set ?missing. annotation_ok a
      \<and> exact_times (ce_to_us E) (ce_read_back E) (received (ce_read_back E) a) (an_start a) (an_end a)"
    using exact by (auto simp: notes_exact_def missing_notes_def)
  from annotate_each [of w k2 i2, OF core this] obtain t new where t:
    "eachA (node_annotate E k2 i2) (map (received (ce_read_back E)) ?missing) w = (Inr (), w(k2 := (w k2)\<lparr>nd_notes := t\<rparr>))"
    "at_rows t = at_rows (nd_notes (w k2)) @ new" "note_copies i2 ?missing new" by blast
  then show ?thesis using copy_annotations_missing [OF pg times, of k1 k2 ivl w] by auto
qed

section \<open>The loop over the intervals\<close>

text \<open>
  What stays during a copy: the source with its rows and annotations, and the destination as a stream that keeps all its
  data and is not decimated, with the rows \<open>D\<close>.
\<close>

definition copy_state :: "'f copy_env \<Rightarrow> string \<Rightarrow> string \<Rightarrow> int \<Rightarrow> int \<Rightarrow> string \<Rightarrow> 'f list tstore \<Rightarrow> 'f drow list \<Rightarrow> ('g, 'f) world \<Rightarrow> bool" where
  "copy_state E k1 k2 i1 i2 layout T D w =
     (has_stream E (w k1) i1 layout \<and> has_stream E (w k2) i2 layout \<and> stream_core (w k2) i2 = Some (layout, False, -1)
      \<and> nd_tables (w k1) i1 = T \<and> table_rows (nd_tables (w k2) i2) = D \<and> notes_exact E i1 (w k1))"

lemma copy_state_notes:
  assumes "copy_state E k1 k2 i1 i2 layout T D w" "(k1, i1) \<noteq> (k2, i2)" "at_rows t = at_rows (nd_notes (w k2)) @ new" "note_copies i2 as new"
  shows "copy_state E k1 k2 i1 i2 layout T D (w(k2 := (w k2)\<lparr>nd_notes := t\<rparr>))"
proof -
  have "\<forall>a \<in> set new. an_stream a = i2"
    using assms(4) unfolding note_copies_def by (induction rule: list_all2_induct) (auto, metis annotation.simps annotation.surjective)
  then show ?thesis using assms(1-3)
    by (auto simp: copy_state_def has_stream_def stream_core_def notes_exact_def)
qed

lemma annotations_step:
  assumes "copy_state E k1 k2 i1 i2 layout T D w" "(k1, i1) \<noteq> (k2, i2)" "times_readable E"
  shows "\<exists>w'. copy_annotations E k1 k2 i1 i2 ivl w = (Inr (), w') \<and> copy_state E k1 k2 i1 i2 layout T D w'"
proof -
  have "ce_pg_int E (int_str i1) = Some i1" "ce_pg_int E (int_str i2) = Some i2" "stream_core (w k2) i2 \<noteq> None" "notes_exact E i1 (w k1)"
    using assms(1) by (auto simp: copy_state_def has_stream_def)
  from copy_annotations_result [OF this(1,2) assms(3) this(3,4), of ivl] copy_state_notes [OF assms(1,2)]
  show ?thesis by blast
qed

lemma annotations_loop:
  assumes "copy_state E k1 k2 i1 i2 layout T D w" "(k1, i1) \<noteq> (k2, i2)" "times_readable E"
  shows "\<exists>w'. eachA (copy_annotations E k1 k2 i1 i2) ivls w = (Inr (), w') \<and> copy_state E k1 k2 i1 i2 layout T D w'"
  using assms(1)
proof (induction ivls arbitrary: w)
  case (Cons ivl ivls)
  then show ?case using annotations_step [OF Cons.prems assms(2,3), of ivl] by (fastforce simp: seqA_def)
qed simp

lemma has_stream_core: "(\<And>j. stream_core nd' j = stream_core nd j) \<Longrightarrow> has_stream E nd' i layout = has_stream E nd i layout"
  by (simp add: has_stream_def)

lemma copy_state_post:
  assumes st: "copy_state E k1 k2 i1 i2 layout T D w" and ne: "(k1, i1) \<noteq> (k2, i2)"
    and rows: "table_rows tb = D'" and core: "\<forall>t j. stream_core ((w k2)\<lparr>nd_session := ss, nd_tables := t\<rparr>) j = stream_core (w k2) j"
  shows "copy_state E k1 k2 i1 i2 layout T D' (w(k2 := (w k2)\<lparr>nd_session := ss, nd_tables := (nd_tables (w k2))(i2 := tb)\<rparr>))"
proof -
  let ?n = "(w k2)\<lparr>nd_session := ss, nd_tables := (nd_tables (w k2))(i2 := tb)\<rparr>"
  have c: "stream_core ?n j = stream_core (w k2) j" for j using core by simp
  have "notes_exact E i1 ?n = notes_exact E i1 (w k2)" by (simp add: notes_exact_def)
  then show ?thesis using st ne rows has_stream_core [of ?n "w k2", OF c] c
    by (cases "k1 = k2") (auto simp: copy_state_def)
qed

lemma sorted_rows_distinct: "distinct (map fst S) \<Longrightarrow> distinct (map fst (sorted_rows S a e))"
  by (auto simp: distinct_map intro: inj_on_subset)

text \<open>The rows of one interval.\<close>

lemma interval_step:
  assumes st: "copy_state E k1 k2 i1 i2 layout T D w" and ne: "(k1, i1) \<noteq> (k2, i2)"
    and T: "st_data T = Some S" "st_ivl T = Some bounds" "tables_ok E S bounds"
    and codec: "codec_ok E d S" "compute_dtype (ce_np E) layout = Inr d"
    and r: "inside S a e" and D: "distinct (map fst D)" "\<forall>t \<in> fst ` set D. \<not> (a \<le> t \<and> t < e)"
  shows "\<exists>w' got. copy_interval E k1 k2 i1 i2 layout a e w = (Inr (), w') \<and> copy_state E k1 k2 i1 i2 layout T (D @ got) w'
    \<and> lacks 2 got (sorted_rows S (Some a) (Some e))"
proof -
  have s: "has_stream E (w k1) i1 layout" "nd_tables (w k1) i1 = T" "ce_pg_int E (int_str i2) = Some i2"
    "stream_core (w k2) i2 = Some (layout, False, -1)" "table_rows (nd_tables (w k2) i2) = D"
    using st by (auto simp: copy_state_def has_stream_def)
  obtain items where items: "get_data_body E k1 i1 a e w = (Inr (if items = [] then None else Some (concat (map (wire_row d (ce_enc E)) items))), w)"
    "items_rows items = sorted_rows S (Some a) (Some e)" "length items < ce_fuel E"
    using read_body [of E w k1 i1 layout S bounds a e d] s(1,2) T codec(2) r by blast
  show ?thesis
  proof (cases "items = []")
    case True
    then have "copy_interval E k1 k2 i1 i2 layout a e w = (Inr (), w)" using items(1) by (simp add: copy_interval_def seqA_def pureA_def)
    moreover have "lacks 2 [] (sorted_rows S (Some a) (Some e))" using True items(2) by (simp add: lacks_def)
    ultimately show ?thesis using st by (intro exI [of _ w] exI [of _ "[]"]) simp
  next
    case False
    have sub: "set (items_rows items) \<subseteq> set S" unfolding items(2) by auto
    obtain parts got where p: "copy_sender (ce_fuel E) ip_empty_call ip_read_call ip_consume []
        (stream_pipe E d (concat (map (wire_row d (ce_enc E)) items))) = Some (Inr (), parts)"
      "arriving (read_turns (ce_fuel E) (ce_now E) (ce_dec E) (stream_pipe E d (concat parts))) = got" "lacks 2 got (items_rows items)"
      "\<forall>(f, t, rows, eoi) \<in> set (read_turns (ce_fuel E) (ce_now E) (ce_dec E) (stream_pipe E d (concat parts))). f = No_Fault"
      using transfer_rows [OF codec(1) sub items(3)] by blast
    obtain zs where zs: "sorted_rows S (Some a) (Some e) = got @ zs" using p(3) items(2) by (auto simp: lacks_def)
    have "distinct (map fst S)" using T(3) by (simp add: tables_ok_def)
    then have "distinct (map fst (sorted_rows S (Some a) (Some e)))" by (rule sorted_rows_distinct)
    then have "sorted_wrt (<) (map fst (sorted_rows S (Some a) (Some e)))" by (simp add: strict_sorted_iff)
    then have m: "sorted_wrt (<) (map fst got)" unfolding zs by (simp add: sorted_wrt_append)
    have g: "g \<in> set S \<and> a \<le> fst g \<and> fst g < e" if "g \<in> set got" for g
    proof -
      have "g \<in> set (sorted_rows S (Some a) (Some e))" unfolding zs using that by simp
      then show ?thesis by (auto simp: in_bounds_def)
    qed
    have "fst ` set D \<inter> fst ` set got = {}" using g D(2) by fastforce
    moreover have "list_all (\<lambda>r. list_all (\<lambda>x. \<not> ce_nan E x) (snd r)) got"
      using g codec(1) unfolding codec_ok_def list_all_iff by blast
    ultimately obtain ss tb where w': "post_data_body E k2 i2 parts w
        = (Inr (), w(k2 := (w k2)\<lparr>nd_session := ss, nd_tables := (nd_tables (w k2))(i2 := tb)\<rparr>))"
      "table_rows tb = D @ got" "\<forall>t j. stream_core ((w k2)\<lparr>nd_session := ss, nd_tables := t\<rparr>) j = stream_core (w k2) j"
      using post_body [of E i2 w k2 layout d D parts got, OF s(3,4) codec(2) s(5) D(1) p(4,2) m] by blast
    have "copy_interval E k1 k2 i1 i2 layout a e w = post_data_body E k2 i2 parts w"
      using False items(1) p(1) codec(2) by (simp add: copy_interval_def seqA_def)
    then show ?thesis using w'(1) copy_state_post [OF st ne w'(2,3)] p(3) items(2) by auto
  qed
qed

lemma part_rows:
  assumes "distinct (map fst S)" "lacks n got (sorted_rows S (Some a) (Some e))"
  shows "distinct (map fst got)" "\<forall>t \<in> fst ` set got. a \<le> t \<and> t < e"
proof -
  obtain zs where zs: "sorted_rows S (Some a) (Some e) = got @ zs" using assms(2) by (auto simp: lacks_def)
  show "distinct (map fst got)" using sorted_rows_distinct [OF assms(1), of "Some a" "Some e"] unfolding zs by simp
  have "set got \<subseteq> set (sorted_rows S (Some a) (Some e))" unfolding zs by simp
  then show "\<forall>t \<in> fst ` set got. a \<le> t \<and> t < e" by (auto simp: in_bounds_def)
qed

lemma copy_loop:
  assumes ne: "(k1, i1) \<noteq> (k2, i2)" and T: "st_data T = Some S" "st_ivl T = Some bounds" "tables_ok E S bounds"
    and codec: "codec_ok E d S" "compute_dtype (ce_np E) layout = Inr d" and times: "times_readable E"
  shows "copy_state E k1 k2 i1 i2 layout T D w \<Longrightarrow> ordered_intervals ivls \<Longrightarrow> \<forall>i \<in> set ivls. inside S (fst i) (snd i) \<Longrightarrow>
    distinct (map fst D) \<Longrightarrow> \<forall>t \<in> fst ` set D. \<not> covered t ivls \<Longrightarrow>
    \<exists>w' parts. eachA (\<lambda>ivl. seqA (copy_interval E k1 k2 i1 i2 layout (fst ivl) (snd ivl)) (\<lambda>_. copy_annotations E k1 k2 i1 i2 ivl)) ivls w
        = (Inr (), w')
      \<and> copy_state E k1 k2 i1 i2 layout T (D @ concat parts) w'
      \<and> list_all2 (\<lambda>i p. lacks 2 p (sorted_rows S (Some (fst i)) (Some (snd i)))) ivls parts"
proof (induction ivls arbitrary: w D)
  case Nil
  then show ?case by (intro exI [of _ w] exI [of _ "[]"]) simp
next
  case (Cons i ivls)
  have i: "inside S (fst i) (snd i)" "\<forall>t \<in> fst ` set D. \<not> (fst i \<le> t \<and> t < snd i)" using Cons.prems(3,5) by auto
  obtain w1 got where w1: "copy_interval E k1 k2 i1 i2 layout (fst i) (snd i) w = (Inr (), w1)"
    "copy_state E k1 k2 i1 i2 layout T (D @ got) w1" "lacks 2 got (sorted_rows S (Some (fst i)) (Some (snd i)))"
    using interval_step [OF Cons.prems(1) ne T codec i(1) Cons.prems(4) i(2)] by blast
  obtain w2 where w2: "copy_annotations E k1 k2 i1 i2 i w1 = (Inr (), w2)" "copy_state E k1 k2 i1 i2 layout T (D @ got) w2"
    using annotations_step [OF w1(2) ne times, of i] by blast
  have "distinct (map fst S)" using T(3) by (simp add: tables_ok_def)
  note got = part_rows [OF this w1(3)]
  have dist: "distinct (map fst (D @ got))" using Cons.prems(4) got i(2) by fastforce
  have later: "\<forall>j \<in> set ivls. snd i \<le> fst j" using Cons.prems(2) by simp
  have free: "\<forall>t \<in> fst ` set (D @ got). \<not> covered t ivls"
  proof
    fix t
    assume "t \<in> fst ` set (D @ got)"
    then consider "t \<in> fst ` set D" | "t \<in> fst ` set got" by auto
    then show "\<not> covered t ivls"
    proof cases
      case 1
      then show ?thesis using Cons.prems(5) by auto
    next
      case 2
      then have "t < snd i" using got(2) by blast
      then show ?thesis using later by (fastforce simp: covered_def)
    qed
  qed
  from Cons.IH [OF w2(2) _ _ dist free] Cons.prems(2,3) obtain w' parts where ih:
    "eachA (\<lambda>ivl. seqA (copy_interval E k1 k2 i1 i2 layout (fst ivl) (snd ivl)) (\<lambda>_. copy_annotations E k1 k2 i1 i2 ivl)) ivls w2 = (Inr (), w')"
    "copy_state E k1 k2 i1 i2 layout T ((D @ got) @ concat parts) w'"
    "list_all2 (\<lambda>i p. lacks 2 p (sorted_rows S (Some (fst i)) (Some (snd i)))) ivls parts"
    by auto
  let ?f = "\<lambda>ivl. seqA (copy_interval E k1 k2 i1 i2 layout (fst ivl) (snd ivl)) (\<lambda>_. copy_annotations E k1 k2 i1 i2 ivl)"
  have "?f i w = (Inr (), w2)" using w1(1) w2(1) by (simp add: seqA_def)
  then have "eachA ?f (i # ivls) w = eachA ?f ivls w2" by (rule eachA_Cons)
  then show ?case using ih w1(3) by (intro exI [of _ w'] exI [of _ "got # parts"]) simp
qed

section \<open>The intervals of the nodes\<close>

lemma interval_query:
  assumes "\<forall>x y. start = Some x \<longrightarrow> fin = Some y \<longrightarrow> x < y"
    and "interval_params (Object (Some i)) start fin = Inr ps"
  shows "\<exists>r. validate_query_parameters [''start'', ''end''] (as_query ps) = Inr r \<and> param r ''start'' = start \<and> param r ''end'' = fin"
    and "map_of (as_query ps) ''path'' = None" "map_of (as_query ps) ''id'' = Some (int_str i)"
  using assms
  by (auto simp: interval_params_def ref_params_def api_id_def as_query_def validate_query_parameters_def param_def
      Prelude.py_int_str split: option.splits)

lemma node_intervals_result:
  assumes "has_stream E (w k) i layout" "\<forall>x y. start = Some x \<longrightarrow> fin = Some y \<longrightarrow> x < y"
    and "intervals (nd_tables (w k) i) start fin = Inr is"
  shows "node_intervals E k i start fin w = (Inr is, w)"
proof -
  obtain s where s: "ce_pg_int E (int_str i) = Some i" "get_data (se_work (nd_session (w k))) i = Some s"
    using assms(1) by (rule has_streamE)
  obtain ps where ps: "interval_params (Object (Some i)) start fin = Inr ps"
    by (simp add: interval_params_def ref_params_def api_id_def)
  obtain r where r: "validate_query_parameters [''start'', ''end''] (as_query ps) = Inr r" "param r ''start'' = start" "param r ''end'' = fin"
    using interval_query(1) [OF assms(2) ps] by blast
  have "get_stream (ce_now E) (ce_pg_int E) (as_query ps) (nd_session (w k)) = (Inr s, nd_session (w k))"
    using s interval_query(2,3) [OF assms(2) ps] by (intro get_by_id)
  then have "client_data_intervals (ce_now E) (ce_pg_int E) (Object (Some i)) start fin (nd_session (w k), nd_tables (w k))
      = (Inr is, (nd_session (w k), nd_tables (w k)))"
    using ps r assms(3) get_data_id [OF s(2)]
    by (simp add: client_data_intervals_def data_intervals_def seqA_def in_session_def with_store_def fun_upd_idem)
  then show ?thesis by (simp add: node_intervals_def api_def on_data_def fun_upd_idem)
qed

text \<open>The tables of the destination: none yet, or with rows; the bounds resolve.\<close>

definition dest_ok :: "'f list tstore \<Rightarrow> int option \<Rightarrow> int option \<Rightarrow> 'f drow list \<Rightarrow> bool" where
  "dest_ok t start fin D =
     (distinct (map fst D)
      \<and> (st_data t = None \<and> st_ivl t = None \<and> D = []
         \<or> (\<exists>bounds a e. st_data t = Some D \<and> st_ivl t = Some bounds \<and> convert_time_bounds t start fin = Inr (Some (a, e)) \<and> a \<le> e)))"

lemma converted_bounds:
  assumes "convert_time_bounds t start fin = Inr (Some (a, e))" "st_data t = Some d"
  shows "r \<in> set d \<Longrightarrow> in_bounds start fin (fst r) \<Longrightarrow> a \<le> fst r \<and> fst r < e"
    and "a \<le> x \<Longrightarrow> x < e \<Longrightarrow> in_bounds start fin x"
  using assms by (fastforce simp: convert_time_bounds_def in_bounds_def list_min_Some_iff list_max_Some_iff split: option.splits)+

lemma dest_intervals:
  assumes "dest_ok t start fin D"
  shows "\<exists>is. intervals t start fin = Inr is \<and> ordered_intervals is \<and> (\<forall>r \<in> set D. in_bounds start fin (fst r) \<longrightarrow> covered (fst r) is)"
proof (cases "st_data t = None \<and> st_ivl t = None \<and> D = []")
  case True
  then have "intervals t start fin = Inr []"
    by (cases start; cases fin) (simp_all add: intervals_def get_boundaries_def convert_time_bounds_def)
  then show ?thesis using True by simp
next
  case False
  then obtain bounds a e where b: "st_data t = Some D" "st_ivl t = Some bounds" "convert_time_bounds t start fin = Inr (Some (a, e))" "a \<le> e"
    using assms by (auto simp: dest_ok_def)
  obtain "is" where "is": "intervals t start fin = Inr is" "interval_spec D bounds a e is" using intervals_spec [OF b] by blast
  then have "ordered_intervals is" by (simp add: interval_spec_def proper_ordered)
  then show ?thesis using "is" converted_bounds(1) [OF b(3,1)] by (fastforce simp: interval_spec_def)
qed

lemma new_intervals:
  assumes src: "interval_spec S bounds a e is" and dst: "ordered_intervals js"
    and i: "i \<in> set (interval_difference is js)"
  shows "inside S (fst i) (snd i)"
proof -
  have o: "ordered_intervals is" using src by (simp add: interval_spec_def proper_ordered)
  note d = difference_covered [OF o dst]
  have lt: "fst i < snd i" using d(2) i by (simp add: proper_intervals_def)
  have c: "covered t is" if "fst i \<le> t" "t < snd i" for t
  proof -
    have "covered t (interval_difference is js)" using i that by (auto simp: covered_def)
    then show ?thesis using d(1) by blast
  qed
  obtain j where j: "j \<in> set is" "fst j \<le> fst i" using c [of "fst i"] lt by (auto simp: covered_def)
  obtain k where k: "k \<in> set is" "snd i - 1 < snd k" using c [of "snd i - 1"] lt by (auto simp: covered_def)
  have "fst j \<in> fst ` set S" "snd k - 1 \<in> fst ` set S" using src j(1) k(1) by (auto simp: interval_spec_def)
  then obtain r q where "r \<in> set S" "fst r = fst j" "q \<in> set S" "fst q = snd k - 1" by auto
  then show ?thesis using lt j(2) k(2) by (force simp: inside_def)
qed


section \<open>Annotations are synchronized\<close>

lemma received_relabelled: "same_annotation (received rb a) (received rb (a\<lparr>an_id := j, an_stream := i\<rparr>))"
  by (simp add: same_annotation_def received_def api_annotation_from_json_def annotation_to_json_def)

lemma note_copies_mem: "note_copies i as bs \<Longrightarrow> a \<in> set as \<Longrightarrow> \<exists>j. a\<lparr>an_id := j, an_stream := i\<rparr> \<in> set bs"
  unfolding note_copies_def by (induction rule: list_all2_induct) (auto, metis)

lemma note_copies_stream: "note_copies i as bs \<Longrightarrow> b \<in> set bs \<Longrightarrow> an_stream b = i"
  unfolding note_copies_def
  by (induction rule: list_all2_induct) (auto, metis annotation.simps annotation.surjective)


section \<open>The stream that a copy creates\<close>

lemma api_element_json [simp]: "api_element_to_json (elem_from_json j) = j"
  by (simp add: api_element_to_json_def elem_from_json_def)

lemma api_stream_json [simp]: "stream_json.truncate (api_stream_to_json (api_stream_from_json (full_to_json s))) = stream_to_json s"
  by (simp add: api_stream_to_json_def api_stream_from_json_def full_to_json_def stream_json.defs full_stream_json.defs comp_def)

lemma truncate_full [simp]: "stream_json.truncate (full_to_json s) = stream_to_json s"
  by (simp add: full_to_json_def stream_json.defs full_stream_json.defs)

text \<open>A stream that its JSON form describes completely.\<close>

definition proper_stream :: "'g data_stream \<Rightarrow> bool" where
  "proper_stream s =
     (valid_name (ds_name s) \<and> list_all (\<lambda>e. el_name e \<noteq> []) (ds_elements s) \<and> ds_elements s \<noteq> []
      \<and> distinct (map el_name (ds_elements s))
      \<and> map el_index (sort_key el_index (ds_elements s)) = [0..<length (ds_elements s)])"

definition shown_elements :: "'g data_stream \<Rightarrow> 'g element list" where
  "shown_elements s = map shown_element (sort_key el_index (ds_elements s))"

lemma shown_twice [simp]: "shown_element (shown_element e) = shown_element e"
  by (simp add: shown_element_def)

lemma shown_index [simp]: "el_index (shown_element e) = el_index e" "el_name (shown_element e) = el_name e" "el_units (shown_element e) = el_units e"
  by (simp_all add: shown_element_def)

lemma shown_sorted:
  assumes "proper_stream s"
  shows "sort_key el_index (shown_elements s) = shown_elements s" "map el_index (shown_elements s) = [0..<length (shown_elements s)]"
proof -
  have m: "map el_index (shown_elements s) = [0..<length (shown_elements s)]"
    using assms by (simp add: shown_elements_def proper_stream_def comp_def)
  then show "map el_index (shown_elements s) = [0..<length (shown_elements s)]" .
  have "sorted (map el_index (shown_elements s))" unfolding m by simp
  then show "sort_key el_index (shown_elements s) = shown_elements s" by (rule sort_key_id_if_sorted)
qed

lemma stream_from_shown:
  assumes "proper_stream s" "valid_name n"
  shows "stream_from_json now (stream_to_json (s\<lparr>ds_elements := shown_elements s, ds_keep_us := k, ds_name := n,
      ds_folder := f, ds_updated := u, ds_remote := r\<rparr>))
    = Inr (s\<lparr>ds_elements := shown_elements s, ds_keep_us := k, ds_name := n, ds_folder := None, ds_updated := now, ds_remote := None\<rparr>)"
proof -
  let ?s = "s\<lparr>ds_elements := shown_elements s, ds_keep_us := k, ds_name := n, ds_folder := f, ds_updated := u, ds_remote := r\<rparr>"
  have "list_all (\<lambda>e. el_name e \<noteq> []) (shown_elements s)"
    using assms(1) by (simp add: proper_stream_def shown_elements_def list_all_iff)
  then have "stream_from_json now (stream_to_json ?s)
      = Inr (?s\<lparr>ds_elements := map shown_element (sort_key el_index (shown_elements s)), ds_folder := None, ds_updated := now, ds_remote := None\<rparr>)"
    using stream_from_to_json [of ?s now] shown_sorted [OF assms(1)] assms(2) by simp
  moreover have "map shown_element (shown_elements s) = shown_elements s" by (simp add: shown_elements_def)
  ultimately show ?thesis by (simp add: shown_sorted(1) [OF assms(1)])
qed

text \<open>The stream that the destination stores.\<close>

definition created_stream :: "int \<Rightarrow> int \<Rightarrow> int \<Rightarrow> string \<Rightarrow> 'g data_stream \<Rightarrow> 'g data_stream" where
  "created_stream now i f n s =
     (clean_stream (s\<lparr>ds_elements := shown_elements s, ds_keep_us := -1, ds_name := n, ds_remote := None\<rparr>))
       \<lparr>ds_id := i, ds_folder := Some f, ds_updated := now\<rparr>"

lemma find_None_append: "List.find P xs = None \<Longrightarrow> List.find P (xs @ ys) = List.find P ys"
  by (induction xs) (auto split: if_splits)

lemma touch_data_seq: "ct_data_seq (touch_data now i c) = ct_data_seq c"
  by (simp add: touch_data_def update_data_def Let_def split: option.split)

lemma new_stream_found:
  assumes "seqs_ok c"
  shows "get_data (add_data f x c) (ct_data_seq c + 1) = Some (x\<lparr>ds_id := ct_data_seq c + 1, ds_folder := Some f\<rparr>)"
proof -
  have "ds_id y \<noteq> ct_data_seq c + 1" if "y \<in> set (ct_data c)" for y
  proof -
    have "DataRef (ds_id y) \<in> fst ` set (streams_of c)" using that by (force simp: streams_of_def)
    then show ?thesis using assms by (auto simp: seqs_ok_def)
  qed
  then have "List.find (\<lambda>y. ds_id y = ct_data_seq c + 1) (ct_data c) = None" by (auto simp: find_None_iff)
  then show ?thesis by (simp add: get_data_def add_data_def Let_def find_None_append)
qed

lemma elements_match:
  "sorted_elements (api_stream_from_json (full_to_json s)) = map elem_from_json (map element_to_json (sort_key el_index (ds_elements s)))"
proof -
  have "ae_index (elem_from_json (element_to_json e)) = el_index e" for e :: "'a element"
    by (simp add: elem_from_json_def element_to_json_def)
  then have "map ae_index (map elem_from_json (map element_to_json (sort_key el_index (ds_elements s)))) = map el_index (sort_key el_index (ds_elements s))"
    by simp
  then have "sorted (map ae_index (map elem_from_json (map element_to_json (sort_key el_index (ds_elements s)))))" by (simp only: sorted_sort_key)
  then show ?thesis
    unfolding sorted_elements_def by (simp add: api_stream_from_json_def full_to_json_def stream_json.defs full_stream_json.defs stream_to_json_def
        sort_key_id_if_sorted)
qed

lemma created_matches:
  assumes "proper_stream s"
  shows "api_stream_layout (api_stream_from_json (full_to_json (created_stream now i f n s))) = api_stream_layout (api_stream_from_json (full_to_json s))"
    and "\<not> elements_differ (api_stream_from_json (full_to_json s)) (api_stream_from_json (full_to_json (created_stream now i f n s)))"
proof -
  let ?c = "created_stream now i f n s"
  show "api_stream_layout (api_stream_from_json (full_to_json ?c)) = api_stream_layout (api_stream_from_json (full_to_json s))"
    by (simp add: api_stream_layout_def api_stream_from_json_def full_to_json_def stream_json.defs full_stream_json.defs
        stream_to_json_def created_stream_def clean_stream_def shown_elements_def)
  have els: "ds_elements ?c = map (\<lambda>e. e\<lparr>el_id := None\<rparr>) (shown_elements s)" by (simp add: created_stream_def clean_stream_def)
  have "sort_key el_index (ds_elements ?c) = ds_elements ?c"
  proof (rule sort_key_id_if_sorted)
    have "map el_index (ds_elements ?c) = map el_index (shown_elements s)" by (simp add: els)
    then show "sorted (map el_index (ds_elements ?c))" by (simp add: shown_sorted(2) [OF assms])
  qed
  then have c: "sorted_elements (api_stream_from_json (full_to_json ?c)) = map elem_from_json (map element_to_json (ds_elements ?c))"
    using elements_match [of ?c] by simp
  show "\<not> elements_differ (api_stream_from_json (full_to_json s)) (api_stream_from_json (full_to_json ?c))"
    unfolding elements_differ_def c elements_match [of s] els shown_elements_def
    by (simp add: zip_map_map zip_same_conv_map list_ex_iff elem_from_json_def element_to_json_def shown_element_def)
qed


section \<open>Witnesses\<close>

definition demo_codec_row :: "int drow \<Rightarrow> row" where
  "demo_codec_row r = nat_le 8 (nat (fst r)) @ concat (map (\<lambda>x. nat_le 2 (nat x)) (snd r))"

definition demo_copy_env :: "int copy_env" where
  "demo_copy_env = \<lparr>ce_fuel = 20, ce_now = 0, ce_pg_int = py_int, ce_block_size = 100, ce_buffer_size = 4,
     ce_np = (\<lambda>k b n. Inr \<lparr>elem_kind = k, elem_size = nat b, elem_count = nat n\<rparr>), ce_enc = demo_codec_row,
     ce_dec = (\<lambda>r. (int (le_nat (take 8 r)), map (\<lambda>b. int (le_nat b)) (chunks 2 (drop 8 r)))),
     ce_cut = (\<lambda>bs. [Some bs]), ce_fns = demo_fns, ce_nan = (\<lambda>x. False), ce_drop = (\<lambda>b t. t), ce_cleanup = 10,
     ce_to_us = Inr, ce_of_us = Inr, ce_read_back = id\<rparr>"

definition plain_catalog :: "int catalog" where
  "plain_catalog = demo_catalog\<lparr>ct_data := [demo_stream\<lparr>ds_decimate := False\<rparr>]\<rparr>"

lemma plain_catalog_ok: "catalog_ok plain_catalog"
proof -
  have "folders_of plain_catalog = folders_of demo_catalog" "streams_of plain_catalog = streams_of demo_catalog"
    by (simp_all add: plain_catalog_def folders_of_def streams_of_def demo_catalog_def)
  then show ?thesis using demo_catalog_ok(1) by (simp add: catalog_ok_def seqs_ok_def plain_catalog_def)
qed

definition demo_node :: "int drow list \<Rightarrow> annotation list \<Rightarrow> (int, int) node" where
  "demo_node rows notes =
     \<lparr>nd_session = \<lparr>se_db = plain_catalog, se_work = plain_catalog, se_destroyed = [], se_created = []\<rparr>,
      nd_tables = (\<lambda>_. \<lparr>st_data = Some rows, st_ivl = Some [], st_decim = []\<rparr>),
      nd_notes = \<lparr>at_rows = notes, at_seq = 1\<rparr>\<rparr>"

definition demo_note :: annotation where
  "demo_note = \<lparr>an_id = 1, an_title = Some ''on'', an_content = None, an_start = 6, an_end = Some 7, an_stream = 1\<rparr>"

definition demo_world :: "(int, int) world" where
  "demo_world = (\<lambda>k. if k = ''a'' then demo_node [(5, [7, 8]), (9, [1, 2])] [demo_note] else demo_node [(5, [7, 8])] [])"

lemma demo_core: "stream_core (demo_world k) 1 = Some (''int16_2'', False, -1)"
proof -
  have "se_work (nd_session (demo_world k)) = plain_catalog" by (simp add: demo_world_def demo_node_def)
  moreover have "get_data plain_catalog 1 = Some (demo_stream\<lparr>ds_decimate := False\<rparr>)" by code_simp
  moreover have "ds_layout (demo_stream\<lparr>ds_decimate := False\<rparr>) = ''int16_2''" by code_simp
  ultimately show ?thesis by (simp add: stream_core_def) (simp add: demo_stream_def)
qed

lemma demo_has_stream: "has_stream demo_copy_env (demo_world k) 1 ''int16_2''"
  unfolding has_stream_def demo_core by (auto simp: demo_copy_env_def Prelude.py_int_str)

lemma demo_exact: "notes_exact demo_copy_env 1 (demo_world ''a'')"
  by (simp add: notes_exact_def demo_world_def demo_node_def demo_note_def annotation_ok_def no_title_def exact_times_def received_def
      api_annotation_from_json_def annotation_to_json_def demo_copy_env_def)

lemma short_no_full: "length rows < bs - 1 \<Longrightarrow> no_full_interval bs rows a fins"
proof (induction fins arbitrary: a)
  case (Cons f fins)
  have "length (sorted_rows rows a f) \<le> length rows" by simp
  then have "length (sorted_rows rows a f) < bs - 1" using Cons.prems by linarith
  then show ?case using Cons by simp
qed simp




end
