(* ===== verification/Event_API.thy ===== *)
theory Event_API
  imports Event_Store Client_API
begin

text \<open>
  The requests on event streams: the handlers of \<open>controllers/event_controller.py\<close> on the session and the tables of
  events, and the client of \<open>api/event_stream.py\<close> with its class for event streams.  The table of a stream may be
  missing; the record \<open>event_env\<close> is what surrounds the program.
\<close>

section \<open>The handlers\<close>

type_synonym ('f, 'j, 'a) event_request = "('f session \<times> (int \<Rightarrow> 'j event_table option), 'a) act"

record 'j event_env =
  ve_now :: int
  ve_pg_int :: "string \<Rightarrow> int option"
  ve_categories :: "string \<Rightarrow> string list option"
  ve_fmul :: "int \<Rightarrow> int \<Rightarrow> int"
  ve_filter :: "string \<Rightarrow> ('j \<Rightarrow> bool) option"
  ve_buckets :: "int \<Rightarrow> int \<Rightarrow> (int \<times> nat) list"

definition in_events :: "('f, 'a) handler \<Rightarrow> ('f, 'j, 'a) event_request" where
  "in_events h s = (case h (fst s) of (r, t) \<Rightarrow> (r, (t, snd s)))"

definition on_table :: "int \<Rightarrow> ('j event_table, 'a) act \<Rightarrow> ('f, 'j, 'a) event_request" where
  "on_table i f s =
     (case snd s i of
        None \<Rightarrow> (Inl UndefinedTableError, s)
      | Some t \<Rightarrow> (case f t of (r, t) \<Rightarrow> (r, (fst s, (snd s)(i := Some t)))))"

text \<open>The stream that a query names, or a body.\<close>

definition event_of_query :: "'j event_env \<Rightarrow> settings \<Rightarrow> ('f, event_stream) handler" where
  "event_of_query E q =
     (case map_of q ''path'' of
        Some p \<Rightarrow> locate_event (ve_now E) (ByPath p)
      | None \<Rightarrow>
          (case map_of q ''id'' of
             Some i \<Rightarrow> (case ve_pg_int E i of None \<Rightarrow> raiseA StatementError | Some i \<Rightarrow> locate_event (ve_now E) (ById i))
           | None \<Rightarrow> locate_event (ve_now E) Unspecified))"

type_synonym event_data_info = "int option \<times> int option \<times> nat \<times> int"

definition event_info :: "'j event_env \<Rightarrow> settings \<Rightarrow> ('f, 'j, event_stream_json \<times> event_data_info) event_request" where
  "event_info E q =
     seqA (in_events (event_of_query E q)) (\<lambda>s.
     on_table (vs_id s) (\<lambda>t. (Inr (event_stream_to_json s, es_info t), t)))"

text \<open>\<open>EventStore.create\<close> keeps a table that is there.\<close>

definition create_event_table :: "int \<Rightarrow> ('f, 'j, unit) event_request" where
  "create_event_table i =
     modifyA (\<lambda>(s, tables). (s, if tables i = None then tables(i := Some \<lparr>et_stream = i, et_rows = [], et_seq = 0\<rparr>) else tables))"

definition drop_event_table :: "int \<Rightarrow> ('f, 'j, unit) event_request" where
  "drop_event_table i = modifyA (\<lambda>(s, tables). (s, tables(i := None)))"

definition serve_event_create :: "'j event_env \<Rightarrow> event_stream_json \<Rightarrow> locator \<Rightarrow> ('f, 'j, event_stream_json) event_request" where
  "serve_event_create E j dest =
     seqA (in_events (event_create (ve_categories E) (ve_now E) (Some (Inr j)) dest)) (\<lambda>_.
     seqA (in_events (view (\<lambda>c. pureA (ct_event_seq c)))) (\<lambda>i.
     seqA (create_event_table i) (\<lambda>_.
     in_events (view (\<lambda>c. case get_event c i of
       None \<Rightarrow> raiseA PyAttributeError
     | Some s \<Rightarrow> pureA (event_stream_to_json s))))))"

definition serve_event_delete :: "'j event_env \<Rightarrow> settings \<Rightarrow> ('f, 'j, unit) event_request" where
  "serve_event_delete E q =
     seqA (in_events (event_of_query E q)) (\<lambda>s.
     seqA (drop_event_table (vs_id s)) (\<lambda>_.
     in_events (event_delete (ve_now E) (ById (vs_id s)))))"

definition parse_json_filter :: "(string \<Rightarrow> 'q option) \<Rightarrow> settings \<Rightarrow> 'q option res" where
  "parse_json_filter load q =
     (case map_of q ''filter'' of
        None \<Rightarrow> Inr None
      | Some t \<Rightarrow>
          if t = [] then Inr None
          else (case load t of None \<Rightarrow> Inl (HTTPBadRequest ''invalid filter parameter'') | Some f \<Rightarrow> Inr (Some f)))"

definition passes_filter :: "('j \<Rightarrow> bool) option \<Rightarrow> 'j \<Rightarrow> bool" where
  "passes_filter f = (case f of None \<Rightarrow> (\<lambda>_. True) | Some g \<Rightarrow> g)"

definition event_params :: "'j event_env \<Rightarrow> settings \<Rightarrow> ((string \<times> int option) list \<times> ('j \<Rightarrow> bool) option) res" where
  "event_params E q =
     bindE (validate_query_parameters [''start'', ''end'', ''include-ongoing-events''] q) (\<lambda>r.
     bindE (parse_json_filter (ve_filter E) q) (\<lambda>f. Inr (r, f)))"

definition with_ongoing :: "(string \<times> int option) list \<Rightarrow> bool" where
  "with_ongoing r = (case param r ''include-ongoing-events'' of None \<Rightarrow> False | Some i \<Rightarrow> i \<noteq> 0)"

definition count_events :: "'j event_env \<Rightarrow> settings \<Rightarrow> ('f, 'j, nat) event_request" where
  "count_events E q =
     seqA (in_events (event_of_query E q)) (\<lambda>s.
     case event_params E q of
       Inl e \<Rightarrow> raiseA e
     | Inr (r, f) \<Rightarrow>
         on_table (vs_id s) (\<lambda>t. (es_count (passes_filter f) (with_ongoing r) (param r ''start'') (param r ''end'') t, t)))"

definition serve_read_events :: "'j event_env \<Rightarrow> settings \<Rightarrow> ('f, 'j, 'j events_answer) event_request" where
  "serve_read_events E q =
     seqA (in_events (event_of_query E q)) (\<lambda>s.
     case map_of q ''limit'' of
       None \<Rightarrow> raiseA (HTTPBadRequest ''limit parameter is required'')
     | Some l \<Rightarrow>
         if (case py_int l of None \<Rightarrow> True | Some l \<Rightarrow> l < 0)
         then raiseA (HTTPBadRequest ''limit parameter must be an integer > 0'')
         else
           (case event_params E q of
              Inl e \<Rightarrow> raiseA e
            | Inr (r, f) \<Rightarrow>
                on_table (vs_id s) (\<lambda>t.
                  (read_events (ve_buckets E) (passes_filter f) (with_ongoing r) (param r ''start'') (param r ''end'')
                     (the (py_int l)) (map_of q ''return-subset'' \<noteq> None) t, t))))"

definition remove_events :: "'j event_env \<Rightarrow> settings \<Rightarrow> ('f, 'j, unit) event_request" where
  "remove_events E q =
     seqA (in_events (event_of_query E q)) (\<lambda>s.
     case bindE (validate_query_parameters [''start'', ''end''] q) (\<lambda>r.
          bindE (parse_json_filter (ve_filter E) q) (\<lambda>f. Inr (r, f))) of
       Inl e \<Rightarrow> raiseA e
     | Inr (r, f) \<Rightarrow> on_table (vs_id s) (\<lambda>t. (Inr (), es_remove f (param r ''start'') (param r ''end'') t)))"

definition serve_write_events :: "'j event_env \<Rightarrow> locator \<Rightarrow> (bool \<times> 'j event) list option \<Rightarrow> ('f, 'j, 'j event list) event_request" where
  "serve_write_events E l events =
     seqA (in_events (locate_event (ve_now E) l)) (\<lambda>s.
     case events of
       None \<Rightarrow> raiseA (HTTPBadRequest ''specify events to add'')
     | Some events \<Rightarrow> on_table (vs_id s) (write_events events))"

section \<open>The client's event streams\<close>

text \<open>A number of microseconds from the server may be any JSON value; Python's \<open>None\<close> is \<open>JNull\<close>.\<close>

record api_event_stream =
  av_id :: "int option"
  av_name :: "string option"
  av_description :: "string option"
  av_event_fields :: "(string \<times> string) list"
  av_chunk_duration_us :: json_int
  av_keep_us :: json_int

definition parse_time_duration :: "(int \<Rightarrow> int \<Rightarrow> int) \<Rightarrow> string \<Rightarrow> int res" where
  "parse_time_duration fmul s =
     (case py_int s of
        Some i \<Rightarrow> Inr i
      | None \<Rightarrow>
          if s = [] then Inr 0
          else if butlast s = [] \<or> \<not> list_all is_digit (butlast s) \<or> keep_unit (last s) = None
          then Inl (ApiError ''invalid duration use format #unit (eg 1w)'')
          else if digits_val (butlast s) = 0
          then Inl (ApiError ''invalid duration use format #unit (eg 1w), none or all'')
          else Inr (fmul (int (digits_val (butlast s))) (the (keep_unit (last s)))))"

definition new_event_stream :: "'j event_env \<Rightarrow> string option \<Rightarrow> string option \<Rightarrow> string \<Rightarrow> json_int \<Rightarrow> json_int
    \<Rightarrow> (string \<times> string) list option \<Rightarrow> api_event_stream res" where
  "new_event_stream E name description chunk_duration chunk_us keep evf =
     bindE (if chunk_us \<noteq> JNull then
              (if chunk_duration \<noteq> [] then Inl (ApiError ''specify either chunk_duration or chunk_duration_us, not both'')
               else Inr chunk_us)
            else bindE (parse_time_duration (ve_fmul E) chunk_duration) (\<lambda>d. Inr (JInt d))) (\<lambda>chunk.
     bindE (case evf of None \<Rightarrow> Inr [] | Some f \<Rightarrow> validate_event_fields (ve_categories E) f) (\<lambda>evf.
     Inr \<lparr>av_id = None, av_name = name, av_description = description, av_event_fields = evf,
          av_chunk_duration_us = chunk, av_keep_us = keep\<rparr>))"

definition api_event_stream_from_json :: "event_stream_json \<Rightarrow> api_event_stream" where
  "api_event_stream_from_json j =
     \<lparr>av_id = Some (vj_id j), av_name = vj_name j, av_description = vj_description j,
      av_event_fields = vj_event_fields j, av_chunk_duration_us = vj_chunk_duration_us j, av_keep_us = vj_keep_us j\<rparr>"

definition api_event_stream_to_json :: "api_event_stream \<Rightarrow> event_stream_json" where
  "api_event_stream_to_json s =
     \<lparr>vj_id = (case av_id s of None \<Rightarrow> 0 | Some i \<Rightarrow> i), vj_name = av_name s, vj_description = av_description s,
      vj_event_fields = av_event_fields s, vj_chunk_duration_us = av_chunk_duration_us s, vj_keep_us = av_keep_us s\<rparr>"

section \<open>The client's requests\<close>

definition invalid_event_stream :: exn where
  "invalid_event_stream = ApiError ''Invalid stream datatype. Must be EventStream, Path, or ID''"

definition event_ref_params :: "reference \<Rightarrow> params res" where
  "event_ref_params r = ref_params invalid_event_stream ''id'' ''path'' r"

definition time_params :: "int option \<Rightarrow> int option \<Rightarrow> string option \<Rightarrow> params" where
  "time_params start fin flt =
     (case start of None \<Rightarrow> [] | Some s \<Rightarrow> [(''start'', PInt s)]) @ (case fin of None \<Rightarrow> [] | Some e \<Rightarrow> [(''end'', PInt e)])
     @ (case flt of None \<Rightarrow> [] | Some f \<Rightarrow> [(''filter'', PStr f)])"

text \<open>A request with these parameters in its query, and with its failure as the client sees it.\<close>

definition query_request :: "params res \<Rightarrow> (settings \<Rightarrow> ('s, 'a) act) \<Rightarrow> ('s, 'a) act" where
  "query_request ps h = (case ps of Inl e \<Rightarrow> raiseA e | Inr ps \<Rightarrow> api (h (as_query ps)))"

definition event_stream_delete :: "'j event_env \<Rightarrow> reference \<Rightarrow> ('f, 'j, unit) event_request" where
  "event_stream_delete E r = query_request (event_ref_params r) (serve_event_delete E)"

definition event_stream_create :: "'j event_env \<Rightarrow> api_event_stream \<Rightarrow> reference \<Rightarrow> ('f, 'j, api_event_stream) event_request" where
  "event_stream_create E s folder =
     (case stream_create_params folder of
        Inl e \<Rightarrow> raiseA e
      | Inr ps \<Rightarrow>
          seqA (api (serve_event_create E (api_event_stream_to_json s) (body_locator ''dest_path'' ''dest_id'' ps)))
            (\<lambda>j. pureA (api_event_stream_from_json j)))"

definition event_stream_info :: "'j event_env \<Rightarrow> reference \<Rightarrow> ('f, 'j, event_data_info) event_request" where
  "event_stream_info E r = seqA (query_request (event_ref_params r) (event_info E)) (\<lambda>(j, info). pureA info)"

text \<open>\<open>event_stream_get\<close>: with \<open>create\<close>, any failure of the request for a path leads to the creation of the stream.\<close>

record event_stream_template =
  vt_description :: "string option"
  vt_chunk_duration :: string
  vt_chunk_duration_us :: json_int
  vt_event_fields :: "(string \<times> string) list option"

definition event_stream_get :: "'j event_env \<Rightarrow> reference \<Rightarrow> event_stream_template option \<Rightarrow> ('f, 'j, api_event_stream) event_request" where
  "event_stream_get E r template =
     (case event_ref_params r of
        Inl e \<Rightarrow> raiseA e
      | Inr ps \<Rightarrow> (\<lambda>s.
          case (api (event_info E (as_query ps)) s, template, r) of
            ((Inr (j, info), s'), _, _) \<Rightarrow> (Inr (api_event_stream_from_json j), s')
          | ((Inl e, s'), Some T, Path p) \<Rightarrow>
              (let names = py_split (CHR ''/'') p
               in case new_event_stream E (Some (last names)) (vt_description T) (vt_chunk_duration T) (vt_chunk_duration_us T)
                         (JInt (- 1)) (vt_event_fields T) of
                    Inl e \<Rightarrow> (Inl e, s')
                  | Inr v \<Rightarrow> event_stream_create E v (Path (py_join ''/'' (butlast names))) s')
          | ((Inl e, s'), _, _) \<Rightarrow> (Inl e, s')))"

text \<open>\<open>event_stream_update\<close>: the fields are checked before they are sent.\<close>

definition event_stream_update :: "'j event_env \<Rightarrow> api_event_stream \<Rightarrow> ('f, 'j, unit) event_request" where
  "event_stream_update E s =
     (case bindE (validate_event_fields (ve_categories E) (av_event_fields s)) (\<lambda>_. api_id (av_id s)) of
        Inl e \<Rightarrow> raiseA e
      | Inr i \<Rightarrow>
          api (in_events (event_update (ve_categories E) (ve_now E) (Some i)
            (Some \<lparr>va_name = Some (av_name s), va_description = Some (av_description s), va_event_fields = Some (av_event_fields s),
                   va_chunk_duration_us = Some (av_chunk_duration_us s), va_keep_us = Some (av_keep_us s)\<rparr>))))"

definition event_stream_move :: "'j event_env \<Rightarrow> reference \<Rightarrow> reference \<Rightarrow> ('f, 'j, unit) event_request" where
  "event_stream_move E source dest =
     (case bindE (ref_params (ApiError ''Invalid source datatype. Must be EventStream, Path, or ID'') ''src_id'' ''src_path'' source) (\<lambda>ps.
           bindE (ref_params (ApiError ''Invalid destination datatype. Must be Folder, Path, or ID'') ''dest_id'' ''dest_path'' dest) (\<lambda>qs.
           Inr (ps @ qs))) of
        Inl e \<Rightarrow> raiseA e
      | Inr ps \<Rightarrow> api (in_events (event_move (ve_now E) (body_locator ''src_path'' ''src_id'' ps) (body_locator ''dest_path'' ''dest_id'' ps))))"

definition event_stream_count :: "'j event_env \<Rightarrow> reference \<Rightarrow> int option \<Rightarrow> int option \<Rightarrow> string option \<Rightarrow> bool
    \<Rightarrow> ('f, 'j, nat) event_request" where
  "event_stream_count E r start fin flt ongoing =
     query_request
       (bindE (event_ref_params r) (\<lambda>ps.
        Inr (ps @ time_params start fin flt @ (if ongoing then [(''include-ongoing-events'', PInt 1)] else []))))
       (count_events E)"

definition event_stream_remove :: "'j event_env \<Rightarrow> reference \<Rightarrow> int option \<Rightarrow> int option \<Rightarrow> string option
    \<Rightarrow> ('f, 'j, unit) event_request" where
  "event_stream_remove E r start fin flt =
     query_request (bindE (event_ref_params r) (\<lambda>ps. Inr (ps @ time_params start fin flt))) (remove_events E)"

text \<open>
  One request of \<open>event_stream_read\<close>, and its loop with what is done with each block before the next is asked for.
  After the first block the parameter for ongoing events is set to zero.
\<close>

definition event_page :: "'j event_env \<Rightarrow> string \<Rightarrow> reference \<Rightarrow> int option \<Rightarrow> string option \<Rightarrow> int
    \<Rightarrow> int option \<Rightarrow> int option \<Rightarrow> ('f, 'j, 'j api_event list) event_request" where
  "event_page E node r fin flt block_size start ongoing =
     seqA (query_request
             (bindE (event_ref_params r) (\<lambda>ps.
              Inr (ps @ time_params start fin flt @ [(''limit'', PInt block_size), (''return-subset'', PInt 1)]
                @ (case ongoing of None \<Rightarrow> [] | Some i \<Rightarrow> [(''include-ongoing-events'', PInt i)]))))
             (serve_read_events E))
       (\<lambda>a s. (case a of Events es \<Rightarrow> mapE (api_from_json node) es | Histogram h \<Rightarrow> Inl (PyKeyError ''content''), s))"

fun event_pages :: "nat \<Rightarrow> (int option \<Rightarrow> int option \<Rightarrow> ('s, 'j api_event list) act) \<Rightarrow> ('j api_event list \<Rightarrow> ('s, unit) act)
    \<Rightarrow> int option \<Rightarrow> int option \<Rightarrow> int option \<Rightarrow> ('s, unit) act" where
  "event_pages 0 ask use fin start ongoing = raiseA CancelledError"
| "event_pages (Suc n) ask use fin start ongoing =
     seqA (ask start ongoing) (\<lambda>events.
     if events = [] then pureA ()
     else
       seqA (use events) (\<lambda>_.
       let start = ev_start (last events) + 1
       in if (case fin of None \<Rightarrow> False | Some e \<Rightarrow> e \<le> start) then pureA ()
          else event_pages n ask use fin (Some start) (Some 0)))"

text \<open>\<open>event_stream_write\<close> with the stream that takes the events; each block is a request.\<close>

definition event_write_params :: "reference \<Rightarrow> locator res" where
  "event_write_params r = bindE (event_ref_params r) (\<lambda>ps. Inr (body_locator ''path'' ''id'' ps))"

fun write_event_blocks :: "nat \<Rightarrow> 'j event_env \<Rightarrow> string \<Rightarrow> locator \<Rightarrow> 'j api_event list \<Rightarrow> 'j api_event list
    \<Rightarrow> ('f, 'j, 'j api_event list) event_request" where
  "write_event_blocks 0 E node l rx_events events = pureA []"
| "write_event_blocks (Suc n) E node l rx_events events =
     (if events = [] then pureA []
      else
        (let chunk = take 500 events
         in seqA (api (serve_write_events E l (Some (map (\<lambda>e. (True, api_to_json node e)) chunk)))) (\<lambda>resp.
            case mapE (api_from_json node) resp of
              Inl e \<Rightarrow> raiseA e
            | Inr rx \<Rightarrow>
                (let rx_events = rx_events @ rx;
                     chunk' = map2 (\<lambda>e r. e\<lparr>ev_id := ev_id r\<rparr>) chunk rx_events
                 in seqA (write_event_blocks n E node l rx_events (drop 500 events)) (\<lambda>rest. pureA (chunk' @ rest))))))"

definition write_to_event_stream :: "'j event_env \<Rightarrow> string \<Rightarrow> reference \<Rightarrow> 'j api_event list
    \<Rightarrow> ('f, 'j, 'j api_event list) event_request" where
  "write_to_event_stream E node r events =
     (case event_write_params r of
        Inl e \<Rightarrow> raiseA e
      | Inr l \<Rightarrow> write_event_blocks (length events) E node l [] events)"

end
