(* ===== verification/Event_Copy.thy ===== *)
theory Event_Copy
  imports Event_API Data_Copy
begin

text \<open>
  Copying events from one node to another: \<open>cli/event/copy.py\<close>.  The copier makes sure that the stream of the
  destination is there, removes its events in the range if it is told to, and writes the events of the source
  block by block.  A node is the session and the tables its handlers work on, and its identifier.
\<close>

section \<open>The command\<close>

record ('f, 'j) event_node =
  en_session :: "'f session"
  en_tables :: "int \<Rightarrow> 'j event_table option"
  en_uuid :: string

type_synonym ('f, 'j) event_world = "string \<Rightarrow> ('f, 'j) event_node"
type_synonym ('f, 'j, 'a) event_call = "(('f, 'j) event_world, 'a) act"

definition at_node :: "string \<Rightarrow> ('f, 'j, 'a) event_request \<Rightarrow> ('f, 'j, 'a) event_call" where
  "at_node k h w =
     (case h (en_session (w k), en_tables (w k)) of
        (r, (s, t)) \<Rightarrow> (r, w(k := (w k)\<lparr>en_session := s, en_tables := t\<rparr>)))"

definition node_uuid :: "string \<Rightarrow> ('f, 'j, string) event_call" where
  "node_uuid k w = (Inr (en_uuid (w k)), w)"

record event_copy_options =
  eo_start :: "string option"
  eo_end :: "string option"
  eo_action :: string
  eo_new :: bool
  eo_destination_node :: "string option"

text \<open>The bounds are handed to the count as they were given, as text, on which the client calls \<open>int\<close>.\<close>

definition has_existing_events :: "'j event_env \<Rightarrow> string \<Rightarrow> string \<Rightarrow> string option \<Rightarrow> string option \<Rightarrow> ('f, 'j, bool) event_call" where
  "has_existing_events E k path start fin w =
     (let int_of = (\<lambda>t. case t of None \<Rightarrow> Inr None
                         | Some t \<Rightarrow> (case py_int t of None \<Rightarrow> Inl PyValueError | Some i \<Rightarrow> Inr (Some i)))
      in case bindE (int_of start) (\<lambda>a. bindE (int_of fin) (\<lambda>e. Inr (a, e))) of
           Inl e \<Rightarrow> (Inl e, w)
         | Inr (a, e) \<Rightarrow>
             (case at_node k (event_stream_count E (Path path) a e None False) w of
                (Inr n, w') \<Rightarrow> (Inr (0 < n), w')
              | (Inl (ApiError m), w') \<Rightarrow> if occurs_in ''does not exist'' m then (Inr False, w') else (Inl (ApiError m), w')
              | (Inl e, w') \<Rightarrow> (Inl e, w')))"

text \<open>Whether the events of the destination are to be replaced; \<open>choice\<close> is the key the user presses.\<close>

definition action_for_existing_events :: "'j event_env \<Rightarrow> char \<Rightarrow> string \<Rightarrow> string \<Rightarrow> string \<Rightarrow> string option \<Rightarrow> string option
    \<Rightarrow> ('f, 'j, bool option) event_call" where
  "action_for_existing_events E choice k path action start fin =
     (if action = ''replace'' then pureA (Some True)
      else if action = ''ignore'' then pureA (Some False)
      else if action = ''prompt'' then
        seqA (has_existing_events E k path start fin) (\<lambda>there.
        if \<not> there then pureA (Some False)
        else if choice = CHR ''c'' then raiseA (ClickException ''Action cancelled'')
        else if choice = CHR ''i'' then pureA (Some False)
        else if choice = CHR ''r'' then pureA (Some True)
        else pureA None)
      else raiseA (ClickException ''invalid option, cancelling copy''))"

definition event_copy_bounds :: "(string \<Rightarrow> int option) \<Rightarrow> string option \<Rightarrow> string option \<Rightarrow> (int option \<times> int option) res" where
  "event_copy_bounds parse start fin =
     bindE (parse_time parse ''invalid start time: [%s]'' start) (\<lambda>a.
     bindE (parse_time parse ''invalid end time: [%s]'' fin) (\<lambda>e.
     case (a, e) of
       (Some x, Some y) \<Rightarrow>
         if y - x \<le> 0 then Inl (ClickException ''Error: start {ts2h(start)} must be before end f{ts2h(end)}'') else Inr (a, e)
     | _ \<Rightarrow> Inr (a, e)))"

text \<open>The loop: the blocks of the source, each written before the next is read.\<close>

definition transfer_events :: "nat \<Rightarrow> 'j event_env \<Rightarrow> string \<Rightarrow> string \<Rightarrow> string \<Rightarrow> string \<Rightarrow> int option \<Rightarrow> int option
    \<Rightarrow> ('f, 'j, unit) event_call" where
  "transfer_events n E k1 k2 source dest start fin =
     seqA (node_uuid k1) (\<lambda>uuid.
     event_pages n (\<lambda>start ongoing. at_node k1 (event_page E uuid (Path source) fin None 10000 start ongoing))
       (\<lambda>events. seqA (node_uuid k2) (\<lambda>uuid.
          seqA (at_node k2 (write_to_event_stream E uuid (Path dest) events)) (\<lambda>_. pureA ())))
       fin start None)"

definition event_copy :: "nat \<Rightarrow> 'j event_env \<Rightarrow> (string \<Rightarrow> int option) \<Rightarrow> string \<Rightarrow> string \<Rightarrow> string option \<Rightarrow> string option
    \<Rightarrow> bool \<Rightarrow> bool \<Rightarrow> string \<Rightarrow> string \<Rightarrow> ('f, 'j, unit) event_call" where
  "event_copy n E parse k1 k2 start fin new replace source dest =
     (case event_copy_bounds parse start fin of
        Inl e \<Rightarrow> raiseA e
      | Inr (start, fin) \<Rightarrow>
          seqA (at_node k1 (event_stream_get E (Path source) None)) (\<lambda>s.
          seqA (at_node k2 (event_stream_get E (Path dest)
                  (Some \<lparr>vt_description = av_description s, vt_chunk_duration = [], vt_chunk_duration_us = av_chunk_duration_us s,
                         vt_event_fields = Some (av_event_fields s)\<rparr>))) (\<lambda>_.
          seqA (if new then seqA (at_node k2 (event_stream_info E (Path dest))) (\<lambda>(a, e, _). pureA e)
                else seqA (if replace then at_node k2 (event_stream_remove E (Path dest) start fin None) else pureA ())
                       (\<lambda>_. pureA start)) (\<lambda>start.
          seqA (at_node k1 (event_stream_info E (Path source))) (\<lambda>_.
          transfer_events n E k1 k2 source dest start fin)))))"

definition cli_copy :: "nat \<Rightarrow> 'j event_env \<Rightarrow> (string \<Rightarrow> int option) \<Rightarrow> (string \<Rightarrow> bool) \<Rightarrow> char \<Rightarrow> string \<Rightarrow> event_copy_options
    \<Rightarrow> string \<Rightarrow> string \<Rightarrow> ('f, 'j, unit) event_call" where
  "cli_copy n E parse known choice k1 opts source dest =
     (let k2 = (case eo_destination_node opts of None \<Rightarrow> k1 | Some k \<Rightarrow> k);
          run = seqA (action_for_existing_events E choice k2 dest (eo_action opts) (eo_start opts) (eo_end opts)) (\<lambda>replace.
                event_copy n E parse k1 k2 (eo_start opts) (eo_end opts) (eo_new opts) (replace = Some True) source dest)
      in if eo_destination_node opts \<noteq> None \<and> \<not> known k2
         then raiseA (ClickException ''Invalid destination node [{destination_node}]'')
         else (\<lambda>w. case run w of (Inl (ApiError m), w') \<Rightarrow> (Inl (ClickException m), w') | r \<Rightarrow> r))"

section \<open>Requests on a stream that is there\<close>

definition event_at :: "'j event_env \<Rightarrow> ('f, 'j) event_node \<Rightarrow> string \<Rightarrow> int \<Rightarrow> 'j event_table \<Rightarrow> bool" where
  "event_at E nd path i t =
     (\<exists>v. locate_event (ve_now E) (ByPath path) (en_session nd) = (Inr v, en_session nd) \<and> vs_id v = i
        \<and> en_tables nd i = Some t \<and> et_stream t = i)"

definition put_events :: "string \<Rightarrow> int \<Rightarrow> 'j event_table \<Rightarrow> ('f, 'j) event_world \<Rightarrow> ('f, 'j) event_world" where
  "put_events k i t w = w(k := (w k)\<lparr>en_tables := (en_tables (w k))(i := Some t)\<rparr>)"

lemma put_events_same [simp]: "en_tables (w k) i = Some t \<Longrightarrow> put_events k i t w = w"
  by (simp add: put_events_def fun_upd_idem)

lemma put_events_twice [simp]: "put_events k i t (put_events k i u w) = put_events k i t w"
  by (simp add: put_events_def)

lemma put_events_uuid [simp]: "en_uuid (put_events k i t w j) = en_uuid (w j)"
  by (simp add: put_events_def)

lemma event_at_put: "event_at E (w k) path i t \<Longrightarrow> et_stream t' = i \<Longrightarrow> event_at E (put_events k i t' w k) path i t'"
  by (auto simp: event_at_def put_events_def)

lemma event_at_other:
  "event_at E (w k1) path i1 t \<Longrightarrow> (k1, i1) \<noteq> (k2, i2) \<Longrightarrow> event_at E (put_events k2 i2 t' w k1) path i1 t"
  by (auto simp: event_at_def put_events_def)

lemma path_query: "map_of q ''path'' = Some p \<Longrightarrow> event_of_query E q = locate_event (ve_now E) (ByPath p)"
  by (simp add: event_of_query_def)

lemma api_ok: "h s = (Inr x, s') \<Longrightarrow> api h s = (Inr x, s')"
  by (simp add: api_def)

lemma on_table_at:
  assumes "event_at E nd path i t" "map_of q ''path'' = Some path" "f t = (r, t')"
  shows "seqA (in_events (event_of_query E q)) (\<lambda>s. on_table (vs_id s) f) (en_session nd, en_tables nd)
    = (r, (en_session nd, (en_tables nd)(i := Some t')))"
  using assms by (auto simp: event_at_def path_query seqA_def in_events_def on_table_def)

lemma at_node_put: "h (en_session (w k), en_tables (w k)) = (r, (en_session (w k), (en_tables (w k))(i := Some t))) \<Longrightarrow>
    at_node k h w = (r, put_events k i t w)"
  by (simp add: at_node_def put_events_def)

lemma info_at:
  assumes "event_at E (w k) path i t"
  shows "\<exists>j. at_node k (query_request (event_ref_params (Path path)) (event_info E)) w = (Inr (j, es_info t), w)"
proof -
  obtain v where v: "locate_event (ve_now E) (ByPath path) (en_session (w k)) = (Inr v, en_session (w k))" "vs_id v = i"
    "en_tables (w k) i = Some t" using assms by (auto simp: event_at_def)
  have "event_info E [(''path'', path)] (en_session (w k), en_tables (w k))
      = (Inr (event_stream_to_json v, es_info t), (en_session (w k), en_tables (w k)))"
    using v by (simp add: event_info_def event_of_query_def seqA_def in_events_def on_table_def fun_upd_idem)
  then show ?thesis
    by (simp add: query_request_def event_ref_params_def ref_params_def as_query_def api_ok at_node_def fun_upd_idem)
qed

lemma stream_info_at: "event_at E (w k) path i t \<Longrightarrow> at_node k (event_stream_info E (Path path)) w = (Inr (es_info t), w)"
  using info_at [of E w k path i t]
  by (auto simp: event_stream_info_def at_node_def seqA_def pureA_def split: sum.splits prod.splits)

lemma get_at: "event_at E (w k) path i t \<Longrightarrow> \<exists>s. at_node k (event_stream_get E (Path path) T) w = (Inr s, w)"
  using info_at [of E w k path i t]
  by (auto simp: event_stream_get_def at_node_def query_request_def event_ref_params_def ref_params_def split: sum.splits prod.splits)

lemma validate_times:
  assumes "\<not> bad_bounds start fin" "ks = [''start'', ''end''] \<or> ks = [''start'', ''end'', ''include-ongoing-events'']"
    and "map_of q ''start'' = map_option int_str start" "map_of q ''end'' = map_option int_str fin"
    and "map_of q ''include-ongoing-events'' = map_option int_str ongoing"
  shows "\<exists>r. validate_query_parameters ks q = Inr r \<and> param r ''start'' = start \<and> param r ''end'' = fin
    \<and> (length ks = 3 \<longrightarrow> param r ''include-ongoing-events'' = ongoing)"
  using assms
  by (cases start; cases fin; cases ongoing) (auto simp: validate_query_parameters_def param_def bad_bounds_def py_int_str)

lemma time_params_lookup:
  "map_of (as_query ((''path'', PStr p) # time_params start fin None @ ps)) ''path'' = Some p"
  "map_of (as_query ((''path'', PStr p) # time_params start fin None @ ps)) ''start'' =
     (case start of None \<Rightarrow> map_of (as_query ps) ''start'' | Some s \<Rightarrow> Some (int_str s))"
  "map_of (as_query ((''path'', PStr p) # time_params start fin None @ ps)) ''end'' =
     (case fin of None \<Rightarrow> map_of (as_query ps) ''end'' | Some s \<Rightarrow> Some (int_str s))"
  "k \<notin> {''path'', ''start'', ''end''} \<Longrightarrow>
     map_of (as_query ((''path'', PStr p) # time_params start fin None @ ps)) k = map_of (as_query ps) k"
  by (cases start; cases fin; simp add: as_query_def time_params_def)+

lemma path_params: "event_ref_params (Path p) = Inr [(''path'', PStr p)]"
  by (simp add: event_ref_params_def ref_params_def)

lemma no_filter: "map_of q ''filter'' = None \<Longrightarrow> parse_json_filter f q = Inr None"
  by (simp add: parse_json_filter_def)

lemma remove_at:
  assumes "event_at E (w k) path i t" "\<not> bad_bounds start fin"
  shows "at_node k (event_stream_remove E (Path path) start fin None) w = (Inr (), put_events k i (es_remove None start fin t) w)"
proof -
  let ?q = "as_query ((''path'', PStr path) # time_params start fin None @ [])"
  have q: "map_of ?q ''start'' = map_option int_str start" "map_of ?q ''end'' = map_option int_str fin"
    "map_of ?q ''path'' = Some path" "map_of ?q ''filter'' = None" "map_of ?q ''include-ongoing-events'' = map_option int_str None"
    unfolding time_params_lookup by (cases start; cases fin; simp add: as_query_def time_params_def)+
  obtain r where r: "validate_query_parameters [''start'', ''end''] ?q = Inr r" "param r ''start'' = start" "param r ''end'' = fin"
    using validate_times [OF assms(2) _ q(1,2,5), of "[''start'', ''end'']"] by auto
  have "remove_events E ?q (en_session (w k), en_tables (w k))
    = (Inr (), (en_session (w k), (en_tables (w k))(i := Some (es_remove None start fin t))))"
    using on_table_at [OF assms(1) q(3), of "\<lambda>t. (Inr (), es_remove None start fin t)"] r no_filter [OF q(4), of "ve_filter E"]
    by (simp add: remove_events_def)
  then show ?thesis
    by (intro at_node_put) (simp add: event_stream_remove_def path_params query_request_def api_ok)
qed

lemma page_at:
  assumes "event_at E (w k) path i t" "\<not> bad_bounds start fin" "start \<noteq> None \<or> fin = None" "ongoing = None \<or> ongoing = Some 0"
  shows "at_node k (event_page E node (Path path) fin None 10000 start ongoing) w
    = (Inr (map (client_event i node) (take 10000 (sort_key er_start (es_select (\<lambda>_. True) False start fin t)))), w)"
proof -
  let ?rest = "[(''limit'', PInt 10000), (''return-subset'', PInt 1)] @ (case ongoing of None \<Rightarrow> [] | Some i \<Rightarrow> [(''include-ongoing-events'', PInt i)])"
  let ?q = "as_query ((''path'', PStr path) # time_params start fin None @ ?rest)"
  have q: "map_of ?q ''start'' = map_option int_str start" "map_of ?q ''end'' = map_option int_str fin"
    "map_of ?q ''path'' = Some path" "map_of ?q ''filter'' = None" "map_of ?q ''include-ongoing-events'' = map_option int_str ongoing"
    "map_of ?q ''limit'' = Some (int_str 10000)" "map_of ?q ''return-subset'' = Some (int_str 1)"
    unfolding time_params_lookup using assms(4) by (auto simp: as_query_def time_params_def split: option.splits)
  obtain r where r: "validate_query_parameters [''start'', ''end'', ''include-ongoing-events''] ?q = Inr r"
    "param r ''start'' = start" "param r ''end'' = fin" "param r ''include-ongoing-events'' = ongoing"
    using validate_times [OF assms(2) _ q(1,2,5), of "[''start'', ''end'', ''include-ongoing-events'']"] by auto
  have on: "with_ongoing r = False" using assms(4) r(4) by (auto simp: with_ongoing_def)
  have lim: "py_int (int_str 10000) = Some 10000" by (rule py_int_str)
  let ?read = "\<lambda>t. (read_events (ve_buckets E) (\<lambda>_. True) False start fin 10000 True t, t)"
  have i: "et_stream t = i" "(en_tables (w k))(i := Some t) = en_tables (w k)" using assms(1) by (auto simp: event_at_def fun_upd_idem)
  have ev: "event_params E ?q = Inr (r, None)" using r(1) no_filter [OF q(4), of "ve_filter E"] by (simp add: event_params_def)
  have h: "serve_read_events E ?q = seqA (in_events (event_of_query E ?q)) (\<lambda>s. on_table (vs_id s) ?read)"
    using q(6,7) lim ev r(2-4) on by (simp add: serve_read_events_def passes_filter_def del: py_int_str)
  have ask: "serve_read_events E ?q (en_session (w k), en_tables (w k))
    = (read_events (ve_buckets E) (\<lambda>_. True) False start fin 10000 True t, (en_session (w k), en_tables (w k)))"
    unfolding h using on_table_at [OF assms(1) q(3), of ?read] i(2) by simp
  have rd: "read_events (ve_buckets E) (\<lambda>_. True) False start fin 10000 True t
      = Inr (Events (map (record_to_event i) (take 10000 (sort_key er_start (es_select (\<lambda>_. True) False start fin t)))))"
    using assms(2,3) i(1) by (auto simp: read_events_def es_extract_def Let_def)
  show ?thesis
    using ask rd from_json_rows [of node i]
    by (simp add: at_node_def event_page_def path_params query_request_def seqA_def api_ok)
qed

lemma write_blocks_at:
  assumes "locate_event (ve_now E) l s = (Inr v, s)" "vs_id v = i" "tables i = Some t"
    and "write_blocks n node rx events t = (Inr es, t')"
  shows "write_event_blocks n E node l rx events (s, tables) = (Inr es, (s, tables(i := Some t')))"
  using assms(3,4)
proof (induction n arbitrary: tables t rx events es)
  case 0
  then show ?case by (auto simp: pureA_def fun_upd_idem)
next
  case (Suc n)
  show ?case
  proof (cases "events = []")
    case True
    then show ?thesis using Suc.prems by (auto simp: pureA_def fun_upd_idem)
  next
    case False
    let ?chunk = "map (\<lambda>e. (True, api_to_json node e)) (take 500 events)"
    obtain resp t1 rx1 rest where s: "write_events ?chunk t = (Inr resp, t1)" "mapE (api_from_json node) resp = Inr rx1"
      "write_blocks n node (rx @ rx1) (drop 500 events) t1 = (Inr rest, t')"
      "es = map2 (\<lambda>e r. e\<lparr>ev_id := ev_id r\<rparr>) (take 500 events) (rx @ rx1) @ rest"
      using Suc.prems(2) False by (auto simp: Let_def split: sum.splits prod.splits)
    have "serve_write_events E l (Some ?chunk) (s, tables) = (Inr resp, (s, tables(i := Some t1)))"
      using assms(1,2) Suc.prems(1) s(1) by (simp add: serve_write_events_def seqA_def in_events_def on_table_def)
    moreover have "write_event_blocks n E node l (rx @ rx1) (drop 500 events) (s, tables(i := Some t1))
        = (Inr rest, (s, tables(i := Some t')))"
      using Suc.IH [where tables = "tables(i := Some t1)", OF fun_upd_same s(3)] by (simp only: fun_upd_upd)
    ultimately show ?thesis using False s(2,4) by (simp add: Let_def seqA_def api_ok pureA_def) (simp add: fun_upd_def)
  qed
qed

lemma write_at:
  assumes "event_at E (w k) path i t" "list_all (unsent node i) events" "ids_ok t"
  shows "\<exists>es t'. at_node k (write_to_event_stream E node (Path path) events) w = (Inr es, put_events k i t' w)
    \<and> map (record_to_event i) (et_rows t') = map (record_to_event i) (et_rows t) @ number_events (et_seq t) (map (posted i) events)
    \<and> ids_ok t' \<and> et_seq t' = et_seq t + int (length events) \<and> et_stream t' = i"
proof -
  obtain v where v: "locate_event (ve_now E) (ByPath path) (en_session (w k)) = (Inr v, en_session (w k))" "vs_id v = i"
    "en_tables (w k) i = Some t" "et_stream t = i" using assms(1) by (auto simp: event_at_def)
  obtain t' where t': "write_blocks (length events) node [] events t = (Inr (returned (et_seq t) events), t')"
    "map (record_to_event i) (et_rows t') = map (record_to_event i) (et_rows t) @ number_events (et_seq t) (map (posted i) events)"
    "ids_ok t'" "et_seq t' = et_seq t + int (length events)" "et_stream t' = i"
    using write_blocks_posted [OF assms(2,3) v(4) order_refl, of "[]" "et_seq t"] by auto
  have "write_to_event_stream E node (Path path) events (en_session (w k), en_tables (w k))
      = (Inr (returned (et_seq t) events), (en_session (w k), (en_tables (w k))(i := Some t')))"
    using write_blocks_at [where tables = "en_tables (w k)", OF v(1-3) t'(1)]
    by (simp add: write_to_event_stream_def event_write_params_def path_params body_locator_def)
  from at_node_put [of "write_to_event_stream E node (Path path) events" w k _ i t', OF this] show ?thesis using t'(2-5) by blast
qed

section \<open>The loop\<close>

text \<open>The event that the destination stores for an event of the source, before it has a number.\<close>

definition copied_event :: "int \<Rightarrow> 'j event_row \<Rightarrow> 'j event" where
  "copied_event i r = \<lparr>ev_id = None, ev_stream = Some i, ev_start = er_start r, ev_end = Some (er_end r), ev_content = er_content r\<rparr>"

definition in_range :: "int option \<Rightarrow> int option \<Rightarrow> 'j event_table \<Rightarrow> 'j event_row list" where
  "in_range start fin t = sort_key er_start (es_select (\<lambda>_. True) False start fin t)"

lemma posted_client: "map (posted i2) (map (client_event i1 node) rows) = map (copied_event i2) rows"
  by (simp add: posted_def client_event_def copied_event_def)

lemma copied_new: "\<forall>r \<in> set rows. er_start r < er_end r \<Longrightarrow> list_all (new_event i) (map (copied_event i) rows)"
  by (auto simp: list_all_iff new_event_def copied_event_def)

lemma unsent_client:
  "\<forall>r \<in> set rows. er_start r < er_end r \<Longrightarrow> u1 \<noteq> u2 \<or> i1 \<noteq> i2 \<Longrightarrow> list_all (unsent u2 i2) (map (client_event i1 u1) rows)"
  by (auto simp: list_all_iff unsent_def client_event_def)

lemma set_in_range: "set (in_range start fin t) \<subseteq> set (et_rows t)"
  by (auto simp: in_range_def es_select_def)

text \<open>A table with further events at its end.\<close>

definition extends :: "int \<Rightarrow> 'j event_table \<Rightarrow> 'j event_row list \<Rightarrow> 'j event_table \<Rightarrow> bool" where
  "extends i t rows t' =
     (map (record_to_event i) (et_rows t') = map (record_to_event i) (et_rows t) @ number_events (et_seq t) (map (copied_event i) rows)
      \<and> ids_ok t' \<and> et_seq t' = et_seq t + int (length rows) \<and> et_stream t' = i)"

lemma extends_trans:
  assumes "extends i t xs u" "extends i u ys v" "\<forall>r \<in> set xs. er_start r < er_end r"
  shows "extends i t (xs @ ys) v"
  using assms(1,2) number_events_append [OF copied_new [OF assms(3)], of "et_seq t" i "map (copied_event i) ys"]
  by (simp add: extends_def)

lemma transfer_pages:
  assumes "event_at E (w k1) source i1 T" "event_at E (w k2) dest i2 D" "(k1, i1) \<noteq> (k2, i2)"
    and "k1 \<noteq> k2 \<longrightarrow> en_uuid (w k1) \<noteq> en_uuid (w k2)" "distinct (map er_start (et_rows T))"
    and "\<forall>r \<in> set (et_rows T). er_start r < er_end r" "ids_ok D"
    and "\<not> bad_bounds start fin" "start \<noteq> None \<or> fin = None" "ongoing = None \<or> ongoing = Some 0"
    and "length (es_select (\<lambda>_. True) False start fin T) < n"
  defines "ask \<equiv> \<lambda>start ongoing. at_node k1 (event_page E (en_uuid (w k1)) (Path source) fin None 10000 start ongoing)"
    and "use \<equiv> \<lambda>events. seqA (node_uuid k2) (\<lambda>uuid. seqA (at_node k2 (write_to_event_stream E uuid (Path dest) events)) (\<lambda>_. pureA ()))"
  shows "\<exists>t. event_pages n ask use fin start ongoing w = (Inr (), put_events k2 i2 t w) \<and> extends i2 D (in_range start fin T) t"
  using assms(1,2,4,7-11) unfolding ask_def use_def
proof (induction n arbitrary: w D start ongoing)
  case 0
  then show ?case by simp
next
  case (Suc n)
  let ?ask = "\<lambda>start ongoing. at_node k1 (event_page E (en_uuid (w k1)) (Path source) fin None 10000 start ongoing)"
  let ?use = "\<lambda>events. seqA (node_uuid k2) (\<lambda>uuid. seqA (at_node k2 (write_to_event_stream E uuid (Path dest) events)) (\<lambda>_. pureA ()))"
  let ?R = "in_range start fin T" and ?u = "en_uuid (w k1)"
  note page = page_at [of E w k1 source i1 T start fin ongoing ?u, OF Suc.prems(1,5,6,7), folded in_range_def]
  show ?case
  proof (cases "?R = []")
    case True
    have "en_tables (w k2) i2 = Some D" using Suc.prems(2) by (auto simp: event_at_def)
    moreover have "extends i2 D [] D" using Suc.prems(2,4) by (auto simp: extends_def event_at_def)
    ultimately show ?thesis using True page by (intro exI [of _ D]) (simp add: seqA_def pureA_def)
  next
    case False
    let ?B = "take 10000 ?R"
    define k where "k = er_start (last ?B)"
    have b: "(0::nat) < 10000" by simp
    note nxt = next_page [OF assms(5) False [unfolded in_range_def] b k_def [unfolded in_range_def], folded in_range_def]
    have rows: "\<forall>r \<in> set ?B. er_start r < er_end r" using assms(6) set_in_range [of start fin T] by (meson in_set_takeD subsetD)
    have ne: "map (client_event i1 ?u) ?B \<noteq> []" using False by simp
    have last: "ev_start (last (map (client_event i1 ?u) ?B)) = k" using ne by (simp add: last_map k_def)
    have "?u \<noteq> en_uuid (w k2) \<or> i1 \<noteq> i2" using Suc.prems(3) assms(3) by auto
    from write_at [of E w k2 dest i2 D "en_uuid (w k2)", OF Suc.prems(2) unsent_client [OF rows this] Suc.prems(4)]
    obtain es t1 where t1: "at_node k2 (write_to_event_stream E (en_uuid (w k2)) (Path dest) (map (client_event i1 ?u) ?B)) w = (Inr es, put_events k2 i2 t1 w)"
      "extends i2 D ?B t1" unfolding posted_client extends_def by auto
    let ?w = "put_events k2 i2 t1 w"
    have use: "?use (map (client_event i1 ?u) ?B) w = (Inr (), ?w)" using t1(1) by (simp add: seqA_def node_uuid_def pureA_def)
    show ?thesis
    proof (cases "case fin of None \<Rightarrow> False | Some e \<Rightarrow> e \<le> k + 1")
      case True
      have "?B = ?R" using nxt(2) [OF True] by (metis append_Nil2 append_take_drop_id)
      then have "extends i2 D ?R t1" using t1(2) by simp
      moreover have "event_pages (Suc n) ?ask ?use fin start ongoing w = (Inr (), ?w)"
        using page use ne last True by (simp add: seqA_def pureA_def Let_def split: option.splits)
      ultimately show ?thesis by blast
    next
      case nf: False
      then have nb: "\<not> bad_bounds (Some (k + 1)) fin" by (auto simp: bad_bounds_def split: option.splits)
      have at: "event_at E (?w k1) source i1 T" "event_at E (?w k2) dest i2 t1" "ids_ok t1"
        using event_at_other [of E w k1 source i1 T, OF Suc.prems(1) assms(3)] event_at_put [of E w k2 dest i2 D t1] Suc.prems(2) t1(2) by (auto simp: extends_def)
      have len: "length (es_select (\<lambda>_. True) False (Some (k + 1)) fin T) < n" using nxt(3) Suc.prems(8) by simp
      obtain t where t: "event_pages n ?ask ?use fin (Some (k + 1)) (Some 0) ?w = (Inr (), put_events k2 i2 t ?w)"
        "extends i2 t1 (drop 10000 ?R) t"
        using Suc.IH [OF at(1,2) _ at(3) nb _ _ len, of "Some 0"] Suc.prems(3) unfolding put_events_uuid nxt(1) by blast
      have "event_pages (Suc n) ?ask ?use fin start ongoing w = (Inr (), put_events k2 i2 t w)"
        using page use ne last nf t(1) by (simp add: seqA_def Let_def)
      moreover have "extends i2 D ?R t" using extends_trans [OF t1(2) t(2) rows] by simp
      ultimately show ?thesis by blast
    qed
  qed
qed

section \<open>The copy\<close>

text \<open>The destination before the events are written, and the start of the range.\<close>

definition copy_start :: "bool \<Rightarrow> int option \<Rightarrow> 'j event_table \<Rightarrow> int option" where
  "copy_start new start t = (if new then list_max (map er_end (et_rows t)) else start)"

definition copy_base :: "bool \<Rightarrow> bool \<Rightarrow> int option \<Rightarrow> int option \<Rightarrow> 'j event_table \<Rightarrow> 'j event_table" where
  "copy_base new replace start fin t = (if \<not> new \<and> replace then es_remove None start fin t else t)"

lemma es_info_end: "fst (snd (es_info t)) = list_max (map er_end (et_rows t))"
proof (cases "et_rows t")
  case (Cons r rs)
  then obtain a e where "list_min (map er_start (et_rows t)) = Some a" "list_max (map er_end (et_rows t)) = Some e"
    by (metis list_min_None list_max_None list.map_disc_iff list.distinct(1) not_None_eq)
  then show ?thesis by (simp add: es_info_def)
qed (simp add: es_info_def)

lemma es_remove_table [simp]: "et_stream (es_remove f a e t) = et_stream t" "et_seq (es_remove f a e t) = et_seq t"
  by (simp_all add: es_remove_def)

lemma es_remove_ids: "ids_ok t \<Longrightarrow> ids_ok (es_remove f a e t)"
  by (auto simp: ids_ok_def es_remove_def distinct_map_filter)

lemma copy_bounds_ordered: "event_copy_bounds parse a b = Inr (start, fin) \<Longrightarrow> \<not> bad_bounds start fin"
  by (cases "parse_time parse ''invalid start time: [%s]'' a"; cases "parse_time parse ''invalid end time: [%s]'' b")
    (auto simp: event_copy_bounds_def bad_bounds_def split: option.splits if_splits)


definition demo_event_catalog :: "int catalog" where
  "demo_event_catalog = \<lparr>ct_folders = [\<lparr>fd_id = 1, fd_name = ''root'', fd_description = None, fd_parent = None, fd_updated = 0\<rparr>],
     ct_data = [], ct_events = [
       \<lparr>vs_id = 1, vs_name = ''s'', vs_description = None, vs_event_fields = [], vs_chunk_duration_us = 0, vs_keep_us = -1, vs_folder = Some 1, vs_updated = 0\<rparr>,
       \<lparr>vs_id = 2, vs_name = ''d'', vs_description = None, vs_event_fields = [], vs_chunk_duration_us = 0, vs_keep_us = -1, vs_folder = Some 1, vs_updated = 0\<rparr>],
     ct_folder_seq = 1, ct_data_seq = 0, ct_event_seq = 2\<rparr>"

definition demo_source_events :: "unit event_table" where
  "demo_source_events = \<lparr>et_stream = 1, et_rows = [\<lparr>er_id = 1, er_start = 30, er_end = 40, er_content = ()\<rparr>,
     \<lparr>er_id = 2, er_start = 10, er_end = 20, er_content = ()\<rparr>, \<lparr>er_id = 3, er_start = 1, er_end = 2, er_content = ()\<rparr>], et_seq = 3\<rparr>"

definition demo_dest_events :: "unit event_table" where
  "demo_dest_events = \<lparr>et_stream = 2, et_rows = [\<lparr>er_id = 1, er_start = 4, er_end = 7, er_content = ()\<rparr>,
     \<lparr>er_id = 2, er_start = 2, er_end = 3, er_content = ()\<rparr>], et_seq = 2\<rparr>"

definition demo_event_world :: "(int, unit) event_world" where
  "demo_event_world = (\<lambda>_. \<lparr>en_session = \<lparr>se_db = demo_event_catalog, se_work = demo_event_catalog, se_destroyed = [], se_created = []\<rparr>,
     en_tables = [1 \<mapsto> demo_source_events, 2 \<mapsto> demo_dest_events], en_uuid = ''u''\<rparr>)"

definition demo_event_env :: "unit event_env" where
  "demo_event_env = \<lparr>ve_now = 0, ve_pg_int = py_int, ve_categories = (\<lambda>_. None), ve_fmul = (*), ve_filter = (\<lambda>_. None), ve_buckets = (\<lambda>_ _. [])\<rparr>"

lemma demo_event_at:
  "event_at demo_event_env (demo_event_world ''n'') ''/s'' 1 demo_source_events"
  "event_at demo_event_env (demo_event_world ''n'') ''/d'' 2 demo_dest_events"
proof -
  let ?s = "en_session (demo_event_world ''n'')"
  have "fst (locate_event 0 (ByPath ''/s'') ?s) = Inr (hd (ct_events demo_event_catalog)) \<and> snd (locate_event 0 (ByPath ''/s'') ?s) = ?s"
    "fst (locate_event 0 (ByPath ''/d'') ?s) = Inr (last (ct_events demo_event_catalog)) \<and> snd (locate_event 0 (ByPath ''/d'') ?s) = ?s"
    by code_simp+
  then show "event_at demo_event_env (demo_event_world ''n'') ''/s'' 1 demo_source_events"
    "event_at demo_event_env (demo_event_world ''n'') ''/d'' 2 demo_dest_events"
    unfolding event_at_def
    by (auto simp: demo_event_env_def demo_event_world_def demo_event_catalog_def demo_source_events_def demo_dest_events_def prod_eq_iff)
qed


text \<open>
  Replacing removes every event of the destination that is active in the range, but only events that start in the range are
  copied: an event that began before is lost, even if the source has it too.
\<close>

lemma replace_loses_ongoing:
  assumes "r \<in> set (et_rows t)" "er_start r < s" "s \<le> er_end r" "case fin of None \<Rightarrow> True | Some e \<Rightarrow> er_start r < e"
  shows "r \<notin> set (et_rows (copy_base False True (Some s) fin t)) \<and> r \<notin> set (in_range (Some s) fin u)"
  using assms by (auto simp: copy_base_def es_remove_def in_range_def es_select_def event_in_bounds_def split: option.splits)

text \<open>A key that is none of those offered is taken for \<open>i\<close>: the events are copied beside those that are there.\<close>

lemma unknown_choice_copies:
  assumes "choice \<notin> set ''cir''" "has_existing_events E k path a b w = (Inr True, w')"
  shows "action_for_existing_events E choice k path ''prompt'' a b w = (Inr None, w')"
  using assms by (simp add: action_for_existing_events_def seqA_def pureA_def)

text \<open>A bound that is not a number is refused by \<open>int\<close> when the events of the destination are counted.\<close>

lemma prompt_needs_numbers:
  assumes "py_int t = None"
  shows "cli_copy n E parse known choice k \<lparr>eo_start = Some t, eo_end = b, eo_action = ''prompt'', eo_new = new,
      eo_destination_node = None\<rparr> source dest w = (Inl PyValueError, w)"
  using assms by (simp add: cli_copy_def action_for_existing_events_def has_existing_events_def seqA_def Let_def)

end
