(* ===== verification/Merge_Filter.thy ===== *)
theory Merge_Filter
  imports Data_Transfer "HOL-Library.Sublist"
begin

text \<open>
  The merge filter of \<open>client/builtins/merge_filter.py\<close>: rows at the times of a primary input, with the values of the other
  inputs interpolated at these times.  It reads its pipes without consuming all they return, reads again
  what it has read, and consumes what it has used.  The operations of the pipes are a record; the linear interpolation
  of scipy through the rows of a block is the argument \<open>interp\<close>.
\<close>

section \<open>Pipes and state\<close>

type_synonym 'v mrow = "int \<times> 'v list"

record ('p, 'v) merge_ops =
  mp_read :: "'p \<Rightarrow> 'v mrow list res \<times> 'p"
  mp_consume :: "'p \<Rightarrow> int \<Rightarrow> unit res \<times> 'p"
  mp_reread :: "'p \<Rightarrow> 'p"
  mp_end_of_interval :: "'p \<Rightarrow> bool"
  mp_clear_break :: "'p \<Rightarrow> 'p"

text \<open>The primary is the first of the pipes.  The output is what was written to it, with \<open>None\<close> for an end of an interval.\<close>

record ('p, 'v) merge_state =
  ms_pipes :: "'p list"
  ms_out :: "'v mrow option list"
  ms_closed :: bool

type_synonym ('p, 'v, 'a) merging = "(('p, 'v) merge_state, 'a) act"

definition on_pipe :: "nat \<Rightarrow> ('p, 'a) act \<Rightarrow> ('p, 'v, 'a) merging" where
  "on_pipe i f s = (case f (ms_pipes s ! i) of (r, p) \<Rightarrow> (r, s\<lparr>ms_pipes := (ms_pipes s)[i := p]\<rparr>))"

definition write_rows :: "'v mrow option list \<Rightarrow> ('p, 'v, unit) merging" where
  "write_rows rows = modifyA (\<lambda>s. s\<lparr>ms_out := ms_out s @ rows\<rparr>)"

definition close_output :: "('p, 'v, unit) merging" where
  "close_output = modifyA (\<lambda>s. s\<lparr>ms_closed := True\<rparr>)"

definition read_pipe :: "('p, 'v) merge_ops \<Rightarrow> nat \<Rightarrow> ('p, 'v, 'v mrow list) merging" where
  "read_pipe M i = on_pipe i (mp_read M)"

definition consume_pipe :: "('p, 'v) merge_ops \<Rightarrow> nat \<Rightarrow> nat \<Rightarrow> ('p, 'v, unit) merging" where
  "consume_pipe M i n = on_pipe i (\<lambda>p. mp_consume M p (int n))"

definition reread_pipe :: "('p, 'v) merge_ops \<Rightarrow> nat \<Rightarrow> ('p, 'v, unit) merging" where
  "reread_pipe M i = on_pipe i (\<lambda>p. (Inr (), mp_reread M p))"

section \<open>Aligning the streams\<close>

text \<open>Read on until the block ends at or behind a time; the fuel bounds the reads, and then the exception is \<open>CancelledError\<close>.\<close>

fun catch_up :: "nat \<Rightarrow> ('p, 'v) merge_ops \<Rightarrow> nat \<Rightarrow> int \<Rightarrow> 'v mrow list \<Rightarrow> ('p, 'v, 'v mrow list) merging" where
  "catch_up 0 M i t data = raiseA CancelledError"
| "catch_up (Suc n) M i t data =
     (if data = [] then raiseA PyIndexError
      else if fst (last data) < t then
        seqA (consume_pipe M i (length data)) (\<lambda>_. seqA (read_pipe M i) (catch_up n M i t))
      else pureA data)"

text \<open>\<open>np.argmax\<close>: the index of the first of the largest values.\<close>

definition argmax :: "int list \<Rightarrow> nat res" where
  "argmax xs =
     (case list_max xs of None \<Rightarrow> Inl PyValueError | Some m \<Rightarrow> Inr (length (takeWhile (\<lambda>x. x \<noteq> m) xs)))"

text \<open>
  The maximum over no secondary stream is a \<open>ValueError\<close>; an empty block leads to a debugger, and then to the use of a
  variable that has no value.
\<close>

definition align_body :: "nat \<Rightarrow> ('p, 'v) merge_ops \<Rightarrow> nat \<Rightarrow> ('p, 'v, unit) merging" where
  "align_body n M k =
     seqA (mapA (read_pipe M) [1..<Suc k]) (\<lambda>secondary.
     seqA (read_pipe M 0) (\<lambda>primary.
     if list_ex (\<lambda>d. d = []) secondary then raiseA PyNameError
     else
       (case list_max (map (fst \<circ> hd) secondary) of
          None \<Rightarrow> raiseA PyValueError
        | Some latest \<Rightarrow>
            seqA (catch_up n M 0 latest primary) (\<lambda>primary.
            seqA (mapA (\<lambda>(i, d). catch_up n M i latest d) (zip [1..<Suc k] secondary)) (\<lambda>secondary.
            let start = fst (hd (filter (\<lambda>r. latest \<le> fst r) primary)) in
            seqA (eachA (\<lambda>(i, d). case argmax (filter (\<lambda>t. t \<le> start) (map fst d)) of
                      Inl e \<Rightarrow> raiseA e
                    | Inr j \<Rightarrow> consume_pipe M i j) (zip [1..<Suc k] secondary)) (\<lambda>_.
            seqA (consume_pipe M 0 (length (filter (\<lambda>r. fst r < start) primary))) (\<lambda>_.
            eachA (reread_pipe M) [0..<Suc k]))))))) "

definition align_streams :: "nat \<Rightarrow> ('p, 'v) merge_ops \<Rightarrow> nat \<Rightarrow> ('p, 'v, bool) merging" where
  "align_streams n M k s =
     (case align_body n M k s of
        (Inl (ApiError m), s') \<Rightarrow> (Inr False, s')
      | (Inl EmptyPipeError, s') \<Rightarrow> (Inr False, s')
      | (Inl e, s') \<Rightarrow> (Inl e, s')
      | (Inr _, s') \<Rightarrow> (Inr True, s'))"

section \<open>Merging\<close>

text \<open>
  \<open>get_data\<close>: the interpolated values at the times up to the end of the block, and how many rows they fill.
\<close>

definition merge_get_data :: "('p, 'v) merge_ops \<Rightarrow> ('v mrow list \<Rightarrow> (int \<Rightarrow> 'v list) res) \<Rightarrow> int list \<Rightarrow> nat
    \<Rightarrow> ('p, 'v, 'v list list \<times> nat) merging" where
  "merge_get_data M interp ts i =
     seqA (read_pipe M i) (\<lambda>source.
     if source = [] then raiseA PyIndexError
     else
       (case interp source of
          Inl e \<Rightarrow> raiseA e
        | Inr f \<Rightarrow>
            let data = map f (filter (\<lambda>t. t \<le> fst (last source)) ts)
            in pureA (data, if data = [] then 0
                            else Suc (length (takeWhile (\<lambda>t. t \<noteq> ts ! (length data - 1)) ts)))))"

definition consume_data :: "('p, 'v) merge_ops \<Rightarrow> int \<Rightarrow> nat \<Rightarrow> ('p, 'v, unit) merging" where
  "consume_data M t i =
     seqA (reread_pipe M i) (\<lambda>_.
     seqA (read_pipe M i) (\<lambda>source.
     let used = length (filter (\<lambda>r. fst r \<le> t) source) in
     seqA (consume_pipe M i used) (\<lambda>_.
     on_pipe i (\<lambda>p. (Inr (), if mp_end_of_interval M p \<and> used < length source then mp_clear_break M (mp_reread M p) else p)))))"

text \<open>The time \<open>output_data['timestamp'][valid_rows - 1]\<close>; for no valid row the index is \<open>-1\<close>, the last.\<close>

definition last_valid :: "int list \<Rightarrow> nat \<Rightarrow> int res" where
  "last_valid ts valid = (if ts = [] then Inl PyIndexError else Inr (if valid = 0 then last ts else ts ! (valid - 1)))"

definition merged_rows :: "'v mrow list \<Rightarrow> 'v list list list \<Rightarrow> nat \<Rightarrow> 'v mrow list" where
  "merged_rows primary cols valid =
     map (\<lambda>j. (fst (primary ! j), snd (primary ! j) @ concat (map (\<lambda>c. c ! j) cols))) [0..<valid]"

text \<open>One turn of the loop of \<open>run\<close>; the result says whether the loop goes on.\<close>

definition merge_turn :: "nat \<Rightarrow> ('p, 'v) merge_ops \<Rightarrow> ('v mrow list \<Rightarrow> (int \<Rightarrow> 'v list) res) \<Rightarrow> nat \<Rightarrow> ('p, 'v, bool) merging" where
  "merge_turn n M interp k =
     seqA (read_pipe M 0) (\<lambda>primary.
     let ts = map fst primary in
     seqA (mapA (merge_get_data M interp ts) [1..<Suc k]) (\<lambda>got.
     let valid = foldl min (length primary) (map snd got) in
     seqA (eachA (\<lambda>i. case last_valid ts valid of Inl e \<Rightarrow> raiseA e | Inr t \<Rightarrow> consume_data M t i) [1..<Suc k]) (\<lambda>_.
     seqA (write_rows (map Some (merged_rows primary (map fst got) valid))) (\<lambda>_.
     seqA (consume_pipe M 0 valid) (\<lambda>_.
     seqA (on_pipe 0 (\<lambda>p. (Inr (), if mp_end_of_interval M p \<and> valid < length primary then mp_reread M p else p))) (\<lambda>_.
     seqA (on_pipe 0 (\<lambda>p. (Inr (mp_end_of_interval M p), p))) (\<lambda>break.
     seqA (eachA (\<lambda>i. on_pipe i (\<lambda>p. (Inr (), if mp_end_of_interval M p then mp_reread M p else p))) [1..<Suc k]) (\<lambda>_.
     if break then seqA (write_rows [None]) (\<lambda>_. align_streams n M k) else pureA True))))))))"

text \<open>The loop: the number of turns is how often the filter finds that it was not told to stop.\<close>

fun merge_loop :: "nat \<Rightarrow> nat \<Rightarrow> ('p, 'v) merge_ops \<Rightarrow> ('v mrow list \<Rightarrow> (int \<Rightarrow> 'v list) res) \<Rightarrow> nat \<Rightarrow> ('p, 'v, unit) merging" where
  "merge_loop 0 n M interp k s = close_output s"
| "merge_loop (Suc turns) n M interp k s =
     (case merge_turn n M interp k s of
        (Inl EmptyPipeError, s') \<Rightarrow> close_output s'
      | (Inl CancelledError, s') \<Rightarrow> (Inl CancelledError, s')
      | (Inl e, s') \<Rightarrow> (Inl e, snd (close_output s'))
      | (Inr False, s') \<Rightarrow> close_output s'
      | (Inr True, s') \<Rightarrow> merge_loop turns n M interp k s')"

definition merge_streams :: "nat \<Rightarrow> nat \<Rightarrow> ('p, 'v) merge_ops \<Rightarrow> ('v mrow list \<Rightarrow> (int \<Rightarrow> 'v list) res) \<Rightarrow> nat \<Rightarrow> ('p, 'v, unit) merging" where
  "merge_streams turns n M interp k =
     seqA (align_streams n M k) (\<lambda>ok. if ok then merge_loop turns n M interp k else close_output)"

text \<open>\<open>run\<close>: the inputs are their names, widths and pipes in the order of the dictionary, the outputs their widths.\<close>

definition merge_run :: "nat \<Rightarrow> nat \<Rightarrow> ('p, 'v) merge_ops \<Rightarrow> ('v mrow list \<Rightarrow> (int \<Rightarrow> 'v list) res) \<Rightarrow> string
    \<Rightarrow> (string \<times> nat \<times> 'p) list \<Rightarrow> nat list \<Rightarrow> unit res \<times> ('p, 'v) merge_state" where
  "merge_run turns n M interp primary inputs outputs =
     (let secondaries = map snd (filter (\<lambda>(name, _). name \<noteq> primary) inputs);
          state = (\<lambda>ps. \<lparr>ms_pipes = ps, ms_out = [], ms_closed = False\<rparr>)
      in case map_of inputs primary of
           None \<Rightarrow> (Inl (PyException ''the specified primary [%s] is not in the inputs''), state (map (snd \<circ> snd) inputs))
         | Some (width, p) \<Rightarrow>
             (let s = state (p # map snd secondaries)
              in if length outputs \<noteq> 1 then (Inl (PyException ''must specify one output stream''), s)
                 else if sum_list (map fst secondaries) + width \<noteq> hd outputs
                 then (Inl (PyException ''output must have %d elements''), s)
                 else merge_streams turns n M interp (length secondaries) s))"

section \<open>Operations that write nothing\<close>

text \<open>From a state with \<open>P\<close> the output is not written to, and a result comes with \<open>Q\<close>.\<close>

definition silent :: "(('p, 'v) merge_state \<Rightarrow> bool) \<Rightarrow> ('p, 'v, 'a) merging \<Rightarrow> ('a \<Rightarrow> ('p, 'v) merge_state \<Rightarrow> bool) \<Rightarrow> bool" where
  "silent P f Q = (\<forall>s. P s \<longrightarrow> ms_out (snd (f s)) = ms_out s \<and> (\<forall>x s'. f s = (Inr x, s') \<longrightarrow> Q x s'))"

named_theorems silent_intros \<open>operations that write nothing\<close>

lemma silentD: "silent P f Q \<Longrightarrow> P s \<Longrightarrow> f s = (r, s') \<Longrightarrow> ms_out s' = ms_out s \<and> (\<forall>x. r = Inr x \<longrightarrow> Q x s')"
  unfolding silent_def by (metis snd_conv)

lemma silent_seq: "silent P f Q \<Longrightarrow> (\<And>x. silent (Q x) (g x) R) \<Longrightarrow> silent P (seqA f g) R"
  unfolding silent_def seqA_def by (fastforce split: prod.splits sum.splits)

lemma silent_pure [silent_intros]: "(\<And>s. P s \<Longrightarrow> Q x s) \<Longrightarrow> silent P (pureA x) Q"
  by (simp add: silent_def)

lemma silent_raise [silent_intros]: "silent P (raiseA e) Q"
  by (simp add: silent_def)

lemma silent_weaken: "silent P f Q \<Longrightarrow> (\<And>s. P' s \<Longrightarrow> P s) \<Longrightarrow> (\<And>x s. Q x s \<Longrightarrow> Q' x s) \<Longrightarrow> silent P' f Q'"
  unfolding silent_def by blast

lemma silent_assume: "(\<And>s. P s \<Longrightarrow> A) \<Longrightarrow> (A \<Longrightarrow> silent P f Q) \<Longrightarrow> silent P f Q"
  unfolding silent_def by blast

lemma silent_each: "(\<And>x. x \<in> set xs \<Longrightarrow> silent P (f x) (\<lambda>_. P)) \<Longrightarrow> silent P (eachA f xs) (\<lambda>_. P)"
proof (induction xs)
  case (Cons x xs)
  then show ?case unfolding eachA.simps by (intro silent_seq [where Q = "\<lambda>_. P"]) auto
qed (simp add: silent_def)

lemma silent_frame: "silent P f Q \<Longrightarrow> silent (\<lambda>s. P s \<and> C) f (\<lambda>x s. Q x s \<and> C)"
  unfolding silent_def by blast

lemma silent_map:
  "(\<And>x. x \<in> set xs \<Longrightarrow> silent P (f x) (\<lambda>y s. P s \<and> A x y)) \<Longrightarrow> silent P (mapA f xs) (\<lambda>ys s. P s \<and> list_all2 A xs ys)"
proof (induction xs)
  case (Cons x xs)
  have "silent P (mapA f xs) (\<lambda>ys s. P s \<and> list_all2 A xs ys)" using Cons by simp
  note ih = silent_frame [OF this]
  show ?case
    unfolding mapA.simps using Cons.prems
    by (intro silent_seq [where Q = "\<lambda>y s. P s \<and> A x y"] silent_seq [OF ih] silent_pure) auto
qed (simp add: silent_def)

text \<open>How a row of the output comes about: a row of the primary, and values of functions through blocks of the others.\<close>

definition merged_from :: "('v mrow list \<Rightarrow> (int \<Rightarrow> 'v list) res) \<Rightarrow> 'v mrow list list \<Rightarrow> 'v mrow \<Rightarrow> 'v mrow \<Rightarrow> bool" where
  "merged_from interp Ss r out =
     (fst out = fst r \<and> (\<exists>fs. snd out = snd r @ concat (map (\<lambda>f. f (fst r)) fs)
        \<and> list_all2 (\<lambda>S f. \<exists>block. sublist block S \<and> block \<noteq> [] \<and> interp block = Inr f \<and> fst r \<le> fst (last block)) Ss fs))"

text \<open>What \<open>get_data\<close> has got: values at the first times, up to the end of the block.\<close>

definition column_of :: "('v mrow list \<Rightarrow> (int \<Rightarrow> 'v list) res) \<Rightarrow> int list \<Rightarrow> 'v mrow list \<Rightarrow> 'v list list \<times> nat \<Rightarrow> bool" where
  "column_of interp ts S g =
     (\<exists>block f. sublist block S \<and> block \<noteq> [] \<and> interp block = Inr f
        \<and> (\<forall>j < snd g. fst g ! j = f (ts ! j) \<and> ts ! j \<le> fst (last block)))"

definition merged_out :: "'v mrow option list \<Rightarrow> 'v mrow list" where
  "merged_out out = map the (filter (\<lambda>i. i \<noteq> None) out)"

lemma merged_out_simps:
  "merged_out (xs @ ys) = merged_out xs @ merged_out ys" "merged_out (map Some rows) = rows" "set outs \<subseteq> {None} \<Longrightarrow> merged_out outs = []"
  by (simp_all add: merged_out_def comp_def) (auto simp: filter_empty_conv)

section \<open>What the filter relies on\<close>

text \<open>
  A pipe holds the rows that are not consumed: a read returns rows from their front, and consuming takes rows from their
  front.
\<close>

locale peek_source =
  fixes M :: "('p, 'v) merge_ops" and holds :: "'p \<Rightarrow> 'v mrow list \<Rightarrow> bool"
  assumes read_law: "holds p rs \<Longrightarrow> mp_read M p = (Inr rows, p') \<Longrightarrow> prefix rows rs \<and> holds p' rs"
    and consume_law: "holds p rs \<Longrightarrow> mp_consume M p (int n) = (Inr (), p') \<Longrightarrow> n \<le> length rs \<and> holds p' (drop n rs)"
    and reread_law: "holds p rs \<Longrightarrow> holds (mp_reread M p) rs"
    and clear_law: "holds p rs \<Longrightarrow> holds (mp_clear_break M p) rs"
begin

text \<open>The primary holds \<open>rs\<close>, and each other pipe the rest of its stream.\<close>

definition pipes_ok :: "'v mrow list list \<Rightarrow> 'v mrow list \<Rightarrow> ('p, 'v) merge_state \<Rightarrow> bool" where
  "pipes_ok Ss rs s =
     (length (ms_pipes s) = Suc (length Ss) \<and> holds (ms_pipes s ! 0) rs
      \<and> (\<forall>i < length Ss. \<exists>m. holds (ms_pipes s ! Suc i) (drop m (Ss ! i))))"

lemma on_primary:
  assumes "\<And>p x p'. holds p rs \<Longrightarrow> f p = (Inr x, p') \<Longrightarrow> A x \<and> holds p' (rs' x)"
  shows "silent (pipes_ok Ss rs) (on_pipe 0 f) (\<lambda>x s. A x \<and> pipes_ok Ss (rs' x) s)"
  unfolding silent_def on_pipe_def pipes_ok_def using assms by (auto split: prod.splits)

lemma on_secondary:
  assumes "i \<in> set [1..<Suc (length Ss)]"
    and "\<And>p x p' m. holds p (drop m (Ss ! (i - 1))) \<Longrightarrow> f p = (Inr x, p') \<Longrightarrow> A x \<and> (\<exists>m. holds p' (drop m (Ss ! (i - 1))))"
  shows "silent (pipes_ok Ss rs) (on_pipe i f) (\<lambda>x s. pipes_ok Ss rs s \<and> A x)"
proof -
  obtain j where j: "i = Suc j" "j < length Ss" using assms(1) that [of "i - 1"] unfolding set_upt by auto
  show ?thesis
    unfolding silent_def
  proof (intro allI impI)
    fix s :: "('p, 'v) merge_state"
    assume ok: "pipes_ok Ss rs s"
    obtain r p' where f: "f (ms_pipes s ! i) = (r, p')" by fastforce
    have o: "on_pipe i f s = (r, s\<lparr>ms_pipes := (ms_pipes s)[i := p']\<rparr>)" by (simp add: on_pipe_def f)
    obtain m where "holds (ms_pipes s ! i) (drop m (Ss ! j))" using ok j by (auto simp: pipes_ok_def)
    then have r: "r = Inr x \<Longrightarrow> A x \<and> (\<exists>m. holds p' (drop m (Ss ! j)))" for x using assms(2) [of _ m x p'] f j by auto
    show "ms_out (snd (on_pipe i f s)) = ms_out s \<and> (\<forall>x s'. on_pipe i f s = (Inr x, s') \<longrightarrow> pipes_ok Ss rs s' \<and> A x)"
      using o r ok j by (auto simp: pipes_ok_def nth_list_update)
  qed
qed

lemma read_primary: "silent (pipes_ok Ss rs) (read_pipe M 0) (\<lambda>rows s. prefix rows rs \<and> pipes_ok Ss rs s)"
  unfolding read_pipe_def using read_law by (intro on_primary [where rs' = "\<lambda>_. rs"]) blast

lemma read_secondary:
  "i \<in> set [1..<Suc (length Ss)] \<Longrightarrow>
   silent (pipes_ok Ss rs) (read_pipe M i) (\<lambda>rows s. pipes_ok Ss rs s \<and> sublist rows (Ss ! (i - 1)))"
  unfolding read_pipe_def
proof (rule on_secondary)
  fix p x p' m
  assume "holds p (drop m (Ss ! (i - 1)))" "mp_read M p = (Inr x, p')"
  then have "prefix x (drop m (Ss ! (i - 1)))" "holds p' (drop m (Ss ! (i - 1)))" using read_law by blast+
  then show "sublist x (Ss ! (i - 1)) \<and> (\<exists>m. holds p' (drop m (Ss ! (i - 1))))"
    using sublist_order.order.trans [OF prefix_imp_sublist sublist_drop] by blast
qed

lemma consume_primary: "silent (pipes_ok Ss rs) (consume_pipe M 0 n) (\<lambda>_ s. n \<le> length rs \<and> pipes_ok Ss (drop n rs) s)"
  unfolding consume_pipe_def using consume_law by (intro on_primary [where rs' = "\<lambda>_. drop n rs"]) auto

lemma consume_secondary:
  "i \<in> set [1..<Suc (length Ss)] \<Longrightarrow> silent (pipes_ok Ss rs) (consume_pipe M i n) (\<lambda>_. pipes_ok Ss rs)"
proof -
  assume i: "i \<in> set [1..<Suc (length Ss)]"
  have "silent (pipes_ok Ss rs) (consume_pipe M i n) (\<lambda>_ s. pipes_ok Ss rs s \<and> True)"
    unfolding consume_pipe_def
  proof (rule on_secondary [OF i])
    fix p x p' m
    assume "holds p (drop m (Ss ! (i - 1)))" "mp_consume M p (int n) = (Inr x, p')"
    then have "holds p' (drop n (drop m (Ss ! (i - 1))))" using consume_law by (cases x) blast
    then show "True \<and> (\<exists>m. holds p' (drop m (Ss ! (i - 1))))" by auto
  qed
  then show ?thesis by simp
qed

lemma reread_any: "i \<le> length Ss \<Longrightarrow> silent (pipes_ok Ss rs) (reread_pipe M i) (\<lambda>_. pipes_ok Ss rs)"
proof (cases "i = 0")
  case True
  have "silent (pipes_ok Ss rs) (reread_pipe M 0) (\<lambda>_ s. True \<and> pipes_ok Ss rs s)"
    unfolding reread_pipe_def by (rule on_primary) (auto intro: reread_law)
  then show ?thesis using True by simp
next
  case False
  assume "i \<le> length Ss"
  then have "i \<in> set [1..<Suc (length Ss)]" using False by (simp del: upt_Suc)
  then have "silent (pipes_ok Ss rs) (reread_pipe M i) (\<lambda>_ s. pipes_ok Ss rs s \<and> True)"
    unfolding reread_pipe_def by (rule on_secondary) (auto intro: reread_law)
  then show ?thesis by simp
qed

text \<open>The primary holds a rest of \<open>rs\<close>.\<close>

definition rest_ok :: "'v mrow list list \<Rightarrow> 'v mrow list \<Rightarrow> ('p, 'v) merge_state \<Rightarrow> bool" where
  "rest_ok Ss rs s = (\<exists>m. pipes_ok Ss (drop m rs) s)"

abbreviation keeps_pipes :: "'v mrow list list \<Rightarrow> 'v mrow list \<Rightarrow> ('p, 'v, 'a) merging \<Rightarrow> bool" where
  "keeps_pipes Ss rs f \<equiv> silent (rest_ok Ss rs) f (\<lambda>_. rest_ok Ss rs)"

lemma keeps_rest:
  assumes "\<And>m. silent (pipes_ok Ss (drop m rs)) f (\<lambda>_ s. \<exists>m. pipes_ok Ss (drop m rs) s)"
  shows "keeps_pipes Ss rs f"
  using assms unfolding silent_def rest_ok_def by blast

lemma pipe_cases: "i \<le> length Ss \<Longrightarrow> (i = 0 \<Longrightarrow> P) \<Longrightarrow> (i \<in> set [1..<Suc (length Ss)] \<Longrightarrow> P) \<Longrightarrow> P"
  by (cases i) (simp_all del: upt_Suc)

lemma keeps_read: "i \<le> length Ss \<Longrightarrow> keeps_pipes Ss rs (read_pipe M i)"
proof (rule keeps_rest, erule pipe_cases)
  fix m
  show "silent (pipes_ok Ss (drop m rs)) (read_pipe M i) (\<lambda>_ s. \<exists>m. pipes_ok Ss (drop m rs) s)" if "i = 0"
    unfolding that by (rule silent_weaken [OF read_primary]) auto
  show "silent (pipes_ok Ss (drop m rs)) (read_pipe M i) (\<lambda>_ s. \<exists>m. pipes_ok Ss (drop m rs) s)" if "i \<in> set [1..<Suc (length Ss)]"
    by (rule silent_weaken [OF read_secondary [OF that]]) auto
qed

lemma keeps_consume: "i \<le> length Ss \<Longrightarrow> keeps_pipes Ss rs (consume_pipe M i n)"
proof (rule keeps_rest, erule pipe_cases)
  fix m
  show "silent (pipes_ok Ss (drop m rs)) (consume_pipe M i n) (\<lambda>_ s. \<exists>m. pipes_ok Ss (drop m rs) s)" if "i = 0"
    unfolding that by (rule silent_weaken [OF consume_primary]) auto
  show "silent (pipes_ok Ss (drop m rs)) (consume_pipe M i n) (\<lambda>_ s. \<exists>m. pipes_ok Ss (drop m rs) s)" if "i \<in> set [1..<Suc (length Ss)]"
    by (rule silent_weaken [OF consume_secondary [OF that]]) auto
qed

lemma keeps_reread: "i \<le> length Ss \<Longrightarrow> keeps_pipes Ss rs (reread_pipe M i)"
  by (rule keeps_rest, rule silent_weaken [OF reread_any]) auto

lemma keeps_catch_up: "i \<le> length Ss \<Longrightarrow> keeps_pipes Ss rs (catch_up n M i t data)"
proof (induction n arbitrary: data)
  case (Suc n)
  have "keeps_pipes Ss rs (seqA (consume_pipe M i (length data)) (\<lambda>_. seqA (read_pipe M i) (catch_up n M i t)))"
    using Suc by (intro silent_seq [OF keeps_consume] silent_seq [OF keeps_read]) auto
  then show ?case by (simp add: silent_raise silent_pure)
qed (simp add: silent_raise)

lemma keeps_map: "(\<And>x. x \<in> set xs \<Longrightarrow> keeps_pipes Ss rs (f x)) \<Longrightarrow> keeps_pipes Ss rs (mapA f xs)"
  by (rule silent_weaken [OF silent_map [where A = "\<lambda>_ _. True" and P = "rest_ok Ss rs"]]) (auto intro: silent_weaken)

lemma zip_index: "x \<in> set (zip [1..<Suc n] ds) \<Longrightarrow> fst x \<le> n"
  by (cases x) (auto dest!: set_zip_leftD simp del: upt_Suc)

lemma align_ok: "silent (rest_ok Ss rs) (align_streams n M (length Ss)) (\<lambda>ok s. ok \<longrightarrow> rest_ok Ss rs s)"
proof -
  let ?k = "[1..<Suc (length Ss)]"
  have i: "i \<le> length Ss" if "i \<in> set ?k" for i using that by (simp del: upt_Suc)
  have reads: "keeps_pipes Ss rs (mapA (read_pipe M) ?k)"
    by (rule keeps_map) (rule keeps_read [OF i])
  have catch: "keeps_pipes Ss rs (mapA (\<lambda>(i, d). catch_up n M i t d) (zip ?k ds))" for t ds
    by (rule keeps_map) (use keeps_catch_up [OF zip_index] in \<open>simp add: case_prod_beta\<close>)
  have skip: "keeps_pipes Ss rs (eachA (\<lambda>(i, d). case argmax (filter (\<lambda>t. t \<le> start) (map fst d)) of Inl e \<Rightarrow> raiseA e | Inr j \<Rightarrow> consume_pipe M i j) (zip ?k ds))"
    for start and ds :: "'v mrow list list"
    by (rule silent_each) (use keeps_consume [OF zip_index] silent_raise in \<open>auto simp: case_prod_beta split: sum.split\<close>)
  have again: "keeps_pipes Ss rs (eachA (reread_pipe M) [0..<Suc (length Ss)])"
    by (rule silent_each) (auto intro!: keeps_reread simp del: upt_Suc)
  have "keeps_pipes Ss rs (align_body n M (length Ss))"
    unfolding align_body_def Let_def
    by (rule silent_seq [OF reads], rule silent_seq [OF keeps_read])
      (auto simp del: upt_Suc One_nat_def split: option.split intro!: silent_raise silent_seq [OF keeps_catch_up] silent_seq [OF catch]
        silent_seq [OF skip] silent_seq [OF keeps_consume] again)
  note body = silentD [OF this]
  show ?thesis
    unfolding silent_def
  proof (intro allI impI)
    fix s
    assume "rest_ok Ss rs s"
    moreover obtain r s' where r: "align_body n M (length Ss) s = (r, s')" by fastforce
    ultimately have "ms_out s' = ms_out s" "\<forall>x. r = Inr x \<longrightarrow> rest_ok Ss rs s'" using body by blast+
    then show "ms_out (snd (align_streams n M (length Ss) s)) = ms_out s
        \<and> (\<forall>x s'. align_streams n M (length Ss) s = (Inr x, s') \<longrightarrow> x \<longrightarrow> rest_ok Ss rs s')"
      using r by (auto simp: align_streams_def split: sum.split exn.split)
  qed
qed

section \<open>A turn\<close>

lemma sorted_filter_le:
  assumes "sorted_wrt (<) ts" "j < length (filter (\<lambda>t. t \<le> m) ts)"
  shows "filter (\<lambda>t. t \<le> m) ts ! j = ts ! j" "ts ! j \<le> (m::int)"
proof -
  have "filter (\<lambda>t. t \<le> m) ts = takeWhile (\<lambda>t. t \<le> m) ts"
    using assms(1)
  proof (induction ts)
    case (Cons a ts)
    show ?case
    proof (cases "a \<le> m")
      case False
      then have "\<forall>t \<in> set ts. \<not> t \<le> m" using Cons.prems by auto
      then have "filter (\<lambda>t. t \<le> m) ts = []" by (simp add: filter_empty_conv)
      then show ?thesis using False by simp
    qed (use Cons in simp)
  qed simp
  then show f: "filter (\<lambda>t. t \<le> m) ts ! j = ts ! j" using assms(2) by (simp add: takeWhile_nth)
  then show "ts ! j \<le> m" using nth_mem [OF assms(2)] by auto
qed

lemma get_data_ok:
  assumes "i \<in> set [1..<Suc (length Ss)]" "sorted_wrt (<) ts"
  shows "silent (pipes_ok Ss rs) (merge_get_data M interp ts i) (\<lambda>g s. pipes_ok Ss rs s \<and> column_of interp ts (Ss ! (i - 1)) g)"
  unfolding merge_get_data_def
proof (rule silent_seq [OF read_secondary [OF assms(1)]])
  fix source
  let ?P = "\<lambda>s. pipes_ok Ss rs s \<and> sublist source (Ss ! (i - 1))"
  let ?Q = "\<lambda>g s. pipes_ok Ss rs s \<and> column_of interp ts (Ss ! (i - 1)) g"
  let ?fill = "\<lambda>data. if data = [] then 0 else Suc (length (takeWhile (\<lambda>t. t \<noteq> ts ! (length data - 1)) ts))"
  have "silent ?P (let data = map f (filter (\<lambda>t. t \<le> fst (last source)) ts) in pureA (data, ?fill data)) ?Q"
    if s: "source \<noteq> []" "interp source = Inr f" for f
    unfolding Let_def
  proof (rule silent_pure)
    fix s :: "('p, 'v) merge_state"
    let ?ts = "filter (\<lambda>t. t \<le> fst (last source)) ts"
    let ?data = "map f ?ts"
    assume P: "?P s"
    have "?fill ?data \<le> length ?data"
    proof (cases "?ts = []")
      case False
      then have "length ?ts - 1 < length ts" using length_filter_le [of "\<lambda>t. t \<le> fst (last source)" ts] by (meson length_greater_0_conv diff_less less_le_trans zero_less_one)
      then have "length (takeWhile (\<lambda>t. t \<noteq> ts ! (length ?ts - 1)) ts) \<le> length ?ts - 1"
        by (metis (mono_tags, lifting) linorder_not_le nth_length_takeWhile takeWhile_nth nth_mem set_takeWhileD)
      moreover have "0 < length ?ts" using False by blast
      ultimately have "Suc (length (takeWhile (\<lambda>t. t \<noteq> ts ! (length ?ts - 1)) ts)) \<le> length ?ts" by linarith
      then show ?thesis using False by simp
    qed simp
    then have "\<forall>j < ?fill ?data. ?data ! j = f (ts ! j) \<and> ts ! j \<le> fst (last source)"
      using sorted_filter_le [OF assms(2), of _ "fst (last source)"] by auto
    then show "?Q (?data, ?fill ?data) s" using P s unfolding column_of_def fst_conv snd_conv by blast
  qed
  then show "silent ?P (if source = [] then raiseA PyIndexError
      else (case interp source of Inl e \<Rightarrow> raiseA e
        | Inr f \<Rightarrow> let data = map f (filter (\<lambda>t. t \<le> fst (last source)) ts) in pureA (data, ?fill data))) ?Q"
    by (auto intro: silent_raise split: sum.split)
qed

text \<open>The part of a turn before the rows are written.\<close>

definition gather :: "('v mrow list \<Rightarrow> (int \<Rightarrow> 'v list) res) \<Rightarrow> nat \<Rightarrow> ('p, 'v, 'v mrow list \<times> ('v list list \<times> nat) list) merging" where
  "gather interp k =
     seqA (read_pipe M 0) (\<lambda>primary.
     seqA (mapA (merge_get_data M interp (map fst primary)) [1..<Suc k]) (\<lambda>got.
     seqA (eachA (\<lambda>i. case last_valid (map fst primary) (foldl min (length primary) (map snd got)) of
             Inl e \<Rightarrow> raiseA e | Inr t \<Rightarrow> consume_data M t i) [1..<Suc k]) (\<lambda>_.
     pureA (primary, got))))"

definition deliver :: "nat \<Rightarrow> nat \<Rightarrow> 'v mrow list \<Rightarrow> nat \<Rightarrow> ('p, 'v, bool) merging" where
  "deliver n k primary valid =
     seqA (consume_pipe M 0 valid) (\<lambda>_.
     seqA (on_pipe 0 (\<lambda>p. (Inr (), if mp_end_of_interval M p \<and> valid < length primary then mp_reread M p else p))) (\<lambda>_.
     seqA (on_pipe 0 (\<lambda>p. (Inr (mp_end_of_interval M p), p))) (\<lambda>break.
     seqA (eachA (\<lambda>i. on_pipe i (\<lambda>p. (Inr (), if mp_end_of_interval M p then mp_reread M p else p))) [1..<Suc k]) (\<lambda>_.
     if break then seqA (write_rows [None]) (\<lambda>_. align_streams n M k) else pureA True))))"

lemma seqA_assoc: "seqA (seqA f g) h = seqA f (\<lambda>x. seqA (g x) h)"
  by (rule ext) (simp add: seqA_def split: prod.split sum.split)

lemma merge_turn_parts:
  "merge_turn n M interp k = seqA (gather interp k) (\<lambda>(primary, got).
     let valid = foldl min (length primary) (map snd got)
     in seqA (write_rows (map Some (merged_rows primary (map fst got) valid))) (\<lambda>_. deliver n k primary valid))"
  unfolding merge_turn_def gather_def deliver_def Let_def seqA_assoc by simp

lemma consume_data_ok: "i \<in> set [1..<Suc (length Ss)] \<Longrightarrow> silent (pipes_ok Ss rs) (consume_data M t i) (\<lambda>_. pipes_ok Ss rs)"
proof -
  assume i: "i \<in> set [1..<Suc (length Ss)]"
  then have le: "i \<le> length Ss" by (simp del: upt_Suc)
  have "silent (pipes_ok Ss rs) (on_pipe i (\<lambda>p. (Inr (), if mp_end_of_interval M p \<and> used < length (source :: 'v mrow list) then mp_clear_break M (mp_reread M p) else p)))
      (\<lambda>_ s. pipes_ok Ss rs s \<and> True)" for used source
    by (rule on_secondary [OF i]) (auto intro: reread_law clear_law split: if_splits)
  then have last: "silent (pipes_ok Ss rs) (on_pipe i (\<lambda>p. (Inr (), if mp_end_of_interval M p \<and> used < length (source :: 'v mrow list) then mp_clear_break M (mp_reread M p) else p)))
      (\<lambda>_. pipes_ok Ss rs)" for used source by simp
  have rd: "silent (pipes_ok Ss rs) (read_pipe M i) (\<lambda>_. pipes_ok Ss rs)" by (rule silent_weaken [OF read_secondary [OF i]]) auto
  show ?thesis
    unfolding consume_data_def Let_def
    by (rule silent_seq [OF reread_any [OF le]], rule silent_seq [OF rd], rule silent_seq [OF consume_secondary [OF i] last])
qed

lemma gather_ok:
  assumes "sorted_wrt (<) (map fst rs)"
  shows "silent (pipes_ok Ss rs) (gather interp (length Ss)) (\<lambda>(primary, got) s. pipes_ok Ss rs s \<and> prefix primary rs
     \<and> list_all2 (\<lambda>S g. column_of interp (map fst primary) S g) Ss got)"
  unfolding gather_def
proof (rule silent_seq [OF read_primary])
  fix primary :: "'v mrow list"
  let ?k = "[1..<Suc (length Ss)]"
  let ?A = "\<lambda>i. column_of interp (map fst primary) (Ss ! (i - 1))"
  let ?f = "\<lambda>got i. case last_valid (map fst primary) (foldl min (length primary) (map snd got)) of Inl e \<Rightarrow> raiseA e | Inr t \<Rightarrow> consume_data M t i"
  show "silent (\<lambda>s. prefix primary rs \<and> pipes_ok Ss rs s)
      (seqA (mapA (merge_get_data M interp (map fst primary)) ?k) (\<lambda>got. seqA (eachA (?f got) ?k) (\<lambda>_. pureA (primary, got))))
      (\<lambda>(primary, got) s. pipes_ok Ss rs s \<and> prefix primary rs \<and> list_all2 (\<lambda>S g. column_of interp (map fst primary) S g) Ss got)"
  proof (rule silent_assume)
    assume pre: "prefix primary rs"
    then have ts: "sorted_wrt (<) (map fst primary)" using assms by (auto simp: prefix_def sorted_wrt_append)
    have cols: "list_all2 (\<lambda>S g. column_of interp (map fst primary) S g) Ss got" if "list_all2 ?A ?k got" for got
      using that by (auto simp: list_all2_conv_all_nth nth_upt simp del: upt_Suc)
    have each: "silent (pipes_ok Ss rs) (eachA (?f got) ?k) (\<lambda>_. pipes_ok Ss rs)" for got :: "('v list list \<times> nat) list"
      by (rule silent_each) (auto intro: silent_raise consume_data_ok simp del: upt_Suc One_nat_def split: sum.split)
    have "silent (pipes_ok Ss rs) (seqA (mapA (merge_get_data M interp (map fst primary)) ?k) (\<lambda>got. seqA (eachA (?f got) ?k) (\<lambda>_. pureA (primary, got))))
      (\<lambda>(primary', got) s. pipes_ok Ss rs s \<and> primary' = primary \<and> list_all2 ?A ?k got)"
      by (rule silent_seq [OF silent_map [OF get_data_ok [OF _ ts]]], assumption, rule silent_seq [OF silent_frame [OF each]], rule silent_pure) simp
    then show ?thesis by (rule silent_weaken) (use pre cols in auto)
  qed simp
qed

lemma deliver_ok:
  assumes "pipes_ok Ss rs s"
  shows "\<exists>outs. ms_out (snd (deliver n (length Ss) primary valid s)) = ms_out s @ outs \<and> set outs \<subseteq> {None}
    \<and> (\<forall>s'. deliver n (length Ss) primary valid s = (Inr True, s') \<longrightarrow> rest_ok Ss (drop valid rs) s')"
proof -
  let ?ok = "pipes_ok Ss (drop valid rs)"
  let ?each = "eachA (\<lambda>i. on_pipe i (\<lambda>p. (Inr (), if mp_end_of_interval M p then mp_reread M p else p))) [1..<Suc (length Ss)]"
  define front :: "('p, 'v, bool) merging" where "front =
    seqA (consume_pipe M 0 valid) (\<lambda>_.
    seqA (on_pipe 0 (\<lambda>p. (Inr (), if mp_end_of_interval M p \<and> valid < length primary then mp_reread M p else p))) (\<lambda>_.
    seqA (on_pipe 0 (\<lambda>p. (Inr (mp_end_of_interval M p), p))) (\<lambda>break. seqA ?each (\<lambda>_. pureA break))))"
  have split: "deliver n (length Ss) primary valid
      = seqA front (\<lambda>break. if break then seqA (write_rows [None]) (\<lambda>_. align_streams n M (length Ss)) else pureA True)"
    unfolding deliver_def front_def seqA_assoc by simp
  have c: "silent (pipes_ok Ss rs) (consume_pipe M 0 valid) (\<lambda>_. ?ok)" by (rule silent_weaken [OF consume_primary]) auto
  have r: "silent ?ok (on_pipe 0 (\<lambda>p. (Inr (), if mp_end_of_interval M p \<and> valid < length primary then mp_reread M p else p))) (\<lambda>_ s. True \<and> ?ok s)"
    by (rule on_primary) (auto intro: reread_law split: if_splits)
  have b: "silent (\<lambda>s. True \<and> ?ok s) (on_pipe 0 (\<lambda>p. (Inr (mp_end_of_interval M p), p))) (\<lambda>_ s. True \<and> ?ok s)"
    unfolding simp_thms by (rule silent_weaken [OF on_primary [where A = "\<lambda>_. True" and rs' = "\<lambda>_. drop valid rs"]]) auto
  have "silent ?ok (on_pipe i (\<lambda>p. (Inr (), if mp_end_of_interval M p then mp_reread M p else p))) (\<lambda>_ s. ?ok s \<and> True)"
    if "i \<in> set [1..<Suc (length Ss)]" for i
    by (rule on_secondary [OF that]) (auto intro: reread_law split: if_splits)
  then have e: "silent (\<lambda>s. True \<and> ?ok s) ?each (\<lambda>_. ?ok)" unfolding simp_thms by (rule silent_each)
  have "silent (pipes_ok Ss rs) front (\<lambda>_. ?ok)"
    unfolding front_def
    by (rule silent_seq [OF c], rule silent_seq [OF r], rule silent_seq [OF b], rule silent_seq [OF e], rule silent_pure)
  note front = silentD [OF this assms]
  obtain r1 s1 where f: "front s = (r1, s1)" by fastforce
  note front = front [OF f]
  show ?thesis
  proof (cases "r1 = Inr True")
    case True
    let ?s1 = "s1\<lparr>ms_out := ms_out s1 @ [None]\<rparr>"
    have "rest_ok Ss (drop valid rs) ?s1" using front True by (auto simp: rest_ok_def pipes_ok_def intro: exI [of _ 0])
    moreover obtain r2 s2 where a: "align_streams n M (length Ss) ?s1 = (r2, s2)" by fastforce
    ultimately have "ms_out s2 = ms_out ?s1 \<and> (\<forall>x. r2 = Inr x \<longrightarrow> x \<longrightarrow> rest_ok Ss (drop valid rs) s2)"
      using silentD [OF align_ok] by blast
    moreover have "deliver n (length Ss) primary valid s = (r2, s2)" unfolding split by (simp add: seqA_def f True write_rows_def a)
    ultimately show ?thesis using front by (intro exI [of _ "[None]"]) auto
  next
    case False
    then have "deliver n (length Ss) primary valid s = (case r1 of Inl e \<Rightarrow> (Inl e, s1) | Inr _ \<Rightarrow> (Inr True, s1))"
      unfolding split by (auto simp: seqA_def f split: sum.split)
    then show ?thesis using front by (intro exI [of _ "[]"]) (auto simp: rest_ok_def intro: exI [of _ 0] split: sum.splits)
  qed
qed

lemma row_values:
  assumes "list_all2 (\<lambda>S g. column_of interp ts S g) Ss got" "\<forall>g \<in> set got. j < snd g"
  shows "\<exists>fs. map (\<lambda>c. c ! j) (map fst got) = map (\<lambda>f. f (ts ! j)) fs
    \<and> list_all2 (\<lambda>S f. \<exists>block. sublist block S \<and> block \<noteq> [] \<and> interp block = Inr f \<and> ts ! j \<le> fst (last block)) Ss fs"
  using assms
proof (induction rule: list_all2_induct)
  case (Cons S Ss g got)
  then obtain fs where fs: "map (\<lambda>c. c ! j) (map fst got) = map (\<lambda>f. f (ts ! j)) fs"
    "list_all2 (\<lambda>S f. \<exists>block. sublist block S \<and> block \<noteq> [] \<and> interp block = Inr f \<and> ts ! j \<le> fst (last block)) Ss fs" by auto
  obtain block f where f: "sublist block S" "block \<noteq> []" "interp block = Inr f" "fst g ! j = f (ts ! j)" "ts ! j \<le> fst (last block)"
    using Cons.hyps(1) Cons.prems by (auto simp: column_of_def)
  have "map (\<lambda>c. c ! j) (map fst (g # got)) = map (\<lambda>f. f (ts ! j)) (f # fs)" using fs(1) f(4) by simp
  moreover have "list_all2 (\<lambda>S f. \<exists>block. sublist block S \<and> block \<noteq> [] \<and> interp block = Inr f \<and> ts ! j \<le> fst (last block)) (S # Ss) (f # fs)"
    using fs(2) f by auto
  ultimately show ?case by blast
qed simp

lemma foldl_min_le: "foldl min a xs \<le> (a::nat) \<and> (\<forall>x \<in> set xs. foldl min a xs \<le> x)"
proof (induction xs arbitrary: a)
  case (Cons x xs)
  then show ?case by (metis foldl_Cons min.bounded_iff set_ConsD)
qed simp

lemma merged_rows_ok:
  assumes "list_all2 (\<lambda>S g. column_of interp (map fst primary) S g) Ss got" "prefix primary rs"
    and "valid = foldl min (length primary) (map snd got)"
  shows "list_all2 (merged_from interp Ss) (take valid rs) (merged_rows primary (map fst got) valid)"
proof -
  have le: "valid \<le> length primary" "\<forall>g \<in> set got. valid \<le> snd g"
    using foldl_min_le [of "length primary" "map snd got"] assms(3) by auto
  have rs: "length primary \<le> length rs" "\<And>j. j < valid \<Longrightarrow> rs ! j = primary ! j"
    using assms(2) le(1) by (auto simp: prefix_def nth_append)
  have "merged_from interp Ss (primary ! j) (merged_rows primary (map fst got) valid ! j)" if j: "j < valid" for j
  proof -
    have "\<forall>g \<in> set got. j < snd g" using j le(2) by auto
    from row_values [OF assms(1) this] show ?thesis
      using j le(1) unfolding merged_from_def by (auto simp: merged_rows_def simp del: map_map)
  qed
  then show ?thesis using le(1) rs by (auto simp: list_all2_conv_all_nth merged_rows_def)
qed

lemma turn_ok:
  assumes "pipes_ok Ss rs s" "sorted_wrt (<) (map fst rs)"
  shows "\<exists>outs v. ms_out (snd (merge_turn n M interp (length Ss) s)) = ms_out s @ outs
    \<and> list_all2 (merged_from interp Ss) (take v rs) (merged_out outs)
    \<and> (\<forall>s'. merge_turn n M interp (length Ss) s = (Inr True, s') \<longrightarrow> rest_ok Ss (drop v rs) s')"
proof -
  obtain r1 s1 where g: "gather interp (length Ss) s = (r1, s1)" by fastforce
  note ok = silentD [OF gather_ok [OF assms(2)] assms(1) g]
  show ?thesis
  proof (cases r1)
    case (Inl e)
    then have "merge_turn n M interp (length Ss) s = (Inl e, s1)" using g by (simp add: merge_turn_parts seqA_def)
    then show ?thesis using ok by (intro exI [of _ "[]"] exI [of _ 0]) (simp add: merged_out_def)
  next
    case (Inr x)
    obtain primary got where x: "r1 = Inr (primary, got)" using Inr by (cases x) simp
    let ?v = "foldl min (length primary) (map snd got)"
    let ?rows = "merged_rows primary (map fst got) ?v"
    let ?s1 = "s1\<lparr>ms_out := ms_out s1 @ map Some ?rows\<rparr>"
    have p: "pipes_ok Ss rs ?s1" using ok x by (auto simp: pipes_ok_def)
    obtain outs where d: "ms_out (snd (deliver n (length Ss) primary ?v ?s1)) = ms_out ?s1 @ outs" "set outs \<subseteq> {None}"
      "\<forall>s'. deliver n (length Ss) primary ?v ?s1 = (Inr True, s') \<longrightarrow> rest_ok Ss (drop ?v rs) s'"
      using deliver_ok [OF p, of n primary ?v] by auto
    have t: "merge_turn n M interp (length Ss) s = deliver n (length Ss) primary ?v ?s1"
      using g x by (simp add: merge_turn_parts seqA_def write_rows_def Let_def)
    have "list_all2 (merged_from interp Ss) (take ?v rs) ?rows"
      using ok x by (intro merged_rows_ok) auto
    then show ?thesis using t d ok
      by (intro exI [of _ "map Some ?rows @ outs"] exI [of _ ?v]) (simp add: merged_out_simps)
  qed
qed

lemma loop_ok:
  assumes "pipes_ok Ss (drop m rs) s" "sorted_wrt (<) (map fst rs)"
    and "\<exists>used. subseq used (take m rs) \<and> list_all2 (merged_from interp Ss) used (merged_out (ms_out s))"
  shows "\<exists>used. subseq used rs
    \<and> list_all2 (merged_from interp Ss) used (merged_out (ms_out (snd (merge_loop turns n M interp (length Ss) s))))"
  using assms(1,3)
proof (induction turns arbitrary: m s)
  case 0
  then obtain used where "subseq used (take m rs)" "list_all2 (merged_from interp Ss) used (merged_out (ms_out s))" by blast
  then show ?case by (auto simp: close_output_def intro: subseq_order.order_trans [OF _ prefix_imp_subseq [OF take_is_prefix]])
next
  case (Suc turns)
  obtain used where used: "subseq used (take m rs)" "list_all2 (merged_from interp Ss) used (merged_out (ms_out s))"
    using Suc.prems by blast
  obtain r s' where t: "merge_turn n M interp (length Ss) s = (r, s')" by fastforce
  have "sorted_wrt (<) (map fst (drop m rs))" using assms(2) by (simp add: drop_map [symmetric] sorted_wrt_drop)
  from turn_ok [OF Suc.prems(1) this, of n interp] t
  obtain outs v where turn: "ms_out s' = ms_out s @ outs"
    "list_all2 (merged_from interp Ss) (take v (drop m rs)) (merged_out outs)"
    "r = Inr True \<Longrightarrow> rest_ok Ss (drop v (drop m rs)) s'" by auto
  let ?used = "used @ take v (drop m rs)"
  have rows: "list_all2 (merged_from interp Ss) ?used (merged_out (ms_out s'))"
    using used(2) turn(1,2) by (simp add: merged_out_simps list_all2_appendI)
  have sub: "subseq ?used (take (m + v) rs)"
    unfolding take_add using used(1) by (simp add: list_emb_append_mono)
  show ?case
  proof (cases "r = Inr True")
    case True
    then obtain m' where "pipes_ok Ss (drop (m' + (v + m)) rs) s'" using turn(3) by (auto simp: rest_ok_def)
    moreover have "prefix (take (m + v) rs) (take (m' + (v + m)) rs)" using take_add [of "m + v" m' rs] prefixI by (simp add: ac_simps)
    then have "subseq ?used (take (m' + (v + m)) rs)" using sub prefix_imp_subseq subseq_order.order_trans by blast
    ultimately have "\<exists>used. subseq used rs
        \<and> list_all2 (merged_from interp Ss) used (merged_out (ms_out (snd (merge_loop turns n M interp (length Ss) s'))))"
      using rows by (intro Suc.IH) blast+
    then show ?thesis using t True by simp
  next
    case False
    then have "ms_out (snd (merge_loop (Suc turns) n M interp (length Ss) s)) = ms_out s'"
      using t by (auto simp: close_output_def split: sum.split exn.split bool.split)
    moreover have "subseq ?used rs" using sub subseq_order.order_trans [OF _ prefix_imp_subseq [OF take_is_prefix]] by blast
    ultimately show ?thesis using rows by auto
  qed
qed

lemma merge_ok:
  assumes "pipes_ok Ss rs s" "sorted_wrt (<) (map fst rs)" "ms_out s = []"
  shows "\<exists>used. subseq used rs
    \<and> list_all2 (merged_from interp Ss) used (merged_out (ms_out (snd (merge_streams turns n M interp (length Ss) s))))"
proof -
  obtain r s' where a: "align_streams n M (length Ss) s = (r, s')" by fastforce
  have "rest_ok Ss rs s" using assms(1) by (auto simp: rest_ok_def intro: exI [of _ 0])
  from silentD [OF align_ok this a] have s': "ms_out s' = []" "r = Inr True \<Longrightarrow> rest_ok Ss rs s'" using assms(3) by auto
  show ?thesis
  proof (cases "r = Inr True")
    case True
    then obtain m where "pipes_ok Ss (drop m rs) s'" using s' by (auto simp: rest_ok_def)
    from loop_ok [OF this assms(2), of interp turns n] show ?thesis
      using s'(1) a True by (auto simp: merge_streams_def seqA_def merged_out_def intro: exI [of _ "[]"])
  next
    case False
    then show ?thesis using s'(1) a
      by (auto simp: merge_streams_def seqA_def merged_out_def close_output_def split: sum.split intro: exI [of _ "[]"])
  qed
qed

end

section \<open>The filter on local pipes\<close>

text \<open>
  The attribute \<open>interval_break\<close> that the filter clears is not the one of a local pipe, which is called \<open>_interval_break\<close>.
  A read that would wait for rows that never come ends with \<open>CancelledError\<close>; \<open>dec\<close> reads the time and the values of a row.
\<close>

definition local_merge_ops :: "(row \<Rightarrow> 'v mrow) \<Rightarrow> (unit local_pipe, 'v) merge_ops" where
  "local_merge_ops dec =
     \<lparr>mp_read = (\<lambda>p. case lp_read no_sub no_cb p of
         (None, p) \<Rightarrow> (Inl CancelledError, p)
       | (Some (Inl e), p) \<Rightarrow> (Inl e, p)
       | (Some (Inr rows), p) \<Rightarrow> (Inr (map dec rows), p)),
      mp_consume = lp_consume, mp_reread = (\<lambda>p. p\<lparr>lp_reread := True\<rparr>),
      mp_end_of_interval = lp_end_of_interval, mp_clear_break = (\<lambda>p. p)\<rparr>"

definition local_holds :: "(row \<Rightarrow> 'v mrow) \<Rightarrow> unit local_pipe \<Rightarrow> 'v mrow list \<Rightarrow> bool" where
  "local_holds dec p rs = (lp_ok p \<and> map dec (lp_buffer p @ queue_rows (lp_queue p)) = rs)"

lemma lp_read_holds:
  assumes "lp_ok p" "lp_read no_sub no_cb p = (Some (Inr rows), p')"
  shows "prefix rows (lp_buffer p @ queue_rows (lp_queue p)) \<and> lp_ok p'
    \<and> lp_buffer p' @ queue_rows (lp_queue p') = lp_buffer p @ queue_rows (lp_queue p)"
proof (cases "lp_reread p")
  case True
  then show ?thesis using assms by (auto simp: lp_read_def lp_ok_def)
next
  case False
  have ok: "lp_ok (p\<lparr>lp_break := False\<rparr>)" "lp_ok (p\<lparr>lp_break := False, lp_last_read := True\<rparr>)"
    using assms(1) by (simp_all add: lp_ok_def)
  have "lp_poll (p\<lparr>lp_break := False\<rparr>) = (Some (Inr rows), p')"
    using assms(2) False by (auto simp: lp_read_def split: if_splits prod.splits option.splits sum.splits)
  then show ?thesis
    using q_split [of "lp_queue p"] assms(1)
    by (auto simp: lp_poll_def lp_read_queue_ok [OF ok(1)] lp_read_queue_ok [OF ok(2)] Let_def lp_ok_def split: if_splits)
qed

interpretation local_merge: peek_source "local_merge_ops dec" "local_holds dec" for dec :: "row \<Rightarrow> 'v mrow"
proof
  fix p p' :: "unit local_pipe" and rs rows :: "'v mrow list" and n
  show "prefix rows rs \<and> local_holds dec p' rs" if h: "local_holds dec p rs" and r: "mp_read (local_merge_ops dec) p = (Inr rows, p')"
  proof -
    obtain raw where raw: "lp_read no_sub no_cb p = (Some (Inr raw), p')" "rows = map dec raw"
      using r by (auto simp: local_merge_ops_def split: prod.splits option.splits sum.splits)
    then show ?thesis using lp_read_holds [OF _ raw(1)] h by (auto simp: local_holds_def map_mono_prefix simp flip: map_append)
  qed
  show "n \<le> length rs \<and> local_holds dec p' (drop n rs)"
    if "local_holds dec p rs" "mp_consume (local_merge_ops dec) p (int n) = (Inr (), p')"
    using that by (auto simp: local_merge_ops_def local_holds_def lp_consume_def lp_ok_def drop_map split: if_splits)
  show "local_holds dec (mp_reread (local_merge_ops dec) p) rs" if "local_holds dec p rs"
    using that by (simp add: local_merge_ops_def local_holds_def lp_ok_def)
  show "local_holds dec (mp_clear_break (local_merge_ops dec) p) rs" if "local_holds dec p rs"
    using that by (simp add: local_merge_ops_def local_holds_def)
qed

section \<open>Properties\<close>

text \<open>The rows a local pipe still has to give, and the pipes the filter takes as the others.\<close>

definition pipe_rows :: "(row \<Rightarrow> 'v mrow) \<Rightarrow> unit local_pipe \<Rightarrow> 'v mrow list" where
  "pipe_rows dec p = map dec (lp_buffer p @ queue_rows (lp_queue p))"

definition others :: "string \<Rightarrow> (string \<times> nat \<times> 'p) list \<Rightarrow> 'p list" where
  "others primary inputs = map (snd \<circ> snd) (filter (\<lambda>(name, _). name \<noteq> primary) inputs)"

lemma pipes_ok_start:
  assumes "list_all lp_ok (p # ps)"
  shows "local_merge.pipes_ok dec (map (pipe_rows dec) ps) (pipe_rows dec p) \<lparr>ms_pipes = p # ps, ms_out = [], ms_closed = False\<rparr>"
  using assms unfolding local_merge.pipes_ok_def
  by (auto simp: local_holds_def pipe_rows_def list_all_length intro!: exI [of _ 0])


text \<open>
  The examples read the first byte of a row as its time; the value of the interpolation is where its
  block starts and ends.
\<close>

definition filled_pipe :: "row list option list \<Rightarrow> unit local_pipe" where
  "filled_pipe q = (local_pipe_init demo_dtype False 0)
     \<lparr>lp_queue := q, lp_queued_rows := int (length (queue_rows q)), lp_closed := True\<rparr>"

definition byte_row :: "row \<Rightarrow> int mrow" where
  "byte_row r = (uint (hd r), map uint (tl r))"

definition block_ends :: "int mrow list \<Rightarrow> (int \<Rightarrow> int list) res" where
  "block_ends block = Inr (\<lambda>t. [fst (hd block), fst (last block)])"

abbreviation demo_merge :: "row list option list \<Rightarrow> row list option list \<Rightarrow> unit res \<times> (unit local_pipe, int) merge_state" where
  "demo_merge a b \<equiv> merge_run 9 9 (local_merge_ops byte_row) block_ends ''a'' [(''a'', 1, filled_pipe a), (''b'', 1, filled_pipe b)] [2]"


text \<open>The run itself, and one in which the secondary has an interval break behind a row that no time of the primary can use.\<close>

lemma merge_passes_break:
  "(let (r, s) = demo_merge [Some [[10, 1], [20, 2]], None, Some [[30, 3]]] [Some [[5, 1], [15, 2], [25, 2], [35, 2]]] in (r, ms_out s))
   = (Inr (), [Some (10, [1, 5, 35]), Some (20, [2, 5, 35]), None, Some (30, [3, 25, 35])])"
  by code_simp

lemma merge_fails_at_secondary_break:
  "(let (r, s) = demo_merge [Some [[10, 1], [30, 2]]] [Some [[5, 1], [15, 2]], None, Some [[25, 2], [35, 2]]] in (r, ms_out s))
   = (Inl PyIndexError, [Some (10, [1, 5, 15])])"
  by code_simp

text \<open>
  A turn consumes the samples up to the last time it has written, also the one the next time needs: when the next rows arrive,
  the value at time 12 comes from the samples at 15 and 25, although there was one at 5.
\<close>

lemma merge_extrapolates:
  "(let M = local_merge_ops byte_row;
        opened = (\<lambda>q. (filled_pipe q)\<lparr>lp_closed := False\<rparr>);
        feed = (\<lambda>rows p. p\<lparr>lp_queue := lp_queue p @ [Some rows], lp_queued_rows := lp_queued_rows p + int (length rows)\<rparr>);
        s0 = \<lparr>ms_pipes = [opened [Some [[10, 1]]], opened [Some [[5, 1], [15, 2]]]], ms_out = [], ms_closed = False\<rparr>;
        (_, s1) = align_streams 9 M 1 s0;
        (_, s2) = merge_turn 9 M block_ends 1 s1;
        s2 = s2\<lparr>ms_pipes := [feed [[12, 2]] (ms_pipes s2 ! 0), feed [[25, 3]] (ms_pipes s2 ! 1)]\<rparr>;
        (r, s3) = merge_turn 9 M block_ends 1 s2
    in (r, ms_out s3)) = (Inr True, [Some (10, [1, 5, 15]), Some (12, [2, 15, 25])])"
  by code_simp

end
